(* ===== verification/Prelude.thy ===== *)
theory Prelude
  imports Main
    "HOL-Library.Word"
    "HOL-Library.AList"
    "HOL-Library.Sublist"
    "HOL-Library.Char_ord"
    "HOL-Library.List_Lexorder"
    "HOL-Library.Product_Lexorder"
    "HOL-Library.Option_ord"
    "HOL-Library.Code_Target_Nat"
begin

text \<open>
  The shared layer of the development: the Rust standard-library operations the modelled
  code uses, with the facts the component theories rely on.

  \<^item> A Rust \<open>str\<close> is its UTF-8 byte sequence, an Isabelle \<open>string\<close>; \<open>chars\<close> decodes it
    into Unicode scalar values where the code iterates over characters.
  \<^item> Machine integers are words. An \<open>i32\<close> or \<open>i64\<close> is a word too, read with \<open>sint\<close>;
    \<open>as\<close> casts between integer types are \<open>ucast\<close>, \<open>scast\<close> or the identity. \<open>usize\<close>
    values that are lengths and positions are \<open>nat\<close>. A floating point value is only ever
    copied by the modelled code and is kept as its 64-bit pattern.
  \<^item> A \<open>HashMap\<close> is an association list with \<open>AList.update\<close> (its order stands for the
    unspecified iteration order); a \<open>BTreeMap\<close> is an association list sorted by key
    (\<open>bt_insert\<close>); a \<open>HashSet\<close> is a list used only through membership.
\<close>

section \<open>Types and proof collections\<close>

type_synonym u8 = "8 word"
type_synonym u16 = "16 word"
type_synonym u32 = "32 word"
type_synonym u64 = "64 word"
type_synonym i32 = "32 word"
type_synonym i64 = "64 word"
type_synonym f64 = "64 word"

named_theorems split_simps "splitting and joining of strings"
named_theorems path_simps "components of canonical paths"
named_theorems frame_simps "fields an operation leaves unchanged"

section \<open>Strings: splitting and joining\<close>

fun split_on :: "'a \<Rightarrow> 'a list \<Rightarrow> 'a list list" where
  "split_on c [] = [[]]"
| "split_on c (x # xs) =
     (if x = c then [] # split_on c xs
      else (case split_on c xs of [] \<Rightarrow> [[x]] | w # ws \<Rightarrow> (x # w) # ws))"

fun join_with :: "'a list \<Rightarrow> 'a list list \<Rightarrow> 'a list" where
  "join_with sep [] = []"
| "join_with sep [w] = w"
| "join_with sep (w # v # ws) = w @ sep @ join_with sep (v # ws)"

lemma split_on_neq_Nil [simp]: "split_on c xs \<noteq> []"
  by (cases xs) (auto split: list.splits)

lemma split_on_no_sep: "w \<in> set (split_on c xs) \<Longrightarrow> c \<notin> set w"
  by (induction xs arbitrary: w) (auto split: list.splits if_splits)

lemma join_with_Cons: "ws \<noteq> [] \<Longrightarrow> join_with sep (w # ws) = w @ sep @ join_with sep ws"
  by (cases ws) auto

lemma join_split_on [split_simps]: "join_with [c] (split_on c xs) = xs"
proof (induction xs)
  case (Cons x xs)
  obtain w ws where w: "split_on c xs = w # ws"
    by (cases "split_on c xs") auto
  with Cons show ?case
    by (cases ws) (auto simp: join_with_Cons)
qed simp

lemma split_on_append_sep: "split_on c (w @ c # xs) = split_on c w @ split_on c xs"
  by (induction w) (auto split: list.splits)

lemma split_on_id [split_simps]: "c \<notin> set w \<Longrightarrow> split_on c w = [w]"
  by (induction w) auto

lemma split_on_join [split_simps]:
  "ws \<noteq> [] \<Longrightarrow> \<forall>w \<in> set ws. c \<notin> set w \<Longrightarrow> split_on c (join_with [c] ws) = ws"
  by (induction ws rule: induct_list012) (auto simp: split_on_append_sep split_on_id)

lemma join_with_append:
  "us \<noteq> [] \<Longrightarrow> vs \<noteq> [] \<Longrightarrow> join_with sep (us @ vs) = join_with sep us @ sep @ join_with sep vs"
  by (induction us rule: induct_list012) (auto simp: join_with_Cons)

lemma join_with_inj:
  assumes "us \<noteq> []" "vs \<noteq> []" "\<forall>w \<in> set us. c \<notin> set w" "\<forall>w \<in> set vs. c \<notin> set w"
    and "join_with [c] us = join_with [c] vs"
  shows "us = vs"
  using assms by (metis split_on_join)

lemma join_with_eq_Nil: "join_with [c] ws = [] \<longleftrightarrow> ws = [] \<or> ws = [[]]"
  by (induction ws rule: induct_list012) auto

definition trim_start_matches :: "'a \<Rightarrow> 'a list \<Rightarrow> 'a list" where
  "trim_start_matches c s = dropWhile (\<lambda>x. x = c) s"

definition trim_end_matches :: "'a \<Rightarrow> 'a list \<Rightarrow> 'a list" where
  "trim_end_matches c s = rev (dropWhile (\<lambda>x. x = c) (rev s))"

definition trim_matches :: "'a \<Rightarrow> 'a list \<Rightarrow> 'a list" where
  "trim_matches c s = trim_end_matches c (trim_start_matches c s)"

definition starts_with :: "'a list \<Rightarrow> 'a list \<Rightarrow> bool" where
  "starts_with s p = (take (length p) s = p)"

definition ends_with :: "'a list \<Rightarrow> 'a list \<Rightarrow> bool" where
  "ends_with s p = (length p \<le> length s \<and> drop (length s - length p) s = p)"

definition strip_prefix :: "'a list \<Rightarrow> 'a list \<Rightarrow> 'a list option" where
  "strip_prefix s p = (if starts_with s p then Some (drop (length p) s) else None)"

fun split_once :: "'a \<Rightarrow> 'a list \<Rightarrow> ('a list \<times> 'a list) option" where
  "split_once c [] = None"
| "split_once c (x # xs) =
     (if x = c then Some ([], xs)
      else map_option (\<lambda>(a, b). (x # a, b)) (split_once c xs))"

definition rsplit_once :: "'a \<Rightarrow> 'a list \<Rightarrow> ('a list \<times> 'a list) option" where
  "rsplit_once c s = map_option (\<lambda>(a, b). (rev b, rev a)) (split_once c (rev s))"

lemma starts_with_iff_prefix: "starts_with s p \<longleftrightarrow> prefix p s"
  by (metis append_eq_conv_conj append_take_drop_id prefix_def starts_with_def)

lemma starts_with_append [simp]: "starts_with (p @ s) p"
  by (simp add: starts_with_def)

lemma starts_with_Cons [simp]: "starts_with (x # s) (y # p) \<longleftrightarrow> x = y \<and> starts_with s p"
  by (auto simp: starts_with_def)

lemma starts_with_Nil [simp]: "starts_with s []" "starts_with [] (y # p) = False"
  by (auto simp: starts_with_def)

lemma strip_prefix_Some: "strip_prefix s p = Some r \<longleftrightarrow> s = p @ r"
  by (auto simp: strip_prefix_def starts_with_iff_prefix prefix_def)

lemma ends_with_iff_suffix: "ends_with s p \<longleftrightarrow> suffix p s"
proof
  assume "ends_with s p"
  then have "s = take (length s - length p) s @ p"
    by (metis append_take_drop_id ends_with_def)
  then show "suffix p s"
    by (rule suffixI)
qed (auto simp: ends_with_def suffix_def)

lemma split_once_Some:
  "split_once c s = Some (a, b) \<longleftrightarrow> s = a @ c # b \<and> c \<notin> set a"
proof (induction s arbitrary: a b)
  case (Cons x s)
  show ?case
  proof (cases "x = c")
    case True
    then show ?thesis by (cases a) auto
  next
    case False
    then show ?thesis
      using Cons by (cases a) auto
  qed
qed simp

lemma split_once_None: "split_once c s = None \<longleftrightarrow> c \<notin> set s"
  by (induction s) auto

lemma rsplit_once_Some:
  "rsplit_once c s = Some (a, b) \<longleftrightarrow> s = a @ c # b \<and> c \<notin> set b"
proof -
  have "rsplit_once c s = Some (a, b) \<longleftrightarrow> split_once c (rev s) = Some (rev b, rev a)"
    by (auto simp: rsplit_once_def)
  also have "\<dots> \<longleftrightarrow> rev s = rev (a @ c # b) \<and> c \<notin> set b"
    by (simp add: split_once_Some)
  finally show ?thesis
    by (simp only: rev_is_rev_conv)
qed

lemma rsplit_once_None: "rsplit_once c s = None \<longleftrightarrow> c \<notin> set s"
  by (simp add: rsplit_once_def split_once_None)

section \<open>Characters and numbers\<close>

definition is_ascii_digit :: "char \<Rightarrow> bool" where
  "is_ascii_digit c = (48 \<le> (of_char c :: nat) \<and> (of_char c :: nat) \<le> 57)"

definition to_ascii_lowercase :: "string \<Rightarrow> string" where
  "to_ascii_lowercase s =
     map (\<lambda>c. let n = (of_char c :: nat) in if 65 \<le> n \<and> n \<le> 90 then char_of (n + 32) else c) s"

text \<open>\<open>str::chars\<close>: the Unicode scalar values of a UTF-8 byte sequence.\<close>

definition cont_bits :: "string \<Rightarrow> nat \<Rightarrow> nat" where
  "cont_bits bs i = (if i < length bs then of_char (bs ! i) mod 64 else 0)"

fun chars :: "string \<Rightarrow> nat list" where
  "chars [] = []"
| "chars (b # bs) =
     (let n = of_char b in
      if n < 128 then n # chars bs
      else if n < 224 then ((n mod 32) * 64 + cont_bits bs 0) # chars (drop 1 bs)
      else if n < 240 then
        ((n mod 16) * 4096 + cont_bits bs 0 * 64 + cont_bits bs 1) # chars (drop 2 bs)
      else
        ((n mod 8) * 262144 + cont_bits bs 0 * 4096 + cont_bits bs 1 * 64 + cont_bits bs 2)
          # chars (drop 3 bs))"

lemma chars_ascii: "\<forall>c \<in> set s. (of_char c :: nat) < 128 \<Longrightarrow> chars s = map of_char s"
  by (induction s) auto

text \<open>
  \<open>str::trim\<close>: the UTF-8 encodings of the characters with the Unicode property White\_Space.
\<close>

definition white_space :: "string list" where
  "white_space =
     map (\<lambda>n. [char_of n]) [9, 10, 11, 12, 13, 32 :: nat]
     @ map (map char_of)
       [[0xC2, 0x85], [0xC2, 0xA0], [0xE1, 0x9A, 0x80],
        [0xE2, 0x80, 0x80], [0xE2, 0x80, 0x81], [0xE2, 0x80, 0x82], [0xE2, 0x80, 0x83],
        [0xE2, 0x80, 0x84], [0xE2, 0x80, 0x85], [0xE2, 0x80, 0x86], [0xE2, 0x80, 0x87],
        [0xE2, 0x80, 0x88], [0xE2, 0x80, 0x89], [0xE2, 0x80, 0x8A], [0xE2, 0x80, 0xA8],
        [0xE2, 0x80, 0xA9], [0xE2, 0x80, 0xAF], [0xE2, 0x81, 0x9F], [0xE3, 0x80, 0x80 :: nat]]"

definition ws_len :: "string list \<Rightarrow> string \<Rightarrow> nat" where
  "ws_len ws s = (case find (starts_with s) ws of None \<Rightarrow> 0 | Some w \<Rightarrow> length w)"

function strip_ws :: "string list \<Rightarrow> string \<Rightarrow> string" where
  "strip_ws ws s =
     (if s = [] \<or> ws_len ws s = 0 then s else strip_ws ws (drop (ws_len ws s) s))"
  by pat_completeness auto
termination
  by (relation "measure (\<lambda>(ws, s). length s)") auto

declare strip_ws.simps [simp del]

definition trim :: "string \<Rightarrow> string" where
  "trim s = rev (strip_ws (map rev white_space) (rev (strip_ws white_space s)))"

text \<open>\<open>str::parse\<close> for integers: an optional sign, at least one digit, no overflow.\<close>

fun digits_value :: "nat \<Rightarrow> string \<Rightarrow> nat option" where
  "digits_value acc [] = Some acc"
| "digits_value acc (c # cs) =
     (if is_ascii_digit c then digits_value (acc * 10 + (of_char c - 48)) cs else None)"

definition parse_digits :: "string \<Rightarrow> nat option" where
  "parse_digits s = (if s = [] then None else digits_value 0 s)"

definition parse_unsigned :: "nat \<Rightarrow> string \<Rightarrow> nat option" where
  "parse_unsigned bound s =
     (case parse_digits (if starts_with s ''+'' then drop 1 s else s) of
        None \<Rightarrow> None
      | Some n \<Rightarrow> (if n < bound then Some n else None))"

definition parse_u32 :: "string \<Rightarrow> u32 option" where
  "parse_u32 s = map_option of_nat (parse_unsigned (2 ^ 32) s)"

definition parse_u64 :: "string \<Rightarrow> u64 option" where
  "parse_u64 s = map_option of_nat (parse_unsigned (2 ^ 64) s)"

definition parse_usize :: "string \<Rightarrow> nat option" where
  "parse_usize s = parse_unsigned (2 ^ 64) s"

definition parse_i32 :: "string \<Rightarrow> i32 option" where
  "parse_i32 s =
     (if starts_with s ''-''
      then (case parse_digits (drop 1 s) of
              None \<Rightarrow> None
            | Some n \<Rightarrow> (if n \<le> 2 ^ 31 then Some (- of_nat n) else None))
      else map_option of_nat (parse_unsigned (2 ^ 31) s))"

text \<open>\<open>to_string\<close> for integers: decimal digits without leading zeros.\<close>

fun show_nat :: "nat \<Rightarrow> string" where
  "show_nat n =
     (if n < 10 then [char_of (48 + n)] else show_nat (n div 10) @ [char_of (48 + n mod 10)])"

declare show_nat.simps [simp del]

definition show_i32 :: "i32 \<Rightarrow> string" where
  "show_i32 v = (if sint v < 0 then CHR ''-'' # show_nat (nat (- sint v)) else show_nat (nat (sint v)))"

lemma is_ascii_digit_char_of [simp]: "n < 10 \<Longrightarrow> is_ascii_digit (char_of (48 + n :: nat))"
  by (simp add: is_ascii_digit_def)

lemma digits_value_append:
  "digits_value acc (xs @ ys) =
     (case digits_value acc xs of None \<Rightarrow> None | Some a \<Rightarrow> digits_value a ys)"
  by (induction xs arbitrary: acc) auto

lemma show_nat_neq_Nil [simp]: "show_nat n \<noteq> []"
  by (subst show_nat.simps) simp

lemma show_nat_digits: "c \<in> set (show_nat n) \<Longrightarrow> is_ascii_digit c"
proof (induction n rule: show_nat.induct)
  case (1 n)
  then show ?case
    by (cases "n < 10") (auto simp: show_nat.simps [of n])
qed

lemma digits_value_show_nat: "digits_value 0 (show_nat n) = Some n"
proof (induction n rule: show_nat.induct)
  case (1 n)
  then show ?case
    by (cases "n < 10") (auto simp: show_nat.simps [of n] digits_value_append)
qed

lemma parse_digits_show_nat [simp]: "parse_digits (show_nat n) = Some n"
  by (simp add: parse_digits_def digits_value_show_nat)

lemma show_nat_hd_digit: "show_nat n = c # cs \<Longrightarrow> is_ascii_digit c"
  using show_nat_digits [of c n] by simp

lemma starts_with_show_nat [simp]: "\<not> is_ascii_digit c \<Longrightarrow> \<not> starts_with (show_nat n) [c]"
  using show_nat_hd_digit by (cases "show_nat n") auto

lemma not_ascii_digit_sign [simp]: "\<not> is_ascii_digit CHR ''+''" "\<not> is_ascii_digit CHR ''-''"
  by (simp_all add: is_ascii_digit_def)

lemma parse_unsigned_show_nat [simp]: "n < b \<Longrightarrow> parse_unsigned b (show_nat n) = Some n"
  by (simp add: parse_unsigned_def)

lemma parse_usize_show_nat [simp]: "n < 2 ^ 64 \<Longrightarrow> parse_usize (show_nat n) = Some n"
  by (simp add: parse_usize_def)

lemma show_nat_inj: "show_nat m = show_nat n \<Longrightarrow> m = n"
  by (metis digits_value_show_nat option.inject)

lemma parse_i32_show_nat: "n < 2 ^ 31 \<Longrightarrow> parse_i32 (show_nat n) = Some (of_nat n)"
  by (simp add: parse_i32_def)

section \<open>Machine integers\<close>

text \<open>\<open>x.max(0)\<close> on an \<open>i64\<close>; the cast to \<open>u64\<close> that follows it keeps the bits.\<close>

definition max0 :: "i64 \<Rightarrow> u64" where
  "max0 x = (if sint x < 0 then 0 else x)"

definition saturating_add :: "u64 \<Rightarrow> u64 \<Rightarrow> u64" where
  "saturating_add a b = (if unat a + unat b < 2 ^ 64 then a + b else 0xFFFFFFFFFFFFFFFF)"

definition saturating_sub :: "u64 \<Rightarrow> u64 \<Rightarrow> u64" where
  "saturating_sub a b = (if b \<le> a then a - b else 0)"

definition checked_add :: "u64 \<Rightarrow> u64 \<Rightarrow> u64 option" where
  "checked_add a b = (if unat a + unat b < 2 ^ 64 then Some (a + b) else None)"

definition checked_mul :: "u64 \<Rightarrow> u64 \<Rightarrow> u64 option" where
  "checked_mul a b = (if unat a * unat b < 2 ^ 64 then Some (a * b) else None)"

lemma unat_saturating_add: "unat (saturating_add a b) = min (unat a + unat b) (2 ^ 64 - 1)"
  by (auto simp: saturating_add_def unat_word_ariths min_def)

lemma unat_saturating_sub: "unat (saturating_sub a b) = unat a - unat b"
  by (auto simp: saturating_sub_def unat_sub_if' word_le_nat_alt)

lemma checked_add_Some: "checked_add a b = Some c \<Longrightarrow> unat c = unat a + unat b"
  by (auto simp: checked_add_def unat_word_ariths split: if_splits)

lemma checked_mul_Some: "checked_mul a b = Some c \<Longrightarrow> unat c = unat a * unat b"
  by (auto simp: checked_mul_def unat_word_ariths split: if_splits)

lemma unat_of_nat_u32 [simp]: "n < 2 ^ 32 \<Longrightarrow> unat (of_nat n :: u32) = n"
  by (simp add: unat_of_nat)

section \<open>Ordered maps\<close>

fun bt_insert :: "'k::linorder \<Rightarrow> 'v \<Rightarrow> ('k \<times> 'v) list \<Rightarrow> ('k \<times> 'v) list" where
  "bt_insert k v [] = [(k, v)]"
| "bt_insert k v (p # ps) =
     (if fst p < k then p # bt_insert k v ps
      else if fst p = k then (k, v) # ps
      else (k, v) # p # ps)"

definition bt_sorted :: "('k::linorder \<times> 'v) list \<Rightarrow> bool" where
  "bt_sorted m = sorted_wrt (<) (map fst m)"

lemma bt_sorted_Nil [simp]: "bt_sorted []"
  by (simp add: bt_sorted_def)

lemma bt_insert_keys [simp]: "fst ` set (bt_insert k v m) = insert k (fst ` set m)"
  by (induction m) auto

lemma bt_sorted_insert [simp, intro]: "bt_sorted m \<Longrightarrow> bt_sorted (bt_insert k v m)"
proof (induction m)
  case (Cons p m)
  have "\<forall>q \<in> set (bt_insert k v m). fst q = k \<or> fst q \<in> fst ` set m"
    using bt_insert_keys [of k v m] by blast
  with Cons show ?case
    by (auto simp: bt_sorted_def dest: order.strict_trans)
qed (simp add: bt_sorted_def)

lemma bt_sorted_distinct: "bt_sorted m \<Longrightarrow> distinct (map fst m)"
  unfolding bt_sorted_def by (simp add: strict_sorted_iff)

lemma map_of_bt_insert [simp]: "bt_sorted m \<Longrightarrow> map_of (bt_insert k v m) = (map_of m)(k \<mapsto> v)"
proof (induction m)
  case (Cons p m)
  have "k < fst p \<Longrightarrow> map_of m k = None"
    using Cons.prems by (force simp: bt_sorted_def map_of_eq_None_iff)
  with Cons show ?case
    by (cases p) (auto simp: bt_sorted_def fun_eq_iff)
qed simp

lemma bt_sorted_eqI:
  assumes "bt_sorted m" "bt_sorted n" "map_of m = map_of n"
  shows "m = n"
proof -
  have d: "distinct (map fst m)" "distinct (map fst n)"
    using assms by (simp_all add: bt_sorted_distinct)
  then have eq: "set m = set n"
    using assms(3) by (simp add: map_of_inject_set)
  show ?thesis
  proof (rule map_sorted_distinct_set_unique [where f = fst])
    show "inj_on fst (set m \<union> set n)"
      using d eq by (simp add: distinct_map)
  qed (use assms d eq in \<open>simp_all add: bt_sorted_def strict_sorted_iff\<close>)
qed

text \<open>Collecting an iterator into a \<open>BTreeMap\<close>: later items win.\<close>

definition bt_collect :: "('a \<Rightarrow> 'k::linorder) \<Rightarrow> ('a \<Rightarrow> 'v) \<Rightarrow> 'a list \<Rightarrow> ('k \<times> 'v) list" where
  "bt_collect k f xs = foldl (\<lambda>acc x. bt_insert (k x) (f x) acc) [] xs"

lemma bt_collect_Nil [simp]: "bt_collect k f [] = []"
  and bt_collect_snoc: "bt_collect k f (xs @ [x]) = bt_insert (k x) (f x) (bt_collect k f xs)"
  by (simp_all add: bt_collect_def)

lemma bt_sorted_collect [simp, intro]: "bt_sorted (bt_collect k f xs)"
  by (induction xs rule: rev_induct) (simp_all add: bt_collect_snoc)

lemma map_of_bt_collect:
  "map_of (bt_collect k f xs) s =
     (if filter (\<lambda>x. k x = s) xs = [] then None else Some (f (last (filter (\<lambda>x. k x = s) xs))))"
  by (induction xs rule: rev_induct) (auto simp: bt_collect_snoc)

lemma bt_insert_not_Nil [simp]: "bt_insert k v m \<noteq> []"
  by (cases m) auto

lemma bt_collect_eq_Nil [simp]: "bt_collect k f xs = [] \<longleftrightarrow> xs = []"
  by (cases xs rule: rev_cases) (simp_all add: bt_collect_snoc)

lemma filter_fst:
  "distinct (map fst d) \<Longrightarrow> filter (\<lambda>x. fst x = k) d = (case map_of d k of None \<Rightarrow> [] | Some v \<Rightarrow> [(k, v)])"
proof (induction d)
  case (Cons x d)
  then have "fst x = k \<Longrightarrow> map_of d k = None"
    by (simp add: map_of_eq_None_iff)
  with Cons show ?case by (cases x) auto
qed simp

lemma bt_collect_map: "bt_collect k f (map g xs) = bt_collect (\<lambda>x. k (g x)) (\<lambda>x. f (g x)) xs"
  by (simp add: bt_collect_def foldl_map)

end
