(* ===== verification/Interner.thy ===== *)
theory Interner
  imports Prelude
begin

text \<open>
  The contract of a string interner, as the compact index (\<open>StringPool\<close>) and the union folder
  cache (\<open>PathIntern\<close>) use it: ids are handed out once, an id always reads back as the string
  it was handed out for, and interning never disturbs earlier ids. \<open>intern_str\<close> returns
  \<open>None\<close> where the implementation panics; \<open>fits\<close> is the capacity condition under which it
  must not.
\<close>

locale interner =
  fixes get_str :: "'p \<Rightarrow> u32 \<Rightarrow> string"
    and find_id :: "'p \<Rightarrow> string \<Rightarrow> u32 option"
    and intern_str :: "'p \<Rightarrow> string \<Rightarrow> (u32 \<times> 'p) option"
    and invar :: "'p \<Rightarrow> bool"
    and fits :: "'p \<Rightarrow> string \<Rightarrow> bool"
  assumes find_get: "invar p \<Longrightarrow> find_id p s = Some i \<Longrightarrow> get_str p i = s"
    and intern_Some: "invar p \<Longrightarrow> fits p s \<Longrightarrow> \<exists>i q. intern_str p s = Some (i, q)"
    and intern_find: "invar p \<Longrightarrow> fits p s \<Longrightarrow> intern_str p s = Some (i, q) \<Longrightarrow>
      find_id q = (find_id p)(s \<mapsto> i)"
    and intern_known: "invar p \<Longrightarrow> find_id p s = Some i \<Longrightarrow> intern_str p s = Some (i, p)"
    and intern_invar: "invar p \<Longrightarrow> fits p s \<Longrightarrow> intern_str p s = Some (i, q) \<Longrightarrow> invar q"
begin

text \<open>Two different strings never share an id.\<close>

lemma find_inj:
  assumes "invar p" "find_id p s = Some i" "find_id p t = Some i"
  shows "s = t"
  using find_get [OF assms(1,2)] find_get [OF assms(1,3)] by simp

text \<open>What an interned string reads back as.\<close>

lemma get_intern:
  assumes "invar p" "fits p s" "intern_str p s = Some (i, q)"
  shows "get_str q i = s"
proof -
  have "find_id q s = Some i"
    by (simp add: intern_find [OF assms])
  with intern_invar [OF assms] show ?thesis
    by (rule find_get)
qed

text \<open>Interning keeps every id handed out before, and what it reads back as.\<close>

lemma intern_keeps:
  assumes "invar p" "fits p s" "intern_str p s = Some (i, q)" "find_id p t = Some j"
  shows "find_id q t = Some j \<and> get_str q j = t"
proof -
  have "find_id q t = Some j"
  proof (cases "t = s")
    case True
    with assms have "i = j" by (auto dest: intern_known)
    with assms True show ?thesis
      by (simp add: intern_find [OF assms(1-3)])
  next
    case False
    with assms show ?thesis
      by (simp add: intern_find [OF assms(1-3)])
  qed
  with intern_invar [OF assms(1-3)] show ?thesis
    by (simp add: find_get)
qed

text \<open>An id of the result is either an old one or the one just handed out.\<close>

lemma intern_fresh:
  assumes "invar p" "fits p s" "intern_str p s = Some (i, q)" "find_id p s = None"
    and "find_id p t = Some j"
  shows "i \<noteq> j"
proof
  assume "i = j"
  have "find_id q t = Some j"
    using intern_keeps [OF assms(1-3) assms(5)] by simp
  moreover have "find_id q s = Some j"
    using \<open>i = j\<close> by (simp add: intern_find [OF assms(1-3)])
  ultimately have "s = t"
    using find_inj [OF intern_invar [OF assms(1-3)]] by blast
  with assms(4,5) show False by simp
qed

end

end
