(* ===== verification/String_Pool.thy ===== *)
theory String_Pool
  imports Interner
begin

unbundle bit_operations_syntax

text \<open>
  The string pool of the compact in-memory index (\<open>StringPool\<close> in \<open>ratarmount-index/src/mem.rs\<close>):
  a byte slab with \<open>(start, len)\<close> spans, a hash map while building, and after \<open>seal\<close> a vector of
  \<open>(fnv1a64, id)\<close> pairs searched by binary search. The pool is shown to be an interner in both
  phases; sealing changes no answer. The ids and the spans are \<open>u32\<close>, so the contract holds as
  long as the pool stays below \<open>2 ^ 32\<close> strings and bytes (\<open>pool_fits\<close>).
\<close>

section \<open>Definitions\<close>

datatype pool_lookup = Build "(string \<times> u32) list" | Sealed "(u64 \<times> u32) list"

text \<open>An \<open>Arc<str>\<close>: its allocation and its text. \<open>Arc::ptr_eq\<close> compares allocations.\<close>

datatype arc = Arc (arc_addr: nat) (arc_text: string)

record string_pool =
  slab :: string
  spans :: "(u32 \<times> u32) list"
  lookup :: pool_lookup
  arcs :: "(u32 \<times> arc) list option"

fun fnv1a64_from :: "u64 \<Rightarrow> string \<Rightarrow> u64" where
  "fnv1a64_from h [] = h"
| "fnv1a64_from h (b # bs) = fnv1a64_from ((h XOR of_nat (of_char b)) * 0x100000001b3) bs"

definition fnv1a64 :: "string \<Rightarrow> u64" where
  "fnv1a64 s = fnv1a64_from 0xcbf29ce484222325 s"

definition pool_new :: string_pool where
  "pool_new = \<lparr>slab = [], spans = [(0, 0)], lookup = Build [('''', 0)], arcs = Some []\<rparr>"

definition pool_get :: "string_pool \<Rightarrow> u32 \<Rightarrow> string" where
  "pool_get p sid =
     (if unat sid < length (spans p)
      then
        let (start, len) = spans p ! unat sid;
            e = unat start + unat len
        in if e > length (slab p) then ''''
           else take (unat len) (drop (unat start) (slab p))
      else '''')"

definition rebuild_sealed_lookup :: "string_pool \<Rightarrow> string_pool" where
  "rebuild_sealed_lookup p =
     p\<lparr>lookup := Sealed (sort (map (\<lambda>n. (fnv1a64 (pool_get p (of_nat n)), of_nat n))
                              [0..<length (spans p)]))\<rparr>"

definition seal :: "string_pool \<Rightarrow> string_pool" where
  "seal p = (case lookup p of Sealed _ \<Rightarrow> p | Build _ \<Rightarrow> rebuild_sealed_lookup p)"

definition is_sealed_slab :: "string_pool \<Rightarrow> bool" where
  "is_sealed_slab p = (case lookup p of Sealed _ \<Rightarrow> True | Build _ \<Rightarrow> False)"

definition partition_point :: "('a \<Rightarrow> bool) \<Rightarrow> 'a list \<Rightarrow> nat" where
  "partition_point P v = length (takeWhile P v)"

fun scan_sealed :: "string_pool \<Rightarrow> u64 \<Rightarrow> string \<Rightarrow> (u64 \<times> u32) list \<Rightarrow> u32 option" where
  "scan_sealed p h s [] = None"
| "scan_sealed p h s ((hv, sid) # rest) =
     (if hv \<noteq> h then None
      else if pool_get p sid = s then Some sid
      else scan_sealed p h s rest)"

definition lookup_id :: "string_pool \<Rightarrow> string \<Rightarrow> u32 option" where
  "lookup_id p s =
     (case lookup p of
        Build m \<Rightarrow> map_of m s
      | Sealed v \<Rightarrow>
          let h = fnv1a64 s;
              i = partition_point (\<lambda>(hv, _). hv < h) v
          in scan_sealed p h s (drop i v))"

definition intern_id :: "string_pool \<Rightarrow> string \<Rightarrow> u32 \<times> string_pool" where
  "intern_id p s =
     (case lookup_id p s of
        Some sid \<Rightarrow> (sid, p)
      | None \<Rightarrow>
          let sid = of_nat (length (spans p));
              start = of_nat (length (slab p));
              p1 = p\<lparr>slab := slab p @ s, spans := spans p @ [(start, of_nat (length s))]\<rparr>
          in (case lookup p of
                Build m \<Rightarrow> (sid, p1\<lparr>lookup := Build (AList.update s sid m)\<rparr>)
              | Sealed _ \<Rightarrow> (sid, rebuild_sealed_lookup p1)))"

text \<open>
  \<open>intern\<close> and \<open>lookup_arc\<close> allocate: the first argument is the next unused allocation, and the
  result carries the one after.
\<close>

definition intern :: "nat \<Rightarrow> string_pool \<Rightarrow> string \<Rightarrow> arc \<times> string_pool \<times> nat" where
  "intern heap p s =
     (let (sid, p1) = intern_id p s in
      case Option.bind (arcs p1) (\<lambda>m. map_of m sid) of
        Some a \<Rightarrow> (a, p1, heap)
      | None \<Rightarrow>
          let a = Arc heap (pool_get p1 sid)
          in (a, p1\<lparr>arcs := map_option (AList.update sid a) (arcs p1)\<rparr>, Suc heap))"

definition lookup_arc :: "nat \<Rightarrow> string_pool \<Rightarrow> string \<Rightarrow> arc option \<times> nat" where
  "lookup_arc heap p s =
     (case lookup_id p s of
        None \<Rightarrow> (None, heap)
      | Some sid \<Rightarrow>
          (case Option.bind (arcs p) (\<lambda>m. map_of m sid) of
             Some a \<Rightarrow> (Some a, heap)
           | None \<Rightarrow> (Some (Arc heap (pool_get p sid)), Suc heap)))"

definition unique_count :: "string_pool \<Rightarrow> nat" where
  "unique_count p = length (spans p)"

section \<open>The invariant\<close>

definition span_text :: "string \<Rightarrow> u32 \<times> u32 \<Rightarrow> string" where
  "span_text sl sp = take (unat (snd sp)) (drop (unat (fst sp)) sl)"

definition pool_strings :: "string_pool \<Rightarrow> string list" where
  "pool_strings p = map (span_text (slab p)) (spans p)"

definition spans_ok :: "string_pool \<Rightarrow> bool" where
  "spans_ok p \<longleftrightarrow>
     length (spans p) \<le> 2 ^ 32
     \<and> (\<forall>(start, len) \<in> set (spans p). unat start + unat len \<le> length (slab p))
     \<and> distinct (pool_strings p)"

definition lookup_ok :: "string_pool \<Rightarrow> bool" where
  "lookup_ok p \<longleftrightarrow>
     (case lookup p of
        Build m \<Rightarrow> map_of m = map_of (zip (pool_strings p) (map of_nat [0..<length (spans p)]))
      | Sealed v \<Rightarrow> lookup (rebuild_sealed_lookup p) = Sealed v)"

definition pool_inv :: "string_pool \<Rightarrow> bool" where
  "pool_inv p \<longleftrightarrow> spans_ok p \<and> lookup_ok p"

definition pool_fits :: "string_pool \<Rightarrow> string \<Rightarrow> bool" where
  "pool_fits p s \<longleftrightarrow>
     s \<in> set (pool_strings p) \<or>
     (length (spans p) < 2 ^ 32 \<and> length (slab p) < 2 ^ 32 \<and> length s < 2 ^ 32)"

section \<open>Reading the pool\<close>

lemma pool_get_strings:
  assumes "spans_ok p" "unat i < length (spans p)"
  shows "pool_get p i = pool_strings p ! unat i"
proof -
  obtain st ln where sp: "spans p ! unat i = (st, ln)" by force
  with assms have "unat st + unat ln \<le> length (slab p)"
    unfolding spans_ok_def by (metis (no_types, lifting) case_prodD nth_mem)
  with assms(2) sp show ?thesis
    by (simp add: pool_get_def pool_strings_def span_text_def)
qed

lemma length_pool_strings [simp]: "length (pool_strings p) = length (spans p)"
  by (simp add: pool_strings_def)

definition pool_index :: "string_pool \<Rightarrow> string \<Rightarrow> u32 option" where
  "pool_index p = map_of (zip (pool_strings p) (map of_nat [0..<length (spans p)]))"

lemma pool_index_Some:
  assumes "spans_ok p"
  shows "pool_index p s = Some i \<longleftrightarrow> unat i < length (spans p) \<and> pool_strings p ! unat i = s"
proof -
  have d: "distinct (map fst (zip (pool_strings p) (map of_nat [0..<length (spans p)] :: u32 list)))"
    using assms by (simp add: spans_ok_def)
  have "pool_index p s = Some i \<longleftrightarrow>
      (\<exists>n < length (spans p). pool_strings p ! n = s \<and> of_nat n = i)"
    unfolding pool_index_def by (auto simp: map_of_eq_Some_iff [OF d] in_set_zip)
  also have "\<dots> \<longleftrightarrow> unat i < length (spans p) \<and> pool_strings p ! unat i = s"
  proof
    assume "\<exists>n < length (spans p). pool_strings p ! n = s \<and> of_nat n = i"
    then obtain n where n: "n < length (spans p)" "pool_strings p ! n = s" "of_nat n = i" by blast
    moreover have "n < 2 ^ 32"
      using n(1) assms by (simp add: spans_ok_def)
    ultimately show "unat i < length (spans p) \<and> pool_strings p ! unat i = s"
      by auto
  qed (auto intro!: exI [of _ "unat i"])
  finally show ?thesis .
qed

lemma pool_index_None: "pool_index p s = None \<longleftrightarrow> s \<notin> set (pool_strings p)"
proof -
  have "fst ` set (zip (pool_strings p) (map of_nat [0..<length (spans p)] :: u32 list)) =
      set (pool_strings p)"
    by (metis length_map length_pool_strings map_fst_zip map_nth set_map)
  then show ?thesis
    by (simp add: pool_index_def map_of_eq_None_iff)
qed

lemma scan_sealed_find:
  "sorted (map fst v) \<Longrightarrow>
    scan_sealed p h s (dropWhile (\<lambda>(hv, _). hv < h) v) =
      map_option snd (find (\<lambda>(hv, sid). hv = h \<and> pool_get p sid = s) v)"
proof (induction v)
  case (Cons x v)
  obtain hv sid where x: "x = (hv, sid)" by force
  have ge: "\<forall>y \<in> set v. hv \<le> fst y"
    using Cons.prems x by auto
  consider "hv < h" | "hv = h" | "hv > h" by force
  then show ?case
  proof cases
    case 1
    with Cons x show ?thesis by auto
  next
    case 2
    with ge have "dropWhile (\<lambda>(hv, _). hv < h) v = v"
      by (cases v) (auto simp: not_less)
    with Cons x 2 show ?thesis by auto
  next
    case 3
    with ge have "find (\<lambda>(hv, sid). hv = h \<and> pool_get p sid = s) v = None"
      by (auto simp: find_None_iff)
    with Cons x 3 show ?thesis by auto
  qed
qed simp

lemma sorted_fst: "sorted (v :: ('a::linorder \<times> 'b::linorder) list) \<Longrightarrow> sorted (map fst v)"
  by (induction v) (auto simp: less_eq_prod_def)

lemma find_Some_unique:
  assumes "\<And>x y. x \<in> set v \<Longrightarrow> y \<in> set v \<Longrightarrow> P x \<Longrightarrow> P y \<Longrightarrow> x = y"
  shows "find P v = Some x \<longleftrightarrow> x \<in> set v \<and> P x"
  using assms by (induction v) auto

text \<open>The sealed search finds exactly the strings of the pool, each with its own id.\<close>

lemma sealed_lookup_index:
  assumes ok: "spans_ok p"
    and v: "v = sort (map (\<lambda>n. (fnv1a64 (pool_get p (of_nat n)), of_nat n)) [0..<length (spans p)])"
  shows "scan_sealed p (fnv1a64 s) s (dropWhile (\<lambda>(hv, _). hv < fnv1a64 s) v) = pool_index p s"
proof -
  have mem: "(hv, sid) \<in> set v \<longleftrightarrow> unat sid < length (spans p) \<and> hv = fnv1a64 (pool_get p sid)"
    for hv sid
  proof -
    have "length (spans p) \<le> 2 ^ 32"
      using ok by (simp add: spans_ok_def)
    then have "(\<exists>n < length (spans p). sid = of_nat n) \<longleftrightarrow> unat sid < length (spans p)"
      by (auto simp: unat_of_nat intro!: exI [of _ "unat sid"])
    then show ?thesis
      by (auto simp: v image_iff)
  qed
  let ?P = "\<lambda>(hv, sid). hv = fnv1a64 s \<and> pool_get p sid = s"
  have hit: "(hv, sid) \<in> set v \<and> ?P (hv, sid) \<longleftrightarrow> hv = fnv1a64 s \<and> pool_index p s = Some sid"
    for hv sid
    using mem [of hv sid] pool_get_strings [OF ok, of sid] by (auto simp: pool_index_Some [OF ok])
  have "find ?P v = Some x \<longleftrightarrow> x \<in> set v \<and> ?P x" for x
    using hit by (intro find_Some_unique) (metis option.inject prod.collapse)
  then have "map_option snd (find ?P v) = Some sid \<longleftrightarrow> pool_index p s = Some sid" for sid
    using hit by (cases "find ?P v") (force+)
  then have "map_option snd (find ?P v) = pool_index p s"
    by (metis not_None_eq)
  moreover have "sorted (map fst v)"
    unfolding v by (intro sorted_fst) simp
  ultimately show ?thesis
    by (simp add: scan_sealed_find)
qed

lemma lookup_id_index:
  assumes "pool_inv p"
  shows "lookup_id p s = pool_index p s"
proof (cases "lookup p")
  case (Build m)
  with assms show ?thesis
    by (simp add: lookup_id_def pool_inv_def lookup_ok_def pool_index_def)
next
  case (Sealed v)
  with assms have v: "v = sort (map (\<lambda>n. (fnv1a64 (pool_get p (of_nat n)), of_nat n)) [0..<length (spans p)])"
    by (simp add: pool_inv_def lookup_ok_def rebuild_sealed_lookup_def)
  have "drop (partition_point Q v) v = dropWhile Q v" for Q
    by (simp add: partition_point_def dropWhile_eq_drop)
  with Sealed sealed_lookup_index [OF _ v, of s] assms show ?thesis
    by (simp add: lookup_id_def Let_def pool_inv_def)
qed

section \<open>Interning and sealing\<close>

lemma pool_get_lookup_frame [frame_simps]: "pool_get (p\<lparr>lookup := l\<rparr>) = pool_get p"
  by (rule ext) (simp add: pool_get_def Let_def split: prod.splits)

lemma rebuild_frame [frame_simps]:
  "slab (rebuild_sealed_lookup p) = slab p" "spans (rebuild_sealed_lookup p) = spans p"
  "arcs (rebuild_sealed_lookup p) = arcs p"
  "pool_strings (rebuild_sealed_lookup p) = pool_strings p"
  "pool_get (rebuild_sealed_lookup p) = pool_get p"
  "pool_index (rebuild_sealed_lookup p) = pool_index p"
  by (simp_all add: rebuild_sealed_lookup_def pool_strings_def pool_index_def pool_get_lookup_frame)

lemma rebuild_inv: "spans_ok p \<Longrightarrow> pool_inv (rebuild_sealed_lookup p)"
  by (simp add: pool_inv_def spans_ok_def lookup_ok_def pool_strings_def
      rebuild_sealed_lookup_def pool_get_lookup_frame)

lemma seal_inv [intro]: "pool_inv p \<Longrightarrow> pool_inv (seal p)"
  by (auto simp: seal_def pool_inv_def rebuild_inv split: pool_lookup.splits
      dest: rebuild_inv [unfolded pool_inv_def])

lemma seal_frame [frame_simps]:
  "slab (seal p) = slab p" "spans (seal p) = spans p" "arcs (seal p) = arcs p"
  "pool_strings (seal p) = pool_strings p" "pool_get (seal p) = pool_get p"
  "pool_index (seal p) = pool_index p"
  by (auto simp: seal_def frame_simps split: pool_lookup.splits)

lemma pool_new_inv [intro]: "pool_inv pool_new"
  by (simp add: pool_inv_def spans_ok_def lookup_ok_def pool_strings_def pool_new_def span_text_def)

text \<open>A string that is not in the pool yet is appended to the slab under the next id.\<close>

definition pool_extend :: "string_pool \<Rightarrow> string \<Rightarrow> string_pool" where
  "pool_extend p s =
     p\<lparr>slab := slab p @ s,
       spans := spans p @ [(of_nat (length (slab p)), of_nat (length s))]\<rparr>"

lemma pool_strings_extend:
  assumes "spans_ok p" "length (slab p) < 2 ^ 32" "length s < 2 ^ 32"
  shows "pool_strings (pool_extend p s) = pool_strings p @ [s]"
proof -
  have "span_text (slab p @ s) sp = span_text (slab p) sp" if "sp \<in> set (spans p)" for sp
  proof -
    have "unat (fst sp) + unat (snd sp) \<le> length (slab p)"
      using that assms(1) by (auto simp: spans_ok_def)
    then show ?thesis by (simp add: span_text_def)
  qed
  with assms(2,3) show ?thesis
    by (simp add: pool_strings_def pool_extend_def span_text_def)
qed

lemma spans_ok_extend:
  assumes "spans_ok p" "length (spans p) < 2 ^ 32" "length (slab p) < 2 ^ 32" "length s < 2 ^ 32"
    and "s \<notin> set (pool_strings p)"
  shows "spans_ok (pool_extend p s)"
proof -
  have "distinct (pool_strings (pool_extend p s))"
    using assms pool_strings_extend [of p s] by (simp add: spans_ok_def)
  with assms show ?thesis
    by (fastforce simp: spans_ok_def pool_extend_def)
qed

lemma map_add_upd_left_None: "m s = None \<Longrightarrow> [s \<mapsto> n] ++ m = m(s \<mapsto> n)"
  by (rule ext) (simp add: map_add_def split: option.splits)

lemma pool_index_extend:
  assumes "spans_ok p" "length (slab p) < 2 ^ 32" "length s < 2 ^ 32"
    and "s \<notin> set (pool_strings p)"
  shows "pool_index (pool_extend p s) = (pool_index p)(s \<mapsto> of_nat (length (spans p)))"
proof -
  let ?n = "length (spans p)"
  have z: "zip (pool_strings p @ [s]) (map of_nat [0..<Suc ?n] :: u32 list) =
      zip (pool_strings p) (map of_nat [0..<?n]) @ [(s, of_nat ?n)]"
    by (simp add: zip_append)
  have "map_of (zip (pool_strings p) (map of_nat [0..<?n] :: u32 list)) s = None"
    using assms(4) by (simp add: pool_index_None flip: pool_index_def)
  then have "map_of (zip (pool_strings p @ [s]) (map of_nat [0..<Suc ?n] :: u32 list)) =
      (map_of (zip (pool_strings p) (map of_nat [0..<?n])))(s \<mapsto> of_nat ?n)"
    unfolding z map_of_append by (simp add: map_add_upd_left_None)
  then show ?thesis
    unfolding pool_index_def pool_strings_extend [OF assms(1-3)] by (simp add: pool_extend_def)
qed

lemma pool_index_known: "spans_ok p \<Longrightarrow> s \<in> set (pool_strings p) \<Longrightarrow> \<exists>i. pool_index p s = Some i"
  using pool_index_None [of p s] by auto

lemma intern_id_known: "pool_inv p \<Longrightarrow> pool_index p s = Some i \<Longrightarrow> intern_id p s = (i, p)"
  by (simp add: intern_id_def lookup_id_index)

lemma intern_id_new:
  assumes inv: "pool_inv p" and new: "pool_index p s = None" and fits: "pool_fits p s"
    and res: "intern_id p s = (i, q)"
  shows "i = of_nat (length (spans p)) \<and> pool_inv q
    \<and> pool_index q = (pool_index p)(s \<mapsto> i) \<and> pool_strings q = pool_strings p @ [s]
    \<and> slab q = slab p @ s \<and> arcs q = arcs p"
proof -
  let ?e = "pool_extend p s"
  have ok: "spans_ok p" and s: "s \<notin> set (pool_strings p)"
    using inv new by (simp_all add: pool_inv_def pool_index_None)
  have cap: "length (spans p) < 2 ^ 32" "length (slab p) < 2 ^ 32" "length s < 2 ^ 32"
    using fits s by (auto simp: pool_fits_def)
  have eok: "spans_ok ?e"
    using spans_ok_extend [OF ok cap s] .
  have idx: "pool_index ?e = (pool_index p)(s \<mapsto> of_nat (length (spans p)))"
    using pool_index_extend [OF ok cap(2,3) s] .
  have str: "pool_strings ?e = pool_strings p @ [s]"
    using pool_strings_extend [OF ok cap(2,3)] .
  have frame: "slab ?e = slab p @ s" "arcs ?e = arcs p"
    by (simp_all add: pool_extend_def)
  have none: "lookup_id p s = None"
    using new by (simp add: lookup_id_index [OF inv])
  show ?thesis
  proof (cases "lookup p")
    case (Build m)
    define b where "b = ?e\<lparr>lookup := Build (AList.update s (of_nat (length (spans p))) m)\<rparr>"
    have q: "i = of_nat (length (spans p))" "q = b"
      using res none Build by (auto simp: intern_id_def Let_def pool_extend_def b_def)
    have b_frame: "pool_strings b = pool_strings ?e" "pool_index b = pool_index ?e"
        "slab b = slab ?e" "arcs b = arcs ?e" "spans b = spans ?e"
      by (simp_all add: b_def pool_strings_def pool_index_def)
    have "map_of m = pool_index p"
      using inv Build by (simp add: pool_inv_def lookup_ok_def pool_index_def)
    then have "lookup_ok b"
      using idx b_frame(2) by (simp add: b_def lookup_ok_def pool_index_def update_conv')
    moreover have "spans_ok b"
      using eok b_frame by (simp add: spans_ok_def)
    ultimately show ?thesis
      using q idx str frame b_frame by (simp add: pool_inv_def)
  next
    case (Sealed v)
    have q: "i = of_nat (length (spans p))" "q = rebuild_sealed_lookup ?e"
      using res none Sealed by (auto simp: intern_id_def Let_def pool_extend_def)
    with rebuild_inv [OF eok] idx str frame show ?thesis
      by (simp add: frame_simps)
  qed
qed

interpretation pool: interner pool_get lookup_id "\<lambda>p s. Some (intern_id p s)" pool_inv pool_fits
proof unfold_locales
  fix p s i q
  assume inv: "pool_inv p"
  note idx = lookup_id_index [OF inv]
  have ok: "spans_ok p" using inv by (simp add: pool_inv_def)
  show "lookup_id p s = Some i \<Longrightarrow> pool_get p i = s"
    by (auto simp: idx pool_index_Some [OF ok] pool_get_strings [OF ok])
  show "lookup_id p s = Some i \<Longrightarrow> Some (intern_id p s) = Some (i, p)"
    by (simp add: idx intern_id_known [OF inv])
  assume fits: "pool_fits p s"
  show "\<exists>i q. Some (intern_id p s) = Some (i, q)"
    by (cases "intern_id p s") simp
  assume "Some (intern_id p s) = Some (i, q)"
  then have res: "intern_id p s = (i, q)" by simp
  have "pool_inv q \<and> pool_index q = (pool_index p)(s \<mapsto> i)"
  proof (cases "pool_index p s")
    case None
    with intern_id_new [OF inv None fits res] show ?thesis by simp
  next
    case (Some j)
    with intern_id_known [OF inv Some] res have "j = i" "q = p" by simp_all
    with inv Some show ?thesis by (auto simp: fun_upd_idem)
  qed
  then show "lookup_id q = (lookup_id p)(s \<mapsto> i)" "pool_inv q"
    by (auto simp: fun_eq_iff idx lookup_id_index)
qed

text \<open>The loop form: interning a list of strings from left to right.\<close>

fun intern_ids :: "string_pool \<Rightarrow> string list \<Rightarrow> u32 list \<times> string_pool" where
  "intern_ids p [] = ([], p)"
| "intern_ids p (s # ss) =
     (let (i, p1) = intern_id p s; (js, p2) = intern_ids p1 ss in (i # js, p2))"

text \<open>Room for \<open>n\<close> more strings of \<open>b\<close> bytes in all.\<close>

definition pool_room :: "string_pool \<Rightarrow> nat \<Rightarrow> nat \<Rightarrow> bool" where
  "pool_room p n b \<longleftrightarrow> length (spans p) + n \<le> 2 ^ 32 \<and> length (slab p) + b < 2 ^ 32"

lemma pool_room_fits: "pool_room p n b \<Longrightarrow> 0 < n \<Longrightarrow> length s \<le> b \<Longrightarrow> pool_fits p s"
  by (auto simp: pool_room_def pool_fits_def)

lemma pool_room_intern:
  assumes "pool_inv p" "pool_room p (Suc n) (length s + b)" "intern_id p s = (i, q)"
  shows "pool_room q n b \<and> pool_inv q"
proof -
  have fits: "pool_fits p s"
    using assms(2) by (rule pool_room_fits) auto
  have inv: "pool_inv q"
    using pool.intern_invar [OF assms(1) fits] assms(3) by simp
  show ?thesis
  proof (cases "pool_index p s")
    case None
    note new = intern_id_new [OF assms(1) None fits assms(3)]
    then have "length (spans q) = Suc (length (spans p))"
      by (metis length_append_singleton length_pool_strings)
    with new assms(2) inv show ?thesis by (simp add: pool_room_def)
  next
    case (Some j)
    with intern_id_known [OF assms(1) Some] assms inv show ?thesis by (simp add: pool_room_def)
  qed
qed

lemma pool_room_mono: "pool_room p n b \<Longrightarrow> m \<le> n \<Longrightarrow> c \<le> b \<Longrightarrow> pool_room p m c"
  by (auto simp: pool_room_def)

lemma intern_ids_ok:
  assumes "pool_inv p" "pool_room p (length ss + n) (sum_list (map length ss) + b)"
    and "intern_ids p ss = (is, q)"
  shows "pool_inv q \<and> pool_room q n b \<and> length is = length ss
    \<and> (\<forall>k < length ss. lookup_id q (ss ! k) = Some (is ! k))
    \<and> (\<forall>t j. lookup_id p t = Some j \<longrightarrow> lookup_id q t = Some j)"
  using assms
proof (induction ss arbitrary: p "is")
  case Nil
  then show ?case by simp
next
  case (Cons s ss)
  obtain i p1 where i: "intern_id p s = (i, p1)" by force
  obtain js q' where js: "intern_ids p1 ss = (js, q')" by force
  with Cons.prems(3) i have eq: "is = i # js" "q' = q" by simp_all
  have fits: "pool_fits p s"
    using Cons.prems(2) by (rule pool_room_fits) auto
  have r1: "pool_room p1 (length ss + n) (sum_list (map length ss) + b) \<and> pool_inv p1"
    using Cons.prems(1,2) i by (intro pool_room_intern) (simp_all add: add.assoc)
  note IH = Cons.IH [OF conjunct2 [OF r1] conjunct1 [OF r1] js [unfolded eq(2)]]
  have keep: "lookup_id p1 t = Some j" if "lookup_id p t = Some j" for t j
    using pool.intern_keeps [OF Cons.prems(1) fits _ that] i by simp
  have "lookup_id p1 s = Some i"
    using pool.intern_find [OF Cons.prems(1) fits] i by simp
  with IH keep eq show ?case
    by (auto simp: nth_Cons split: nat.split)
qed

lemma seal_lookup [simp]: "pool_inv p \<Longrightarrow> lookup_id (seal p) s = lookup_id p s"
  by (simp add: lookup_id_index seal_inv frame_simps)

lemma seal_sealed [simp]: "is_sealed_slab (seal p)"
  by (auto simp: is_sealed_slab_def seal_def rebuild_sealed_lookup_def split: pool_lookup.splits)

lemma seal_seal [simp]: "seal (seal p) = seal p"
  by (auto simp: seal_def rebuild_sealed_lookup_def split: pool_lookup.splits)

text \<open>The identity cache: every cached \<open>Arc\<close> belongs to an id of the pool and holds its text.\<close>

definition arcs_ok :: "string_pool \<Rightarrow> bool" where
  "arcs_ok p \<longleftrightarrow>
     (\<forall>m i a. arcs p = Some m \<longrightarrow> map_of m i = Some a \<longrightarrow>
        unat i < length (spans p) \<and> arc_text a = pool_get p i)"

lemma pool_arcs_frame [frame_simps]:
  "pool_get (p\<lparr>arcs := x\<rparr>) = pool_get p" "pool_index (p\<lparr>arcs := x\<rparr>) = pool_index p"
  "pool_inv (p\<lparr>arcs := x\<rparr>) = pool_inv p"
proof -
  show g: "pool_get (p\<lparr>arcs := x\<rparr>) = pool_get p"
    by (rule ext) (simp add: pool_get_def Let_def split: prod.splits)
  show "pool_index (p\<lparr>arcs := x\<rparr>) = pool_index p"
    by (simp add: pool_index_def pool_strings_def)
  show "pool_inv (p\<lparr>arcs := x\<rparr>) = pool_inv p"
    by (simp add: pool_inv_def spans_ok_def lookup_ok_def pool_strings_def
        rebuild_sealed_lookup_def g split: pool_lookup.splits)
qed

lemma lookup_id_arcs [frame_simps]: "pool_inv p \<Longrightarrow> lookup_id (p\<lparr>arcs := x\<rparr>) s = lookup_id p s"
  by (simp add: lookup_id_index frame_simps)

text \<open>A cached \<open>Arc\<close> survives interning another string.\<close>

lemma intern_id_arcs:
  assumes "pool_inv p" "pool_fits p s" "intern_id p s = (i, q)"
  shows "arcs q = arcs p" "unat j < length (spans p) \<Longrightarrow> unat j < length (spans q) \<and> pool_get q j = pool_get p j"
proof -
  show "arcs q = arcs p"
  proof (cases "pool_index p s")
    case None
    then show ?thesis using intern_id_new [OF assms(1) None assms(2,3)] by simp
  next
    case (Some k)
    then show ?thesis using assms by (simp add: intern_id_known)
  qed
  assume j: "unat j < length (spans p)"
  show "unat j < length (spans q) \<and> pool_get q j = pool_get p j"
  proof (cases "pool_index p s")
    case None
    note new = intern_id_new [OF assms(1) None assms(2,3)]
    have ok: "spans_ok p" "spans_ok q"
      using assms(1) new by (simp_all add: pool_inv_def)
    have "length (spans q) = Suc (length (spans p))"
      using new by (metis length_append_singleton length_pool_strings)
    with new j show ?thesis
      by (simp add: pool_get_strings [OF ok(1)] pool_get_strings [OF ok(2)] nth_append)
  next
    case (Some k)
    with assms j show ?thesis by (simp add: intern_id_known)
  qed
qed

section \<open>Properties\<close>

text \<open>C32: Sealing the pool replaces the hash map by a sorted hash vector; hash collisions
  included, every string is found under the same id as before and every id reads back the same
  string, and a second seal changes nothing.\<close>

theorem seal_preserves_lookups:
  assumes "pool_inv p"
  shows "lookup_id (seal p) s = lookup_id p s \<and> pool_get (seal p) i = pool_get p i
    \<and> is_sealed_slab (seal p) \<and> seal (seal p) = seal p"
  using assms by (simp add: frame_simps)

theorem seal_preserves_lookups_witness:
  "pool_inv pool_new \<and> lookup_id (seal pool_new) ''a'' = lookup_id pool_new ''a''"
  using seal_preserves_lookups [OF pool_new_inv, of "''a''"] pool_new_inv by simp

text \<open>C33: Interning a list of strings into a fresh pool and sealing it: every returned id reads
  back its string and is found again by lookup, and two positions get the same id exactly when
  they hold the same string (one slab entry per distinct string), as long as the strings stay
  below \<open>2 ^ 32\<close> in number and in total bytes.\<close>

theorem intern_roundtrip:
  assumes "length ss < 2 ^ 32" "sum_list (map length ss) < 2 ^ 32"
    and "intern_ids pool_new ss = (is, q)"
  shows "map (pool_get (seal q)) is = ss
    \<and> (\<forall>k < length ss. lookup_id (seal q) (ss ! k) = Some (is ! k))
    \<and> (\<forall>k < length ss. \<forall>l < length ss. is ! k = is ! l \<longleftrightarrow> ss ! k = ss ! l)"
proof -
  have "pool_room pool_new (length ss + 0) (sum_list (map length ss) + 0)"
    using assms by (simp add: pool_room_def pool_new_def)
  note ok = intern_ids_ok [OF pool_new_inv this assms(3)]
  then have inv: "pool_inv q" and len: "length is = length ss"
    and fnd: "\<And>k. k < length ss \<Longrightarrow> lookup_id q (ss ! k) = Some (is ! k)"
    by blast+
  have get: "pool_get q (is ! k) = ss ! k" if "k < length ss" for k
    using pool.find_get [OF inv fnd [OF that]] .
  have "map (pool_get q) is = ss"
    using get len by (intro nth_equalityI) auto
  moreover have "is ! k = is ! l \<longleftrightarrow> ss ! k = ss ! l" if "k < length ss" "l < length ss" for k l
    using get [OF that(1)] get [OF that(2)] fnd [OF that(1)] fnd [OF that(2)] by auto
  ultimately show ?thesis
    using inv fnd by (simp add: frame_simps)
qed

theorem intern_roundtrip_witness:
  "intern_ids pool_new [''a'', ''b'', ''a''] = ([1, 2, 1], snd (intern_ids pool_new [''a'', ''b'', ''a'']))
   \<and> map (pool_get (seal (snd (intern_ids pool_new [''a'', ''b'', ''a''])))) [1, 2, 1] = [''a'', ''b'', ''a'']"
proof -
  have r: "intern_ids pool_new [''a'', ''b'', ''a''] = ([1, 2, 1], snd (intern_ids pool_new [''a'', ''b'', ''a'']))"
    by code_simp
  show ?thesis
    using intern_roundtrip [OF _ _ r] r by simp
qed

text \<open>The \<open>Arc\<close> handed out by \<open>intern\<close> carries the interned text, the identity cache stays
  consistent, and the same allocation is handed out again by a second \<open>intern\<close> of the string and,
  after sealing, by \<open>lookup_arc\<close>: the identity the ZIP and 7z sidecars compare with
  \<open>Arc::ptr_eq\<close>.\<close>

theorem intern_arc_identity:
  assumes inv: "pool_inv p" and ok: "arcs_ok p" and arcs: "arcs p \<noteq> None" and fits: "pool_fits p s"
    and res: "intern heap p s = (a, q, heap')"
  shows "pool_inv q \<and> arcs_ok q \<and> arc_text a = s
    \<and> lookup_arc heap' (seal q) s = (Some a, heap') \<and> intern heap' q s = (a, q, heap')"
proof -
  obtain m where m: "arcs p = Some m" using arcs by blast
  obtain i p1 where i: "intern_id p s = (i, p1)" by force
  have inv1: "pool_inv p1" and fnd: "lookup_id p1 s = Some i" and get: "pool_get p1 i = s"
    using pool.intern_invar [OF inv fits] pool.intern_find [OF inv fits]
      pool.get_intern [OF inv fits] i by auto
  have i1: "unat i < length (spans p1)"
    using fnd inv1 by (simp add: lookup_id_index pool_index_Some pool_inv_def)
  note keep = intern_id_arcs [OF inv fits i]
  have m1: "arcs p1 = Some m" using keep(1) m by simp
  have ok1: "unat j < length (spans p1) \<and> arc_text b = pool_get p1 j" if "map_of m j = Some b" for j b
    using ok m that keep(2) [of j] by (auto simp: arcs_ok_def)
  show ?thesis
  proof (cases "map_of m i")
    case None
    have q: "a = Arc heap s" "q = p1\<lparr>arcs := Some (AList.update i a m)\<rparr>" "heap' = Suc heap"
      using res i None m1 get by (auto simp: intern_def Let_def)
    have "arcs_ok q"
      using q ok1 i1 get by (auto simp: arcs_ok_def frame_simps update_conv' split: if_splits)
    with q inv1 fnd show ?thesis
      by (auto simp: lookup_arc_def intern_def intern_id_def frame_simps update_conv')
  next
    case (Some b)
    have q: "a = b" "q = p1" "heap' = heap"
      using res i Some m1 by (auto simp: intern_def)
    have "arcs_ok q" and "arc_text a = s"
      using q ok1 m1 Some get by (auto simp: arcs_ok_def)
    with q Some inv1 fnd m1 show ?thesis
      by (auto simp: lookup_arc_def intern_def intern_id_def frame_simps)
  qed
qed

theorem intern_arc_identity_witness:
  "lookup_arc 8 (seal (fst (snd (intern 7 pool_new ''x'')))) ''x'' = (Some (Arc 7 ''x''), 8)"
proof -
  have r: "intern 7 pool_new ''x'' = (Arc 7 ''x'', fst (snd (intern 7 pool_new ''x'')), 8)"
    by code_simp
  have h: "arcs_ok pool_new" "arcs pool_new \<noteq> None" "pool_fits pool_new ''x''"
    by (simp_all add: arcs_ok_def pool_new_def pool_fits_def)
  show ?thesis
    using intern_arc_identity [OF pool_new_inv h r] by simp
qed

end
