(* ===== verification/Path_Table.thy ===== *)
theory Path_Table
  imports String_Pool
begin

text \<open>
  The directory table of the compact index (\<open>PathTable\<close> in \<open>ratarmount-index/src/mem.rs\<close>): every
  distinct directory string gets a \<open>u32\<close> path id, and its segments are stored as string-pool ids
  in one compressed-sparse-row array (\<open>offsets\<close> into \<open>seg_ids\<close>). The invariant \<open>pt_inv\<close> ties the
  table to the pool and is kept by \<open>intern_dir\<close>.
\<close>

section \<open>Definitions\<close>

record path_table =
  offsets :: "u32 list"
  seg_ids :: "u32 list"
  by_flat :: "(string \<times> u32) list"

definition pt_new :: path_table where
  "pt_new = \<lparr>offsets = [0, 0], seg_ids = [], by_flat = [('''', 0)]\<rparr>"

definition dir_parts :: "string \<Rightarrow> string list" where
  "dir_parts dir =
     (if dir = [] then []
      else let d = trim_start_matches CHR ''/'' dir in
        if d = [] then [] else filter (\<lambda>part. part \<noteq> []) (split_on CHR ''/'' d))"

definition intern_dir :: "path_table \<Rightarrow> string_pool \<Rightarrow> string \<Rightarrow> u32 \<times> path_table \<times> string_pool" where
  "intern_dir pt pool dir =
     (case map_of (by_flat pt) dir of
        Some i \<Rightarrow> (i, pt, pool)
      | None \<Rightarrow>
          let (new_ids, pool') = intern_ids pool (dir_parts dir);
              segs' = seg_ids pt @ new_ids;
              i = of_nat (length (offsets pt) - 1)
          in (i,
              pt\<lparr>seg_ids := segs', offsets := offsets pt @ [of_nat (length segs')],
                 by_flat := AList.update dir i (by_flat pt)\<rparr>,
              pool'))"

definition path_count :: "path_table \<Rightarrow> nat" where
  "path_count pt = length (offsets pt) - 1"

definition is_csr :: "path_table \<Rightarrow> bool" where
  "is_csr pt \<longleftrightarrow>
     length (offsets pt) = path_count pt + 1
     \<and> (case offsets pt of [] \<Rightarrow> False | x # _ \<Rightarrow> x = 0)
     \<and> (offsets pt \<noteq> [] \<and> last (offsets pt) = of_nat (length (seg_ids pt)))
     \<and> list_all (\<lambda>(a, b). a \<le> b) (zip (offsets pt) (tl (offsets pt)))"

definition segs :: "path_table \<Rightarrow> u32 \<Rightarrow> u32 list" where
  "segs pt path_id =
     (let i = unat path_id in
      if i + 1 \<ge> length (offsets pt) then []
      else
        let start = unat (offsets pt ! i); e = unat (offsets pt ! (i + 1))
        in if start > e \<or> e > length (seg_ids pt) then []
           else take (e - start) (drop start (seg_ids pt)))"

definition flat_string_for_export :: "path_table \<Rightarrow> string_pool \<Rightarrow> u32 \<Rightarrow> string" where
  "flat_string_for_export pt pool path_id =
     (let ss = segs pt path_id in
      if ss = [] then '''' else ''/'' @ join_with ''/'' (map (pool_get pool) ss))"

section \<open>The invariant\<close>

definition pt_inv :: "string_pool \<Rightarrow> path_table \<Rightarrow> bool" where
  "pt_inv pool pt \<longleftrightarrow>
     offsets pt \<noteq> [] \<and> hd (offsets pt) = 0
     \<and> unat (last (offsets pt)) = length (seg_ids pt)
     \<and> sorted (offsets pt)
     \<and> length (offsets pt) \<le> 2 ^ 32
     \<and> map_of (by_flat pt) '''' = Some 0
     \<and> (\<forall>d i. map_of (by_flat pt) d = Some i \<longrightarrow>
          unat i < path_count pt
          \<and> list_all2 (\<lambda>sid s. lookup_id pool s = Some sid) (segs pt i) (dir_parts d))
     \<and> (\<forall>d e i. map_of (by_flat pt) d = Some i \<longrightarrow> map_of (by_flat pt) e = Some i \<longrightarrow> d = e)"

definition pt_room :: "path_table \<Rightarrow> nat \<Rightarrow> nat \<Rightarrow> bool" where
  "pt_room pt n m \<longleftrightarrow> length (offsets pt) + n \<le> 2 ^ 32 \<and> length (seg_ids pt) + m < 2 ^ 32"

lemma filter_split_trim_start:
  "filter (\<lambda>p. p \<noteq> []) (split_on c (trim_start_matches c s)) = filter (\<lambda>p. p \<noteq> []) (split_on c s)"
  by (induction s) (auto simp: trim_start_matches_def)

lemma dir_parts_filter: "dir_parts dir = filter (\<lambda>part. part \<noteq> []) (split_on CHR ''/'' dir)"
  using filter_split_trim_start [of "CHR ''/''" dir]
  by (auto simp: dir_parts_def Let_def)

lemma dir_parts_length: "length (dir_parts dir) \<le> length dir"
proof -
  have "length (filter (\<lambda>p. p \<noteq> []) (split_on c s)) \<le> length s" for c :: char and s
  proof (induction s)
    case (Cons x s)
    obtain w ws where w: "split_on c s = w # ws" by (cases "split_on c s") auto
    with Cons show ?case by (cases "w = []") auto
  qed simp
  then show ?thesis by (simp add: dir_parts_filter)
qed

lemma dir_parts_bytes: "sum_list (map length (dir_parts dir)) \<le> length dir"
proof -
  have "sum_list (map length (filter (\<lambda>p. p \<noteq> []) (split_on c s))) \<le> length s" for c :: char and s
  proof (induction s)
    case (Cons x s)
    obtain w ws where w: "split_on c s = w # ws" by (cases "split_on c s") auto
    with Cons show ?case by (cases "w = []") auto
  qed simp
  then show ?thesis by (simp add: dir_parts_filter)
qed

lemma pt_invD:
  assumes "pt_inv pool pt"
  shows "offsets pt \<noteq> []" "hd (offsets pt) = 0" "unat (last (offsets pt)) = length (seg_ids pt)"
    "sorted (offsets pt)" "length (offsets pt) \<le> 2 ^ 32" "map_of (by_flat pt) '''' = Some 0"
    "map_of (by_flat pt) d = Some i \<Longrightarrow> unat i < path_count pt"
    "map_of (by_flat pt) d = Some i \<Longrightarrow>
      list_all2 (\<lambda>sid s. lookup_id pool s = Some sid) (segs pt i) (dir_parts d)"
    "map_of (by_flat pt) d = Some i \<Longrightarrow> map_of (by_flat pt) e = Some i \<Longrightarrow> d = e"
  using assms unfolding pt_inv_def by blast+

lemma pt_new_inv [simp, intro]: "pt_inv pool pt_new"
  by (auto simp: pt_inv_def pt_new_def path_count_def segs_def dir_parts_def split: if_splits)

text \<open>Growing the pool keeps the table's invariant.\<close>

lemma pt_inv_pool_mono:
  assumes "pt_inv pool pt" "\<forall>s i. lookup_id pool s = Some i \<longrightarrow> lookup_id pool' s = Some i"
  shows "pt_inv pool' pt"
proof -
  have "list_all2 (\<lambda>sid s. lookup_id pool' s = Some sid) xs ys"
    if "list_all2 (\<lambda>sid s. lookup_id pool s = Some sid) xs ys" for xs ys
    using that assms(2) by (auto elim!: list.rel_mono_strong)
  with assms(1) show ?thesis by (auto simp: pt_inv_def)
qed

text \<open>Appending a directory at the end of the table leaves the earlier rows alone.\<close>

lemma sorted_hd_last: "sorted xs \<Longrightarrow> x \<in> set xs \<Longrightarrow> x \<le> last xs"
  by (induction xs rule: rev_induct) (auto simp: sorted_append)

lemma segs_append_old:
  assumes "pt_inv pool pt" "unat i < path_count pt"
  shows "segs (pt\<lparr>seg_ids := seg_ids pt @ new, offsets := offsets pt @ [o'], by_flat := bf\<rparr>) i = segs pt i"
proof -
  have len: "unat i + 1 < length (offsets pt)"
    using assms(2) by (simp add: path_count_def)
  have "offsets pt ! (unat i + 1) \<le> last (offsets pt)"
    using assms(1) len by (intro sorted_hd_last) (auto simp: pt_inv_def)
  then have "unat (offsets pt ! (unat i + 1)) \<le> length (seg_ids pt)"
    using assms(1) by (auto simp: pt_inv_def word_le_nat_alt)
  with len show ?thesis
    by (auto simp: segs_def Let_def nth_append)
qed

lemma segs_append_new:
  assumes inv: "pt_inv pool pt" and room: "pt_room pt 1 (length new)"
    and o': "unat o' = length (seg_ids pt) + length new"
  shows "segs (pt\<lparr>seg_ids := seg_ids pt @ new, offsets := offsets pt @ [o'], by_flat := bf\<rparr>)
    (of_nat (path_count pt)) = new"
proof -
  have ne: "offsets pt \<noteq> []" and i: "unat (of_nat (path_count pt) :: u32) = path_count pt"
    using inv room by (auto simp: pt_inv_def pt_room_def path_count_def intro!: unat_of_nat_u32)
  have "(offsets pt @ [o']) ! path_count pt = last (offsets pt)"
    using ne by (simp add: path_count_def nth_append last_conv_nth)
  moreover have "(offsets pt @ [o']) ! (path_count pt + 1) = o'"
    using ne by (simp add: path_count_def nth_append)
  moreover have "unat (last (offsets pt)) = length (seg_ids pt)"
    using inv by (simp add: pt_inv_def)
  moreover have "path_count pt + 1 < length (offsets pt @ [o'])"
    using ne by (simp add: path_count_def)
  ultimately show ?thesis
    unfolding segs_def Let_def i by (simp add: o')
qed

lemma sorted_snoc_last:
  "sorted xs \<Longrightarrow> xs \<noteq> [] \<Longrightarrow> last xs \<le> (y :: 'a::linorder) \<Longrightarrow> sorted (xs @ [y])"
  using sorted_hd_last by (fastforce simp: sorted_append)

lemma intern_dir_known: "map_of (by_flat pt) dir = Some i \<Longrightarrow> intern_dir pt pool dir = (i, pt, pool)"
  by (simp add: intern_dir_def)

text \<open>A new directory: the table after \<open>intern_dir\<close> satisfies the invariant again.\<close>

lemma intern_dir_new_inv:
  assumes inv: "pt_inv pool' pt" and new: "map_of (by_flat pt) dir = None"
    and room: "pt_room pt 1 (length ids)"
    and ids: "list_all2 (\<lambda>sid s. lookup_id pool' s = Some sid) ids (dir_parts dir)"
    and i: "i = of_nat (path_count pt)"
    and pt': "pt' = pt\<lparr>seg_ids := seg_ids pt @ ids,
       offsets := offsets pt @ [of_nat (length (seg_ids pt @ ids))],
       by_flat := AList.update dir i (by_flat pt)\<rparr>"
  shows "pt_inv pool' pt'"
proof -
  let ?o = "of_nat (length (seg_ids pt @ ids)) :: u32"
  have o: "unat ?o = length (seg_ids pt) + length ids"
    using room by (simp add: pt_room_def del: of_nat_add)
  have ui: "unat i = path_count pt" and ne: "offsets pt \<noteq> []"
    using inv room i by (auto simp: pt_inv_def pt_room_def path_count_def intro!: unat_of_nat_u32)
  have pc: "path_count pt' = Suc (path_count pt)"
    using ne by (simp add: pt' path_count_def Suc_diff_Suc)
  have bf: "map_of (by_flat pt') = (map_of (by_flat pt))(dir \<mapsto> i)"
    by (simp add: pt' update_conv')
  have old: "unat j < path_count pt" if "map_of (by_flat pt) d = Some j" for d j
    using inv that by (auto simp: pt_inv_def)
  have segs_old: "segs pt' j = segs pt j" if "unat j < path_count pt" for j
    unfolding pt' using segs_append_old [OF inv that] .
  have segs_new: "segs pt' i = ids"
    unfolding pt' i using segs_append_new [OF inv room o] .
  have "sorted (offsets pt')" "length (offsets pt') \<le> 2 ^ 32" "hd (offsets pt') = 0"
    using inv ne room o sorted_snoc_last [of "offsets pt" ?o]
    by (auto simp: pt' pt_inv_def pt_room_def word_le_nat_alt)
  moreover have "unat (last (offsets pt')) = length (seg_ids pt')"
    using o by (simp add: pt')
  moreover have "map_of (by_flat pt') '''' = Some 0"
    using inv new bf by (auto simp: pt_inv_def)
  moreover have "unat j < path_count pt'
      \<and> list_all2 (\<lambda>sid s. lookup_id pool' s = Some sid) (segs pt' j) (dir_parts d)"
    if "map_of (by_flat pt') d = Some j" for d j
  proof (cases "d = dir")
    case True
    with that bf have "j = i" by simp
    with True ids segs_new ui pc show ?thesis by simp
  next
    case False
    with that bf have "map_of (by_flat pt) d = Some j" by simp
    with pt_invD(7,8) [OF inv this] segs_old [of j] pc show ?thesis by simp
  qed
  moreover have "d = e" if "map_of (by_flat pt') d = Some j" "map_of (by_flat pt') e = Some j" for d e j
  proof -
    have "j \<noteq> i" if "map_of (by_flat pt) c = Some j" for c
      using old [OF that] ui by auto
    with that inv bf show ?thesis
      by (auto simp: pt_inv_def split: if_splits)
  qed
  ultimately show ?thesis
    by (auto simp: pt_inv_def pt')
qed

lemma intern_dir_ok:
  assumes pinv: "pool_inv pool" and inv: "pt_inv pool pt"
    and proom: "pool_room pool (length dir + n) (length dir + b)"
    and room: "pt_room pt (Suc k) (length dir + m)"
    and res: "intern_dir pt pool dir = (i, pt', pool')"
  shows "pool_inv pool' \<and> pt_inv pool' pt' \<and> pool_room pool' n b \<and> pt_room pt' k m
    \<and> map_of (by_flat pt') = (map_of (by_flat pt))(dir \<mapsto> i)
    \<and> (\<forall>t j. lookup_id pool t = Some j \<longrightarrow> lookup_id pool' t = Some j)"
proof (cases "map_of (by_flat pt) dir")
  case (Some j)
  with res have "j = i" "pt' = pt" "pool' = pool"
    by (simp_all add: intern_dir_known)
  with Some pinv inv proom room show ?thesis
    by (auto simp: pool_room_def pt_room_def)
next
  case None
  obtain ids q where q: "intern_ids pool (dir_parts dir) = (ids, q)" by force
  have "pool_room pool (length (dir_parts dir) + n) (sum_list (map length (dir_parts dir)) + b)"
    using proom dir_parts_length [of dir] dir_parts_bytes [of dir] by (auto simp: pool_room_def)
  note ok = intern_ids_ok [OF pinv this q]
  have len: "length ids \<le> length dir"
    using ok dir_parts_length [of dir] by simp
  have l2: "list_all2 (\<lambda>sid s. lookup_id q s = Some sid) ids (dir_parts dir)"
    using ok by (auto simp: list_all2_conv_all_nth)
  have r1: "pt_room pt 1 (length ids)"
    using room len by (auto simp: pt_room_def)
  have i: "i = of_nat (path_count pt)" and q': "pool' = q"
    and pt': "pt' = pt\<lparr>seg_ids := seg_ids pt @ ids,
       offsets := offsets pt @ [of_nat (length (seg_ids pt @ ids))],
       by_flat := AList.update dir i (by_flat pt)\<rparr>"
    using res None q by (auto simp: intern_dir_def Let_def path_count_def)
  have "pt_inv q pt"
    using pt_inv_pool_mono [OF inv] ok by blast
  from intern_dir_new_inv [OF this None r1 l2 i pt'] ok room len show ?thesis
    by (auto simp: pt' q' update_conv' pt_room_def)
qed

lemma sorted_windows: "sorted xs \<Longrightarrow> list_all (\<lambda>(a, b). a \<le> b) (zip xs (tl xs))"
  by (induction xs rule: induct_list012) auto

lemma pt_inv_csr:
  assumes "pt_inv pool pt"
  shows "is_csr pt"
proof -
  note D = pt_invD(1-5) [OF assms]
  have "of_nat (unat (last (offsets pt))) = last (offsets pt)"
    by simp
  then have "last (offsets pt) = of_nat (length (seg_ids pt))"
    by (simp only: D(3))
  moreover have "case offsets pt of [] \<Rightarrow> False | x # _ \<Rightarrow> x = 0"
    using D(1,2) by (cases "offsets pt") auto
  ultimately show ?thesis
    using D(1) sorted_windows [OF D(4)] by (simp add: is_csr_def path_count_def)
qed

text \<open>What a path id prints back as: the segments of its directory, joined.\<close>

lemma flat_string_dir:
  assumes "pool_inv pool" "pt_inv pool pt" "map_of (by_flat pt) d = Some i"
  shows "map (pool_get pool) (segs pt i) = dir_parts d"
    and "flat_string_for_export pt pool i =
      (if dir_parts d = [] then '''' else ''/'' @ join_with ''/'' (dir_parts d))"
proof -
  have "list_all2 (\<lambda>sid s. lookup_id pool s = Some sid) (segs pt i) (dir_parts d)"
    using assms(2,3) by (auto simp: pt_inv_def)
  then show m: "map (pool_get pool) (segs pt i) = dir_parts d"
    using pool.find_get [OF assms(1)] by (induction rule: list_all2_induct) auto
  then show "flat_string_for_export pt pool i =
      (if dir_parts d = [] then '''' else ''/'' @ join_with ''/'' (dir_parts d))"
    by (auto simp: flat_string_for_export_def Let_def)
qed

end
