(* ===== verification/Paths.thy ===== *)
theory Paths
  imports Prelude
begin

text \<open>
  Path strings of the virtual tree: the normalisation functions of \<open>ratarmount-core\<close>, the
  path helpers of the union mount, of the index and of the mount-point interning module.

  The theory relates every string function to component lists: \<open>abs_path\<close> prints a list of
  components, \<open>components\<close> reads one back, and on canonical paths the two are inverse.
\<close>

section \<open>Definitions\<close>

text \<open>The loop of \<open>collapse_path\<close>: \<open>parts\<close> is the stack, \<open>..\<close> pops it (a no-op when empty).\<close>

fun collapse_parts :: "string list \<Rightarrow> string list \<Rightarrow> string list" where
  "collapse_parts parts [] = parts"
| "collapse_parts parts (p # ps) =
     (if p = '''' \<or> p = ''.'' then collapse_parts parts ps
      else if p = ''..'' then collapse_parts (butlast parts) ps
      else collapse_parts (parts @ [p]) ps)"

definition collapse_path :: "string \<Rightarrow> string" where
  "collapse_path path =
     (let parts = collapse_parts [] (split_on CHR ''/'' path)
      in if parts = [] then ''/'' else ''/'' @ join_with ''/'' parts)"

definition normpath :: "string \<Rightarrow> string" where
  "normpath path =
     (let with_slash = ''/'' @ trim_start_matches CHR ''/'' path;
          collapsed = collapse_path with_slash
      in if collapsed = [] then ''/'' else collapsed)"

definition query_normpath :: "string \<Rightarrow> string" where
  "query_normpath path =
     (let input = (if starts_with path ''../'' then path
                   else ''/'' @ trim_start_matches CHR ''/'' path);
          collapsed = collapse_path input
      in if collapsed = [] then ''/''
         else if starts_with collapsed ''/'' then collapsed
         else ''/'' @ collapsed)"

definition join_path :: "string \<Rightarrow> string \<Rightarrow> string" where
  "join_path parent name = (if parent = ''/'' then ''/'' @ name else parent @ ''/'' @ name)"

definition resolve_symlink_target :: "string \<Rightarrow> string \<Rightarrow> string" where
  "resolve_symlink_target path linkname =
     (if starts_with linkname ''/'' then normpath linkname
      else
        let parent = (if path = ''/'' then ''/''
                      else (case rsplit_once CHR ''/'' path of
                              None \<Rightarrow> ''/''
                            | Some (a, b) \<Rightarrow> (if a = [] then ''/'' else a)))
        in if parent = ''/'' then normpath (''/'' @ linkname)
           else normpath (parent @ ''/'' @ linkname))"

definition parent_at_depth :: "string \<Rightarrow> nat \<Rightarrow> string" where
  "parent_at_depth path depth =
     (if depth = 0 \<or> path = ''/'' then ''/''
      else
        let parts = split_on CHR ''/'' (trim_start_matches CHR ''/'' path);
            n = min depth (length parts - 1)
        in if parts = [] then ''/''
           else if n = 0 then ''/''
           else ''/'' @ join_with ''/'' (take n parts))"

definition path_is_self_or_descendant :: "string \<Rightarrow> string \<Rightarrow> bool" where
  "path_is_self_or_descendant path mp =
     (path = mp \<or>
      (starts_with path mp \<and> length mp < length path \<and> path ! length mp = CHR ''/''))"

definition split_path :: "string \<Rightarrow> string \<times> string" where
  "split_path path =
     (if path = ''/'' then ('''', '''')
      else (case rsplit_once CHR ''/'' path of
              Some (dir, name) \<Rightarrow> (dir, name)
            | None \<Rightarrow> ('''', path)))"

section \<open>Component lists\<close>

definition is_comp :: "string \<Rightarrow> bool" where
  "is_comp c = (c \<noteq> '''' \<and> c \<noteq> ''.'' \<and> c \<noteq> ''..'' \<and> CHR ''/'' \<notin> set c)"

definition is_comps :: "string list \<Rightarrow> bool" where
  "is_comps cs = list_all is_comp cs"

definition abs_path :: "string list \<Rightarrow> string" where
  "abs_path cs = (if cs = [] then ''/'' else ''/'' @ join_with ''/'' cs)"

definition components :: "string \<Rightarrow> string list" where
  "components path = collapse_parts [] (split_on CHR ''/'' path)"

lemma is_comps_simps [simp]:
  "is_comps []"
  "is_comps (c # cs) \<longleftrightarrow> is_comp c \<and> is_comps cs"
  "is_comps (cs @ ds) \<longleftrightarrow> is_comps cs \<and> is_comps ds"
  by (auto simp: is_comps_def)

lemma is_comps_butlast [simp, intro]: "is_comps cs \<Longrightarrow> is_comps (butlast cs)"
  by (cases cs rule: rev_cases) auto

lemma is_comps_take [simp, intro]: "is_comps cs \<Longrightarrow> is_comps (take n cs)"
  by (auto simp: is_comps_def list_all_iff dest: in_set_takeD)

lemma is_compsD: "is_comps cs \<Longrightarrow> c \<in> set cs \<Longrightarrow> is_comp c"
  by (auto simp: is_comps_def list_all_iff)

lemma collapse_parts_append:
  "collapse_parts parts (ps @ qs) = collapse_parts (collapse_parts parts ps) qs"
  by (induction ps arbitrary: parts) auto

lemma collapse_parts_id [path_simps]: "is_comps ps \<Longrightarrow> collapse_parts parts ps = parts @ ps"
  by (induction ps arbitrary: parts) (auto simp: is_comp_def)

lemma collapse_parts_comps:
  "is_comps parts \<Longrightarrow> \<forall>p \<in> set ps. CHR ''/'' \<notin> set p \<Longrightarrow> is_comps (collapse_parts parts ps)"
  by (induction ps arbitrary: parts) (auto simp: is_comp_def)

lemma components_is_comps [simp, intro]: "is_comps (components path)"
  unfolding components_def
  by (intro collapse_parts_comps) (auto dest: split_on_no_sep)

lemma components_Cons_slash [path_simps]: "components (CHR ''/'' # path) = components path"
  by (simp add: components_def)

lemma components_trim_start [path_simps]:
  "components (trim_start_matches CHR ''/'' path) = components path"
  by (induction path) (auto simp: trim_start_matches_def components_Cons_slash)

lemma collapse_path_abs: "collapse_path path = abs_path (components path)"
  by (simp add: collapse_path_def components_def abs_path_def Let_def)

lemma abs_path_neq_Nil [simp]: "abs_path cs \<noteq> []"
  by (simp add: abs_path_def)

lemma abs_path_Nil [simp]: "abs_path [] = ''/''"
  by (simp add: abs_path_def)

lemma abs_path_single [simp]: "abs_path [c] = ''/'' @ c"
  by (simp add: abs_path_def)

lemma starts_with_abs_path [simp]: "starts_with (abs_path cs) ''/''"
  by (simp add: abs_path_def)

lemma normpath_abs [path_simps]: "normpath path = abs_path (components path)"
  by (simp add: normpath_def Let_def collapse_path_abs path_simps)

lemma components_abs_path [path_simps]: "is_comps cs \<Longrightarrow> components (abs_path cs) = cs"
  by (auto simp: abs_path_def components_def split_on_join collapse_parts_id
      is_comps_def list_all_iff is_comp_def)

lemma components_normpath [path_simps]: "components (normpath path) = components path"
  by (simp add: normpath_abs components_abs_path)

lemma abs_path_inj: "is_comps cs \<Longrightarrow> is_comps ds \<Longrightarrow> abs_path cs = abs_path ds \<Longrightarrow> cs = ds"
  by (metis components_abs_path)

lemma abs_path_eq_root [simp]: "is_comps cs \<Longrightarrow> abs_path cs = ''/'' \<longleftrightarrow> cs = []"
  by (metis abs_path_Nil abs_path_inj is_comps_simps(1))

lemma abs_path_snoc:
  "abs_path (cs @ [c]) = (if cs = [] then ''/'' @ c else abs_path cs @ ''/'' @ c)"
  by (simp add: abs_path_def join_with_append)

lemma join_path_abs [path_simps]:
  "is_comps cs \<Longrightarrow> join_path (abs_path cs) c = abs_path (cs @ [c])"
  by (cases "cs = []") (simp_all add: join_path_def abs_path_snoc)

lemma components_append_slash:
  "components (p @ ''/'' @ q) = collapse_parts (components p) (split_on CHR ''/'' q)"
  by (simp add: components_def split_on_append_sep collapse_parts_append)

lemma rsplit_once_abs_path [path_simps]:
  assumes "is_comps (cs @ [c])"
  shows "rsplit_once CHR ''/'' (abs_path (cs @ [c])) =
    Some (if cs = [] then '''' else abs_path cs, c)"
  using assms by (auto simp: rsplit_once_Some abs_path_snoc is_comp_def)

section \<open>Properties of the path functions\<close>

lemma resolve_symlink_target_comps [path_simps]:
  assumes "is_comps (cs @ [c])"
  shows "components (resolve_symlink_target (abs_path (cs @ [c])) link) =
    (if starts_with link ''/'' then components link
     else collapse_parts cs (split_on CHR ''/'' link))"
proof -
  have "abs_path (cs @ [c]) \<noteq> ''/''"
    using assms by simp
  moreover have "components (''/'' @ link) = collapse_parts [] (split_on CHR ''/'' link)"
    by (simp add: components_def)
  moreover have "components (abs_path cs @ ''/'' @ link) = collapse_parts cs (split_on CHR ''/'' link)"
    using assms by (simp only: components_append_slash) (simp add: components_abs_path)
  ultimately show ?thesis
    using assms
    by (auto simp: resolve_symlink_target_def rsplit_once_abs_path components_normpath Let_def)
qed

lemma resolve_symlink_target_canonical:
  "resolve_symlink_target path link = abs_path (components (resolve_symlink_target path link))"
  by (auto simp: resolve_symlink_target_def normpath_abs components_abs_path Let_def split: option.splits)

lemma abs_path_trim: "is_comps (c # cs) \<Longrightarrow> trim_start_matches CHR ''/'' (abs_path (c # cs)) = join_with ''/'' (c # cs)"
  by (cases c; cases cs) (auto simp: abs_path_def trim_start_matches_def is_comp_def)

lemma parent_at_depth_abs [path_simps]:
  assumes "is_comps cs"
  shows "parent_at_depth (abs_path cs) depth = abs_path (take (min depth (length cs - 1)) cs)"
proof (cases cs)
  case Nil
  then show ?thesis by (simp add: parent_at_depth_def abs_path_def)
next
  case (Cons c ds)
  have "split_on CHR ''/'' (join_with ''/'' (c # ds)) = c # ds"
    using assms Cons by (intro split_on_join) (auto simp: is_comp_def dest: is_compsD)
  then have parts: "split_on CHR ''/'' (trim_start_matches CHR ''/'' (abs_path cs)) = cs"
    using assms Cons by (simp only: abs_path_trim)
  have "abs_path cs \<noteq> ''/''"
    using assms Cons by simp
  then show ?thesis
    using Cons unfolding parent_at_depth_def parts Let_def
    by (simp add: abs_path_def [of "take n (c # ds)" for n] min_def)
qed

lemma split_path_abs [path_simps]:
  "is_comps (cs @ [c]) \<Longrightarrow>
    split_path (abs_path (cs @ [c])) = (if cs = [] then '''' else abs_path cs, c)"
  by (simp add: split_path_def rsplit_once_abs_path)

lemma split_on_abs_path [path_simps]:
  assumes "is_comps cs" "cs \<noteq> []"
  shows "split_on CHR ''/'' (abs_path cs) = [] # cs"
proof -
  have "split_on CHR ''/'' (join_with ''/'' cs) = cs"
    using assms by (intro split_on_join) (auto simp: is_comp_def dest: is_compsD)
  with assms show ?thesis by (simp add: abs_path_def)
qed

lemma path_is_self_or_descendant_alt:
  "path_is_self_or_descendant path mp \<longleftrightarrow> path = mp \<or> (\<exists>r. path = mp @ CHR ''/'' # r)"
proof -
  have "starts_with path mp \<and> length mp < length path \<and> path ! length mp = CHR ''/'' \<longleftrightarrow>
      (\<exists>r. path = mp @ CHR ''/'' # r)" (is "?L \<longleftrightarrow> ?R")
  proof
    assume ?L
    then obtain t where t: "path = mp @ t"
      by (auto simp: starts_with_iff_prefix prefix_def)
    with \<open>?L\<close> show ?R by (cases t) auto
  qed auto
  then show ?thesis
    by (auto simp: path_is_self_or_descendant_def)
qed

lemma path_is_self_or_descendant_abs [path_simps]:
  assumes ms: "is_comps ms" "ms \<noteq> []" and ps: "is_comps ps"
  shows "path_is_self_or_descendant (abs_path ps) (abs_path ms) \<longleftrightarrow> prefix ms ps"
proof
  assume "path_is_self_or_descendant (abs_path ps) (abs_path ms)"
  then consider "abs_path ps = abs_path ms" | r where "abs_path ps = abs_path ms @ CHR ''/'' # r"
    by (auto simp: path_is_self_or_descendant_alt)
  then show "prefix ms ps"
  proof cases
    case 1
    with ms ps show ?thesis by (auto dest: abs_path_inj)
  next
    case (2 r)
    then have "split_on CHR ''/'' (abs_path ps) = [] # ms @ split_on CHR ''/'' r"
      using ms by (simp add: split_on_append_sep split_on_abs_path)
    with ms ps show ?thesis
      by (cases "ps = []") (auto simp: split_on_abs_path neq_Nil_conv is_comp_def)
  qed
next
  assume "prefix ms ps"
  then obtain r where r: "ps = ms @ r"
    by (auto simp: prefix_def)
  show "path_is_self_or_descendant (abs_path ps) (abs_path ms)"
  proof (cases "r = []")
    case True
    with r show ?thesis by (simp add: path_is_self_or_descendant_def)
  next
    case False
    with r ms have "abs_path ps = abs_path ms @ CHR ''/'' # join_with ''/'' r"
      by (simp add: abs_path_def join_with_append)
    then show ?thesis
      by (auto simp: path_is_self_or_descendant_alt)
  qed
qed

lemma query_normpath_abs [path_simps]: "query_normpath path = abs_path (components path)"
  by (simp add: query_normpath_def collapse_path_abs path_simps Let_def)

text \<open>The empty string for the root, as the code builds paths up part by part.\<close>

definition real_path :: "string list \<Rightarrow> string" where
  "real_path cs = (if cs = [] then [] else abs_path cs)"

lemma real_path_snoc:
  "is_comps (cs @ [c]) \<Longrightarrow> (if real_path cs = [] then ''/'' @ c else real_path cs @ ''/'' @ c) = abs_path (cs @ [c])"
  by (auto simp: real_path_def abs_path_snoc abs_path_def join_with_append)

lemma split_trim_abs:
  assumes "is_comps cs" "cs \<noteq> []"
  shows "split_on CHR ''/'' (trim_start_matches CHR ''/'' (abs_path cs)) = cs"
proof -
  obtain d ds where cs: "cs = d # ds" using assms by (cases cs) auto
  then show ?thesis
    using assms abs_path_trim [of d ds] split_on_join [of cs "CHR ''/''"]
    by (simp add: is_comp_def) (metis is_compsD is_comp_def assms(1) set_ConsD list.set_intros(2))
qed

section \<open>Properties\<close>


text \<open>Joining commutes with normalization: normalizing a joined path is the same as joining to the
  normalized directory first, so a lookup below a directory does not depend on how the directory
  was spelled.\<close>

theorem normpath_join: "normpath (p @ ''/'' @ q) = normpath (normpath p @ ''/'' @ q)"
  by (simp only: normpath_abs components_append_slash components_abs_path components_is_comps)



text \<open>C40: A symlink target is resolved against the link's directory and stays inside the tree: an
  absolute target is normalized on its own, a relative one is applied to the components of the
  parent, and the result is canonical.\<close>

theorem symlink_target_resolution:
  assumes "components p = cs @ [c]"
  shows "resolve_symlink_target (normpath p) link =
    abs_path (if starts_with link ''/'' then components link
              else collapse_parts cs (split_on CHR ''/'' link))"
proof -
  have "is_comps (cs @ [c])"
    using components_is_comps [of p] by (simp only: assms)
  then show ?thesis
    by (subst resolve_symlink_target_canonical)
      (simp only: normpath_abs assms resolve_symlink_target_comps)
qed

theorem symlink_target_resolution_witness:
  "resolve_symlink_target (normpath ''a/b/link'') ''../../../x/./y'' = ''/x/y''"
proof -
  have c: "components ''a/b/link'' = [''a'', ''b''] @ [''link'']" by code_simp
  show ?thesis
    unfolding symlink_target_resolution [OF c] by code_simp
qed

end
