(* ===== verification/Core_Types.thy ===== *)
theory Core_Types
  imports Paths
begin

unbundle bit_operations_syntax

text \<open>
  The core types of \<open>ratarmount-core/src/lib.rs\<close>: file metadata, mode bits, the \<open>MountSource\<close>
  trait as a record of operations with the trait's default methods, and the decompression thread
  matrix \<open>ParallelizationSpec\<close>. What the code asks the host for (effective ids, CPU count) is an
  argument of the definitions that use it.
\<close>

section \<open>File metadata\<close>

definition S_IFMT :: u32 where "S_IFMT = 0xF000"
definition S_IFDIR :: u32 where "S_IFDIR = 0x4000"
definition S_IFREG :: u32 where "S_IFREG = 0x8000"
definition S_IFLNK :: u32 where "S_IFLNK = 0xA000"

definition is_dir_mode :: "u32 \<Rightarrow> bool" where
  "is_dir_mode mode \<longleftrightarrow> mode AND S_IFMT = S_IFDIR"

definition is_lnk_mode :: "u32 \<Rightarrow> bool" where
  "is_lnk_mode mode \<longleftrightarrow> mode AND S_IFMT = S_IFLNK"

record tar_userdata =
  td_offset :: u64
  td_offsetheader :: "u64 option"
  td_istar :: bool
  td_issparse :: bool
  td_isgenerated :: bool
  td_recursiondepth :: u32

datatype user_data = Tar tar_userdata | Other string

record file_info =
  fi_size :: u64
  fi_mtime :: f64
  fi_mode :: u32
  fi_linkname :: string
  fi_uid :: u32
  fi_gid :: u32
  fi_userdata :: "user_data list"

datatype list_result = Names "string list" | Infos "(string \<times> file_info) list"

datatype list_mode_result = ModeNames "string list" | Modes "(string \<times> u32) list"

datatype list_need = Cheap | NeedFileInfo

record cheap_dirent =
  cd_name :: string
  cd_mode :: u32
  cd_size :: u64

record inode_attr_cookie =
  ic_size :: u64
  ic_mtime :: f64
  ic_mode :: u32
  ic_uid :: u32
  ic_gid :: u32
  ic_flags :: u8

definition from_file_info :: "file_info \<Rightarrow> inode_attr_cookie" where
  "from_file_info fi =
     \<lparr>ic_size = fi_size fi, ic_mtime = fi_mtime fi, ic_mode = fi_mode fi,
      ic_uid = fi_uid fi, ic_gid = fi_gid fi, ic_flags = 0\<rparr>"

record cheap_search_hit =
  h_path :: string
  h_name :: string
  h_size :: i64
  h_mtime :: f64
  h_offsetheader :: "i64 option"

record stat_fs =
  sf_bsize :: u64
  sf_namemax :: u64

record 'f backing_extent =
  be_file :: 'f
  be_offset :: u64
  be_len :: u64

datatype error_kind =
    NotFound | InvalidInput | InvalidData | IsADirectory | ReadOnlyFilesystem
  | QuotaExceeded | UnexpectedEof | PermissionDenied | AlreadyExists | OtherKind

datatype io_error = IoError error_kind string

text \<open>What the code reads from the process: the effective user and group.\<close>

record host_env =
  euid :: u32
  egid :: u32

definition create_root_file_info :: "host_env \<Rightarrow> file_info" where
  "create_root_file_info env =
     \<lparr>fi_size = 0, fi_mtime = 0, fi_mode = S_IFDIR OR 0x1FF, fi_linkname = '''',
      fi_uid = euid env, fi_gid = egid env,
      fi_userdata = [Tar \<lparr>td_offset = 0, td_offsetheader = Some 0, td_istar = False,
        td_issparse = False, td_isgenerated = True, td_recursiondepth = 0\<rparr>]\<rparr>"

section \<open>The \<open>MountSource\<close> trait\<close>

text \<open>
  A trait object: one component per method the composite sources call. \<open>'r\<close> is the type of
  opened readers and \<open>'f\<close> the type of host files, which the modelled layers only pass on.
\<close>

record ('r, 'f) mount_source =
  ms_list :: "string \<Rightarrow> list_result option"
  ms_list_mode :: "string \<Rightarrow> list_mode_result option"
  ms_list_dirents :: "string \<Rightarrow> cheap_dirent list option"
  ms_lookup :: "string \<Rightarrow> i32 \<Rightarrow> file_info option"
  ms_search_cheap :: "string \<Rightarrow> cheap_search_hit list option"
  ms_open :: "file_info \<Rightarrow> i32 \<Rightarrow> io_error + 'r"
  ms_supports_backing_extents :: bool
  ms_backing_extent :: "file_info \<Rightarrow> 'f backing_extent option"
  ms_member_seek_is_cheap :: "file_info \<Rightarrow> bool"
  ms_content_generation :: u64
  ms_versions :: "string \<Rightarrow> u32"
  ms_statfs :: stat_fs
  ms_is_immutable :: bool
  ms_list_xattr :: "file_info \<Rightarrow> string list"
  ms_get_xattr :: "file_info \<Rightarrow> string \<Rightarrow> u8 list option"

text \<open>The default methods, over the methods they call.\<close>

definition list_mode_default :: "(string \<Rightarrow> list_result option) \<Rightarrow> string \<Rightarrow> list_mode_result option" where
  "list_mode_default lst path =
     (case lst path of
        None \<Rightarrow> None
      | Some (Names names) \<Rightarrow> Some (ModeNames names)
      | Some (Infos m) \<Rightarrow> Some (Modes (map (\<lambda>(k, v). (k, fi_mode v)) m)))"

definition list_dirents_default ::
    "(string \<Rightarrow> list_mode_result option) \<Rightarrow> string \<Rightarrow> cheap_dirent list option" where
  "list_dirents_default lm path =
     (case lm path of
        None \<Rightarrow> None
      | Some (ModeNames names) \<Rightarrow>
          Some (map (\<lambda>name. \<lparr>cd_name = name, cd_mode = 0, cd_size = 0\<rparr>) names)
      | Some (Modes m) \<Rightarrow>
          Some (map (\<lambda>(name, mode). \<lparr>cd_name = name, cd_mode = mode, cd_size = 0\<rparr>) m))"

definition list_with :: "('r, 'f) mount_source \<Rightarrow> string \<Rightarrow> list_need \<Rightarrow> list_result option" where
  "list_with src path need =
     (case need of
        NeedFileInfo \<Rightarrow> ms_list src path
      | Cheap \<Rightarrow> map_option (\<lambda>dents. Names (map cd_name dents)) (ms_list_dirents src path))"

definition exists_default :: "(string \<Rightarrow> i32 \<Rightarrow> file_info option) \<Rightarrow> string \<Rightarrow> bool" where
  "exists_default lk path = (lk path 0 \<noteq> None)"

definition versions_default :: "(string \<Rightarrow> i32 \<Rightarrow> file_info option) \<Rightarrow> string \<Rightarrow> u32" where
  "versions_default lk path = (if exists_default lk path then 1 else 0)"

definition is_dir_default :: "(string \<Rightarrow> i32 \<Rightarrow> file_info option) \<Rightarrow> string \<Rightarrow> bool" where
  "is_dir_default lk path =
     (case lk path 0 of None \<Rightarrow> False | Some fi \<Rightarrow> fi_mode fi AND S_IFMT = S_IFDIR)"

definition statfs_default :: stat_fs where
  "statfs_default = \<lparr>sf_bsize = 512, sf_namemax = 255\<rparr>"

section \<open>Decompression threads\<close>

record parallelization_spec =
  ps_default :: u32
  ps_by_backend :: "(string \<times> u32) list"

datatype parallelization_error =
    InvalidCount string
  | EntryFormat string
  | NotANumber string string
  | InvalidCountFor string string

definition spec_default :: parallelization_spec where
  "spec_default = \<lparr>ps_default = 1, ps_by_backend = []\<rparr>"

text \<open>\<open>cpu\<close> is \<open>cpu_count()\<close>, which the code bounds below by 1.\<close>

definition resolve_zero :: "u32 \<Rightarrow> u32 \<Rightarrow> u32" where
  "resolve_zero cpu n = (if n = 0 then cpu else n)"

definition spec_new :: "u32 \<Rightarrow> u32 \<Rightarrow> parallelization_spec" where
  "spec_new cpu n = \<lparr>ps_default = resolve_zero cpu n, ps_by_backend = []\<rparr>"

fun parse_tokens ::
    "u32 \<Rightarrow> (string \<times> u32) list \<Rightarrow> u32 option \<Rightarrow> string list
      \<Rightarrow> parallelization_error + (string \<times> u32) list \<times> u32 option" where
  "parse_tokens cpu m dflt [] = Inr (m, dflt)"
| "parse_tokens cpu m dflt (tok # toks) =
     (let token = trim tok in
      if token = [] then parse_tokens cpu m dflt toks
      else
        case split_once CHR '':'' token of
          None \<Rightarrow> Inl (EntryFormat token)
        | Some (b, c) \<Rightarrow>
            let backend = trim b; count_str = trim c in
            if count_str = [] \<or> \<not> list_all is_ascii_digit count_str
            then Inl (NotANumber count_str backend)
            else
              case parse_u32 count_str of
                None \<Rightarrow> Inl (InvalidCountFor count_str backend)
              | Some n \<Rightarrow>
                  let resolved = resolve_zero cpu n in
                  if backend = [] then parse_tokens cpu m (Some resolved) toks
                  else parse_tokens cpu (AList.update (to_ascii_lowercase backend) resolved m) dflt toks)"

definition spec_parse :: "u32 \<Rightarrow> string \<Rightarrow> parallelization_error + parallelization_spec" where
  "spec_parse cpu s0 =
     (let s = trim s0 in
      if s = [] then Inr spec_default
      else if list_all is_ascii_digit s then
        (case parse_u32 s of
           None \<Rightarrow> Inl (InvalidCount s)
         | Some n \<Rightarrow> Inr (spec_new cpu n))
      else
        case parse_tokens cpu [] None (split_on CHR '','' s) of
          Inl e \<Rightarrow> Inl e
        | Inr (m, dflt) \<Rightarrow>
            Inr \<lparr>ps_default = (case dflt of None \<Rightarrow> cpu | Some d \<Rightarrow> d), ps_by_backend = m\<rparr>)"

definition threads_for :: "parallelization_spec \<Rightarrow> string \<Rightarrow> u32" where
  "threads_for spec backend =
     max 1 (case map_of (ps_by_backend spec) (to_ascii_lowercase backend) of
              None \<Rightarrow> ps_default spec
            | Some n \<Rightarrow> n)"

definition default_threads :: "parallelization_spec \<Rightarrow> u32" where
  "default_threads spec = max 1 (ps_default spec)"

section \<open>Lemmas\<close>

lemma dir_not_lnk: "is_dir_mode m \<Longrightarrow> \<not> is_lnk_mode m"
  by (auto simp: is_dir_mode_def is_lnk_mode_def S_IFDIR_def S_IFLNK_def)

lemma is_dir_mode_or [simp]: "is_dir_mode (S_IFDIR OR 0x1FF)" "is_dir_mode (S_IFDIR OR 0x1ED)"
  by (simp_all add: is_dir_mode_def S_IFDIR_def S_IFMT_def)

lemma root_is_dir [simp]: "is_dir_mode (fi_mode (create_root_file_info env))"
  by (simp add: create_root_file_info_def)

text \<open>Every thread count the parser stores is positive.\<close>

definition counts_ok :: "(string \<times> u32) list \<Rightarrow> u32 option \<Rightarrow> bool" where
  "counts_ok m dflt \<longleftrightarrow> (\<forall>k n. map_of m k = Some n \<longrightarrow> 0 < n) \<and> (\<forall>d. dflt = Some d \<longrightarrow> 0 < d)"

lemma resolve_zero_pos: "0 < cpu \<Longrightarrow> 0 < resolve_zero cpu n"
  by (simp add: resolve_zero_def word_neq_0_conv)

lemma parse_tokens_counts:
  assumes "0 < cpu"
  shows "parse_tokens cpu m dflt toks = Inr (m', dflt') \<Longrightarrow> counts_ok m dflt \<Longrightarrow> counts_ok m' dflt'"
proof (induction toks arbitrary: m dflt)
  case Nil
  then show ?case by simp
next
  case (Cons tok toks)
  have "counts_ok m (Some (resolve_zero cpu n))"
      "counts_ok (AList.update b (resolve_zero cpu n) m) dflt" for n b
    using Cons.prems(2) resolve_zero_pos [OF assms]
    by (auto simp: counts_ok_def update_conv' split: if_splits)
  with Cons show ?case
    by (auto simp: Let_def split: if_splits option.splits)
qed

text \<open>The parsed thread matrix never holds a zero: the default and every per-backend count
  are at least 1 (a written \<open>0\<close> became the CPU count), so \<open>threads_for\<close> returns the stored count
  of the backend, or else the default, without its clamp ever changing the value.\<close>

theorem spec_parse_positive:
  assumes "0 < cpu" "spec_parse cpu s = Inr spec"
  shows "0 < ps_default spec \<and> (\<forall>k n. map_of (ps_by_backend spec) k = Some n \<longrightarrow> 0 < n)
    \<and> threads_for spec b =
        (case map_of (ps_by_backend spec) (to_ascii_lowercase b) of None \<Rightarrow> ps_default spec | Some n \<Rightarrow> n)"
proof -
  have "0 < ps_default spec \<and> (\<forall>k n. map_of (ps_by_backend spec) k = Some n \<longrightarrow> 0 < n)"
  proof -
    have "counts_ok m d" if "parse_tokens cpu [] None toks = Inr (m, d)" for m d toks
      using parse_tokens_counts [OF assms(1) that] by (simp add: counts_ok_def)
    then show ?thesis
      using assms resolve_zero_pos [OF assms(1)]
      by (auto simp: spec_parse_def Let_def spec_default_def spec_new_def counts_ok_def
          split: if_splits option.splits sum.splits prod.splits)
  qed
  moreover from this have "max 1 n = n" if "0 < n" for n :: u32
    using that by (simp add: max_def word_le_nat_alt word_less_nat_alt)
  ultimately show ?thesis
    by (auto simp: threads_for_def split: option.splits)
qed

theorem spec_parse_positive_witness:
  "spec_parse 8 '':1, BZIP2:0'' = Inr \<lparr>ps_default = 1, ps_by_backend = [(''bzip2'', 8)]\<rparr>
   \<and> threads_for \<lparr>ps_default = 1, ps_by_backend = [(''bzip2'', 8)]\<rparr> ''bzip2'' = 8"
proof -
  have p: "spec_parse 8 '':1, BZIP2:0'' = Inr \<lparr>ps_default = 1, ps_by_backend = [(''bzip2'', 8)]\<rparr>"
    by code_simp
  have l: "to_ascii_lowercase ''bzip2'' = ''bzip2''"
    by code_simp
  show ?thesis
    using spec_parse_positive [OF _ p, of "''bzip2''"] p l by simp
qed

end
