(* ===== verification/Entry_Soa.thy ===== *)
theory Entry_Soa
  imports Core_Types String_Pool
begin

unbundle bit_operations_syntax

text \<open>
  The columnar row store of the compact index (\<open>EntrySoa\<close>, \<open>FileRow\<close> and the row projections in
  \<open>ratarmount-index/src/mem.rs\<close> and \<open>lib.rs\<close>). A row is an \<open>entry\<close>; the store keeps one list per
  column and packs the three booleans into a flag byte. \<open>soa_entry\<close> reads row \<open>i\<close> back and the
  lemmas show that the columns behave as one list of entries.
\<close>

section \<open>Definitions\<close>

text \<open>One row of the SQL table \<open>files\<close>.\<close>

record file_row =
  r_path :: string
  r_name :: string
  r_offsetheader :: i64
  r_offset :: i64
  r_size :: i64
  r_mtime :: f64
  r_mode :: i64
  r_typeflag :: i64
  r_linkname :: string
  r_uid :: i64
  r_gid :: i64
  r_istar :: bool
  r_issparse :: bool
  r_isgenerated :: bool
  r_recursiondepth :: i64

record compact_open_cookie =
  oc_offsetheader :: i64
  oc_offset :: u64
  oc_size :: u64
  oc_mode :: u32
  oc_istar :: bool
  oc_issparse :: bool
  oc_isgenerated :: bool
  oc_recursiondepth :: u32

text \<open>The arguments of \<open>EntrySoa::push\<close> and \<open>EntrySoa::replace\<close>.\<close>

record entry =
  e_offsetheader :: i64
  e_offset :: u64
  e_size :: u64
  e_mtime :: f64
  e_mode :: u32
  e_linkname_id :: u32
  e_uid :: u32
  e_gid :: u32
  e_istar :: bool
  e_issparse :: bool
  e_isgenerated :: bool
  e_recursiondepth :: u32

record entry_soa =
  c_offsetheader :: "i64 list"
  c_offset :: "u64 list"
  c_size :: "u64 list"
  c_mtime :: "f64 list"
  c_mode :: "u32 list"
  c_linkname_id :: "u32 list"
  c_uid :: "u32 list"
  c_gid :: "u32 list"
  c_flags :: "u8 list"
  c_recursiondepth :: "u32 list"

definition soa_new :: entry_soa where
  "soa_new = \<lparr>c_offsetheader = [], c_offset = [], c_size = [], c_mtime = [], c_mode = [],
     c_linkname_id = [], c_uid = [], c_gid = [], c_flags = [], c_recursiondepth = []\<rparr>"

definition soa_len :: "entry_soa \<Rightarrow> nat" where
  "soa_len s = length (c_offsetheader s)"

definition flag_byte :: "bool \<Rightarrow> bool \<Rightarrow> bool \<Rightarrow> u8" where
  "flag_byte istar issparse isgenerated =
     (let f0 = (0 :: u8);
          f1 = (if istar then f0 OR 1 else f0);
          f2 = (if issparse then f1 OR 2 else f1)
      in if isgenerated then f2 OR 4 else f2)"

definition soa_push :: "entry_soa \<Rightarrow> entry \<Rightarrow> u32 \<times> entry_soa" where
  "soa_push s e =
     (of_nat (length (c_offsetheader s)),
      \<lparr>c_offsetheader = c_offsetheader s @ [e_offsetheader e],
       c_offset = c_offset s @ [e_offset e],
       c_size = c_size s @ [e_size e],
       c_mtime = c_mtime s @ [e_mtime e],
       c_mode = c_mode s @ [e_mode e],
       c_linkname_id = c_linkname_id s @ [e_linkname_id e],
       c_uid = c_uid s @ [e_uid e],
       c_gid = c_gid s @ [e_gid e],
       c_flags = c_flags s @ [flag_byte (e_istar e) (e_issparse e) (e_isgenerated e)],
       c_recursiondepth = c_recursiondepth s @ [e_recursiondepth e]\<rparr>)"

text \<open>
  \<open>replace\<close> writes every column at \<open>idx\<close>; the code's indexing panics out of range, so the model
  returns \<open>None\<close> there.
\<close>

definition soa_replace :: "entry_soa \<Rightarrow> u32 \<Rightarrow> entry \<Rightarrow> entry_soa option" where
  "soa_replace s idx e =
     (let i = unat idx in
      if i < length (c_offsetheader s) \<and> i < length (c_offset s) \<and> i < length (c_size s)
         \<and> i < length (c_mtime s) \<and> i < length (c_mode s) \<and> i < length (c_linkname_id s)
         \<and> i < length (c_uid s) \<and> i < length (c_gid s) \<and> i < length (c_flags s)
         \<and> i < length (c_recursiondepth s)
      then Some
        \<lparr>c_offsetheader = (c_offsetheader s)[i := e_offsetheader e],
         c_offset = (c_offset s)[i := e_offset e],
         c_size = (c_size s)[i := e_size e],
         c_mtime = (c_mtime s)[i := e_mtime e],
         c_mode = (c_mode s)[i := e_mode e],
         c_linkname_id = (c_linkname_id s)[i := e_linkname_id e],
         c_uid = (c_uid s)[i := e_uid e],
         c_gid = (c_gid s)[i := e_gid e],
         c_flags = (c_flags s)[i := flag_byte (e_istar e) (e_issparse e) (e_isgenerated e)],
         c_recursiondepth = (c_recursiondepth s)[i := e_recursiondepth e]\<rparr>
      else None)"

text \<open>Row \<open>i\<close> read column by column, the flags unpacked. The callers stay in range.\<close>

definition soa_entry :: "entry_soa \<Rightarrow> nat \<Rightarrow> entry" where
  "soa_entry s i =
     \<lparr>e_offsetheader = c_offsetheader s ! i, e_offset = c_offset s ! i, e_size = c_size s ! i,
      e_mtime = c_mtime s ! i, e_mode = c_mode s ! i, e_linkname_id = c_linkname_id s ! i,
      e_uid = c_uid s ! i, e_gid = c_gid s ! i,
      e_istar = (c_flags s ! i AND 1 \<noteq> 0), e_issparse = (c_flags s ! i AND 2 \<noteq> 0),
      e_isgenerated = (c_flags s ! i AND 4 \<noteq> 0), e_recursiondepth = c_recursiondepth s ! i\<rparr>"

definition open_cookie :: "entry_soa \<Rightarrow> u32 \<Rightarrow> compact_open_cookie" where
  "open_cookie s idx =
     (let e = soa_entry s (unat idx) in
      \<lparr>oc_offsetheader = e_offsetheader e, oc_offset = e_offset e, oc_size = e_size e,
       oc_mode = e_mode e, oc_istar = e_istar e, oc_issparse = e_issparse e,
       oc_isgenerated = e_isgenerated e, oc_recursiondepth = e_recursiondepth e\<rparr>)"

definition to_file_info :: "entry_soa \<Rightarrow> string_pool \<Rightarrow> u32 \<Rightarrow> file_info" where
  "to_file_info s pool idx =
     (let e = soa_entry s (unat idx) in
      \<lparr>fi_size = e_size e, fi_mtime = e_mtime e, fi_mode = e_mode e,
       fi_linkname = pool_get pool (e_linkname_id e), fi_uid = e_uid e, fi_gid = e_gid e,
       fi_userdata = [Tar \<lparr>td_offset = e_offset e,
         td_offsetheader = (if 0 \<le> sint (e_offsetheader e) then Some (e_offsetheader e) else None),
         td_istar = e_istar e, td_issparse = e_issparse e, td_isgenerated = e_isgenerated e,
         td_recursiondepth = e_recursiondepth e\<rparr>]\<rparr>)"

text \<open>The entry \<open>push_row\<close> stores for a row, given the pool id of its link target.\<close>

definition entry_of_row :: "u32 \<Rightarrow> file_row \<Rightarrow> entry" where
  "entry_of_row link_id r =
     \<lparr>e_offsetheader = r_offsetheader r, e_offset = max0 (r_offset r), e_size = max0 (r_size r),
      e_mtime = r_mtime r, e_mode = ucast (r_mode r), e_linkname_id = link_id,
      e_uid = ucast (max0 (r_uid r)), e_gid = ucast (max0 (r_gid r)),
      e_istar = r_istar r, e_issparse = r_issparse r, e_isgenerated = r_isgenerated r,
      e_recursiondepth = ucast (max0 (r_recursiondepth r))\<rparr>"

section \<open>The columns as one list\<close>

definition soa_ok :: "entry_soa \<Rightarrow> bool" where
  "soa_ok s \<longleftrightarrow>
     (\<forall>n \<in> {length (c_offset s), length (c_size s), length (c_mtime s), length (c_mode s),
             length (c_linkname_id s), length (c_uid s), length (c_gid s), length (c_flags s),
             length (c_recursiondepth s)}. n = soa_len s)"

lemma flag_byte_bits [simp]:
  "flag_byte a b c AND 1 \<noteq> 0 \<longleftrightarrow> a" "flag_byte a b c AND 2 \<noteq> 0 \<longleftrightarrow> b"
  "flag_byte a b c AND 4 \<noteq> 0 \<longleftrightarrow> c"
  by (cases a; cases b; cases c; simp add: flag_byte_def)+

lemma soa_new_ok [simp]: "soa_ok soa_new" "soa_len soa_new = 0"
  by (simp_all add: soa_ok_def soa_len_def soa_new_def)

lemma soa_push_ok:
  assumes "soa_ok s" "soa_push s e = (idx, s')"
  shows "soa_ok s' \<and> soa_len s' = Suc (soa_len s) \<and> idx = of_nat (soa_len s)
    \<and> soa_entry s' (soa_len s) = e \<and> (\<forall>j < soa_len s. soa_entry s' j = soa_entry s j)"
  using assms
  by (auto simp: soa_push_def soa_ok_def soa_len_def soa_entry_def nth_append)

lemma soa_replace_ok:
  assumes "soa_ok s" "unat idx < soa_len s"
  shows "\<exists>s'. soa_replace s idx e = Some s' \<and> soa_ok s' \<and> soa_len s' = soa_len s
    \<and> (\<forall>j < soa_len s. soa_entry s' j = (if j = unat idx then e else soa_entry s j))"
  using assms
  by (auto simp: soa_replace_def soa_ok_def soa_len_def soa_entry_def Let_def)

end
