(* ===== verification/Mem_Index.thy ===== *)
theory Mem_Index
  imports Path_Table Entry_Soa "HOL-Library.Multiset"
begin

unbundle bit_operations_syntax

text \<open>
  The compact in-memory index (\<open>MemIndexBuilder\<close> and \<open>MemIndex\<close> in
  \<open>ratarmount-index/src/mem.rs\<close>): rows are pushed with insert-or-replace semantics, the directory
  maps are split into hashed shards when there are many, and lookups and listings are answered
  from the columns and the pool.
\<close>

section \<open>Definitions\<close>

definition DIR_SHARD_THRESHOLD :: u32 where "DIR_SHARD_THRESHOLD = 64"
definition DIR_SHARD_COUNT :: u32 where "DIR_SHARD_COUNT = 32"

text \<open>One directory: name id to the version indices, oldest first (a \<open>BTreeMap\<close>).\<close>

type_synonym dir_entries = "(u32 \<times> u32 list) list"

record index_dirent =
  id_name :: string
  id_mode :: u32
  id_size :: u64
  id_linkname :: string
  id_cookie :: compact_open_cookie

record mem_index =
  mi_pool :: string_pool
  mi_paths :: path_table
  mi_soa :: entry_soa
  mi_dirs :: "(u32 \<times> dir_entries) list"
  mi_shards :: "(u32 \<times> dir_entries) list list option"
  mi_count :: u64
  mi_sharded :: bool

record mem_index_builder =
  mb_pool :: string_pool
  mb_paths :: path_table
  mb_soa :: entry_soa
  mb_dirs :: "(u32 \<times> dir_entries) list"
  mb_count :: u64
  mb_by_key_oh :: "((u32 \<times> u32 \<times> i64) \<times> u32) list"

definition mb_new :: mem_index_builder where
  "mb_new = \<lparr>mb_pool = pool_new, mb_paths = pt_new, mb_soa = soa_new, mb_dirs = [],
     mb_count = 0, mb_by_key_oh = []\<rparr>"

definition intern_shared :: "nat \<Rightarrow> mem_index_builder \<Rightarrow> string \<Rightarrow> arc \<times> mem_index_builder \<times> nat" where
  "intern_shared heap b s =
     (let (a, pool, heap') = intern heap (mb_pool b) s in (a, b\<lparr>mb_pool := pool\<rparr>, heap'))"

text \<open>
  \<open>push_row\<close>. \<open>None\<close> stands for the panic of an out-of-range \<open>replace\<close>, which the invariant of the
  builder excludes.
\<close>

definition push_row :: "mem_index_builder \<Rightarrow> file_row \<Rightarrow> mem_index_builder option" where
  "push_row b row =
     (if r_name row = [] then Some b
      else
        let (path_id, paths1, pool1) = intern_dir (mb_paths b) (mb_pool b) (r_path row);
            (name_id, pool2) = intern_id pool1 (r_name row);
            (link_id, pool3) = intern_id pool2 (r_linkname row);
            oh = r_offsetheader row;
            key = (path_id, name_id, oh);
            b1 = b\<lparr>mb_paths := paths1, mb_pool := pool3\<rparr>;
            e = entry_of_row link_id row
        in case map_of (mb_by_key_oh b) key of
             Some idx \<Rightarrow> map_option (\<lambda>s. b1\<lparr>mb_soa := s\<rparr>) (soa_replace (mb_soa b) idx e)
           | None \<Rightarrow>
               let (idx, soa1) = soa_push (mb_soa b) e;
                   names = (case map_of (mb_dirs b) path_id of None \<Rightarrow> [] | Some d \<Rightarrow> d);
                   versions = (case map_of names name_id of None \<Rightarrow> [] | Some v \<Rightarrow> v);
                   versions1 = sort_key (\<lambda>i. sint (c_offsetheader soa1 ! unat i)) (versions @ [idx])
               in Some (b1\<lparr>mb_soa := soa1,
                    mb_by_key_oh := AList.update key idx (mb_by_key_oh b),
                    mb_dirs := AList.update path_id (bt_insert name_id versions1 names) (mb_dirs b),
                    mb_count := mb_count b + 1\<rparr>))"

fun push_rows :: "mem_index_builder \<Rightarrow> file_row list \<Rightarrow> mem_index_builder option" where
  "push_rows b [] = Some b"
| "push_rows b (r # rs) = Option.bind (push_row b r) (\<lambda>b'. push_rows b' rs)"

text \<open>\<open>finish\<close>: the directories are dealt into 32 shards when there are more than 64 of them.\<close>

definition shard_of :: "u32 \<Rightarrow> nat" where
  "shard_of pid = unat (pid mod DIR_SHARD_COUNT)"

fun fill_shards :: "(u32 \<times> dir_entries) list list \<Rightarrow> (u32 \<times> dir_entries) list
    \<Rightarrow> (u32 \<times> dir_entries) list list" where
  "fill_shards shards [] = shards"
| "fill_shards shards ((pid, de) # ds) =
     fill_shards (shards[shard_of pid := AList.update pid de (shards ! shard_of pid)]) ds"

definition finish :: "mem_index_builder \<Rightarrow> mem_index" where
  "finish b =
     (let dir_count = of_nat (length (mb_dirs b)) :: u32;
          sharded = dir_count > DIR_SHARD_THRESHOLD
      in \<lparr>mi_pool = seal (mb_pool b), mi_paths = mb_paths b, mi_soa = mb_soa b,
          mi_dirs = (if sharded then [] else mb_dirs b),
          mi_shards = (if sharded
             then Some (fill_shards (replicate (unat DIR_SHARD_COUNT) []) (mb_dirs b)) else None),
          mi_count = mb_count b, mi_sharded = sharded\<rparr>)"

text \<open>The queries of \<open>MemIndex\<close>.\<close>

definition mi_dir_entries :: "mem_index \<Rightarrow> u32 \<Rightarrow> dir_entries option" where
  "mi_dir_entries m path_id =
     (case mi_shards m of
        Some shards \<Rightarrow>
          (if shard_of path_id < length shards then map_of (shards ! shard_of path_id) path_id else None)
      | None \<Rightarrow> map_of (mi_dirs m) path_id)"

definition resolve_path_id :: "mem_index \<Rightarrow> string \<Rightarrow> u32 option" where
  "resolve_path_id m dir =
     (if dir = [] \<or> dir = ''/'' then Some 0
      else case map_of (by_flat (mi_paths m)) dir of
        Some i \<Rightarrow> Some i
      | None \<Rightarrow>
          if starts_with dir ''/''
          then map_of (by_flat (mi_paths m)) (trim_start_matches CHR ''/'' dir)
          else map_of (by_flat (mi_paths m)) (''/'' @ dir))"

definition resolve_name_id :: "mem_index \<Rightarrow> string \<Rightarrow> u32 option" where
  "resolve_name_id m name = lookup_id (mi_pool m) name"

definition name_count :: "mem_index \<Rightarrow> u32 \<Rightarrow> nat" where
  "name_count m path_id = (case mi_dir_entries m path_id of None \<Rightarrow> 0 | Some d \<Rightarrow> length d)"

definition dir_path_is_shared :: "mem_index \<Rightarrow> string \<Rightarrow> bool" where
  "dir_path_is_shared m dir =
     (case map_of (by_flat (mi_paths m)) dir of
        Some pid \<Rightarrow> name_count m pid \<ge> 2
      | None \<Rightarrow>
          let alt = (if starts_with dir ''/'' then trim_start_matches CHR ''/'' dir else ''/'' @ dir)
          in case map_of (by_flat (mi_paths m)) alt of
               None \<Rightarrow> False
             | Some pid \<Rightarrow> name_count m pid \<ge> 2)"

definition mi_versions :: "mem_index \<Rightarrow> string \<Rightarrow> string \<Rightarrow> u32 list option" where
  "mi_versions m dir name =
     Option.bind (resolve_path_id m dir) (\<lambda>pid.
       Option.bind (resolve_name_id m name) (\<lambda>nid.
         Option.bind (mi_dir_entries m pid) (\<lambda>d. map_of d nid)))"

definition mi_version_count :: "mem_index \<Rightarrow> string \<Rightarrow> string \<Rightarrow> u32" where
  "mi_version_count m dir name =
     (case mi_versions m dir name of None \<Rightarrow> 0 | Some v \<Rightarrow> of_nat (length v))"

text \<open>
  \<open>lookup_entry_index\<close>: version 0 and below counts back from the newest (saturating at the
  oldest), positive versions count from the oldest. The negation and the casts wrap.
\<close>

definition version_slot :: "i32 \<Rightarrow> nat \<Rightarrow> nat" where
  "version_slot file_version len =
     (if sint file_version \<le> 0
      then let n = unat (scast (- file_version) :: u64) in len - (1 + n)
      else unat (scast file_version :: u64) - 1)"

definition lookup_entry_index :: "mem_index \<Rightarrow> string \<Rightarrow> string \<Rightarrow> i32 \<Rightarrow> u32 option" where
  "lookup_entry_index m dir name file_version =
     (case mi_versions m dir name of
        None \<Rightarrow> None
      | Some versions \<Rightarrow>
          (if versions = [] then None
           else let i = version_slot file_version (length versions)
                in if i < length versions then Some (versions ! i) else None))"

definition mi_lookup :: "mem_index \<Rightarrow> string \<Rightarrow> string \<Rightarrow> i32 \<Rightarrow> file_info option" where
  "mi_lookup m dir name file_version =
     map_option (to_file_info (mi_soa m) (mi_pool m)) (lookup_entry_index m dir name file_version)"

definition lookup_open_cookie :: "mem_index \<Rightarrow> string \<Rightarrow> string \<Rightarrow> i32 \<Rightarrow> compact_open_cookie option" where
  "lookup_open_cookie m dir name file_version =
     map_option (open_cookie (mi_soa m)) (lookup_entry_index m dir name file_version)"

definition mi_list :: "mem_index \<Rightarrow> string \<Rightarrow> (string \<times> file_info) list option" where
  "mi_list m dir =
     Option.bind (resolve_path_id m dir) (\<lambda>pid.
       Option.bind (mi_dir_entries m pid) (\<lambda>d.
         let mp = bt_collect (\<lambda>(nid, versions). pool_get (mi_pool m) nid)
               (\<lambda>(nid, versions). to_file_info (mi_soa m) (mi_pool m) (last versions))
               (filter (\<lambda>(nid, versions). versions \<noteq> []) d)
         in if mp = [] then None else Some mp))"

definition index_dirent_of :: "mem_index \<Rightarrow> string \<Rightarrow> u32 \<Rightarrow> index_dirent" where
  "index_dirent_of m name idx =
     (let e = soa_entry (mi_soa m) (unat idx) in
      \<lparr>id_name = name, id_mode = e_mode e, id_size = e_size e,
       id_linkname = pool_get (mi_pool m) (e_linkname_id e), id_cookie = open_cookie (mi_soa m) idx\<rparr>)"

definition dirents_of :: "mem_index \<Rightarrow> dir_entries \<Rightarrow> index_dirent list" where
  "dirents_of m d =
     map (\<lambda>(nid, versions). index_dirent_of m (pool_get (mi_pool m) nid) (last versions))
       (filter (\<lambda>(nid, versions). versions \<noteq> []) d)"

definition mi_list_dirents :: "mem_index \<Rightarrow> string \<Rightarrow> index_dirent list option" where
  "mi_list_dirents m dir =
     Option.bind (resolve_path_id m dir) (\<lambda>pid.
       Option.bind (mi_dir_entries m pid) (\<lambda>d.
         let out = dirents_of m d in if out = [] then None else Some out))"

definition mi_list_mode :: "mem_index \<Rightarrow> string \<Rightarrow> (string \<times> u32) list option" where
  "mi_list_mode m dir = map_option (bt_collect id_name id_mode) (mi_list_dirents m dir)"

definition all_path_ids :: "mem_index \<Rightarrow> u32 list" where
  "all_path_ids m =
     (case mi_shards m of
        Some shards \<Rightarrow> sort (concat (map (map fst) shards))
      | None \<Rightarrow> sort (map fst (mi_dirs m)))"

definition newest_dirents :: "mem_index \<Rightarrow> (string \<times> index_dirent) list" where
  "newest_dirents m =
     concat (map (\<lambda>pid.
       let path_str = flat_string_for_export (mi_paths m) (mi_pool m) pid in
       case mi_dir_entries m pid of
         None \<Rightarrow> []
       | Some de \<Rightarrow>
           map (\<lambda>(nid, versions).
                (path_str, index_dirent_of m (pool_get (mi_pool m) nid) (last versions)))
             (filter (\<lambda>(nid, versions). versions \<noteq> [] \<and> pool_get (mi_pool m) nid \<noteq> []) de))
       (all_path_ids m))"

definition export_row :: "mem_index \<Rightarrow> string \<Rightarrow> string \<Rightarrow> u32 \<Rightarrow> file_row" where
  "export_row m path_str name idx =
     (let e = soa_entry (mi_soa m) (unat idx) in
      \<lparr>r_path = path_str, r_name = name, r_offsetheader = e_offsetheader e,
       r_offset = e_offset e, r_size = e_size e, r_mtime = e_mtime e,
       r_mode = ucast (e_mode e), r_typeflag = 0,
       r_linkname = pool_get (mi_pool m) (e_linkname_id e),
       r_uid = ucast (e_uid e), r_gid = ucast (e_gid e),
       r_istar = e_istar e, r_issparse = e_issparse e, r_isgenerated = e_isgenerated e,
       r_recursiondepth = ucast (e_recursiondepth e)\<rparr>)"

definition export_file_rows :: "mem_index \<Rightarrow> file_row list" where
  "export_file_rows m =
     concat (map (\<lambda>pid.
       let path_str = flat_string_for_export (mi_paths m) (mi_pool m) pid in
       case mi_dir_entries m pid of
         None \<Rightarrow> []
       | Some de \<Rightarrow>
           concat (map (\<lambda>(nid, versions).
             map (export_row m path_str (pool_get (mi_pool m) nid)) versions) de))
       (all_path_ids m))"

text \<open>Loading from SQL rows, whose fields were clamped when they were read.\<close>

record sql_mem_row =
  q_path :: string
  q_name :: string
  q_offsetheader :: i64
  q_offset :: u64
  q_size :: u64
  q_mtime :: f64
  q_mode :: u32
  q_linkname :: string
  q_uid :: u32
  q_gid :: u32
  q_istar :: bool
  q_issparse :: bool
  q_isgenerated :: bool
  q_recursiondepth :: u32

definition row_of_sql :: "sql_mem_row \<Rightarrow> file_row" where
  "row_of_sql q =
     \<lparr>r_path = q_path q, r_name = q_name q, r_offsetheader = q_offsetheader q,
      r_offset = q_offset q, r_size = q_size q, r_mtime = q_mtime q, r_mode = ucast (q_mode q),
      r_typeflag = 0, r_linkname = q_linkname q, r_uid = ucast (q_uid q), r_gid = ucast (q_gid q),
      r_istar = q_istar q, r_issparse = q_issparse q, r_isgenerated = q_isgenerated q,
      r_recursiondepth = ucast (q_recursiondepth q)\<rparr>"

definition mem_index_from_sql_rows :: "sql_mem_row list \<Rightarrow> mem_index option" where
  "mem_index_from_sql_rows qs =
     map_option finish
       (push_rows mb_new (map row_of_sql (filter (\<lambda>q. q_name q \<noteq> []) qs)))"

section \<open>The table the index stands for\<close>

text \<open>
  The abstract state: the rows inserted so far as an insert-or-replace table keyed by
  directory, name and header offset, in insertion order.
\<close>

type_synonym row_key = "string \<times> string \<times> i64"
type_synonym row_table = "(row_key \<times> file_row) list"

definition row_key :: "file_row \<Rightarrow> row_key" where
  "row_key r = (r_path r, r_name r, r_offsetheader r)"

definition table_push :: "row_table \<Rightarrow> file_row \<Rightarrow> row_table" where
  "table_push t r = (if r_name r = [] then t else AList.update (row_key r) r t)"

definition table_of :: "file_row list \<Rightarrow> row_table" where
  "table_of rows = foldl table_push [] rows"

text \<open>The versions of a name in a directory, oldest header offset first.\<close>

definition table_versions :: "row_table \<Rightarrow> string \<Rightarrow> string \<Rightarrow> file_row list" where
  "table_versions t p n =
     sort_key (\<lambda>r. sint (r_offsetheader r)) (filter (\<lambda>r. r_path r = p \<and> r_name r = n) (map snd t))"

definition table_dirs :: "row_table \<Rightarrow> string list" where
  "table_dirs t = '''' # map (\<lambda>(k, r). fst k) t"

definition table_resolve :: "row_table \<Rightarrow> string \<Rightarrow> string option" where
  "table_resolve t dir =
     (if dir = [] \<or> dir = ''/'' then Some ''''
      else if dir \<in> set (table_dirs t) then Some dir
      else
        let alt = (if starts_with dir ''/'' then trim_start_matches CHR ''/'' dir else ''/'' @ dir)
        in if alt \<in> set (table_dirs t) then Some alt else None)"

text \<open>The file info and the open cookie a row denotes.\<close>

definition row_info :: "file_row \<Rightarrow> file_info" where
  "row_info r =
     \<lparr>fi_size = max0 (r_size r), fi_mtime = r_mtime r, fi_mode = ucast (r_mode r),
      fi_linkname = r_linkname r, fi_uid = ucast (max0 (r_uid r)), fi_gid = ucast (max0 (r_gid r)),
      fi_userdata = [Tar \<lparr>td_offset = max0 (r_offset r),
        td_offsetheader = (if 0 \<le> sint (r_offsetheader r) then Some (r_offsetheader r) else None),
        td_istar = r_istar r, td_issparse = r_issparse r, td_isgenerated = r_isgenerated r,
        td_recursiondepth = ucast (max0 (r_recursiondepth r))\<rparr>]\<rparr>"

definition row_cookie :: "file_row \<Rightarrow> compact_open_cookie" where
  "row_cookie r =
     \<lparr>oc_offsetheader = r_offsetheader r, oc_offset = max0 (r_offset r), oc_size = max0 (r_size r),
      oc_mode = ucast (r_mode r), oc_istar = r_istar r, oc_issparse = r_issparse r,
      oc_isgenerated = r_isgenerated r, oc_recursiondepth = ucast (max0 (r_recursiondepth r))\<rparr>"

section \<open>The builder invariant\<close>

definition table_idxs :: "row_table \<Rightarrow> string \<Rightarrow> string \<Rightarrow> u32 list" where
  "table_idxs t p n =
     sort_key (\<lambda>i. sint (r_offsetheader (snd (t ! unat i))))
       (map of_nat (filter (\<lambda>j. r_path (snd (t ! j)) = p \<and> r_name (snd (t ! j)) = n) [0..<length t]))"

definition dir_versions :: "(u32 \<times> dir_entries) list \<Rightarrow> u32 \<Rightarrow> u32 \<Rightarrow> u32 list" where
  "dir_versions dirs pid nid =
     (case map_of dirs pid of None \<Rightarrow> []
      | Some d \<Rightarrow> (case map_of d nid of None \<Rightarrow> [] | Some v \<Rightarrow> v))"

definition row_stored :: "mem_index_builder \<Rightarrow> nat \<Rightarrow> file_row \<Rightarrow> bool" where
  "row_stored b j r \<longleftrightarrow>
     r_name r \<noteq> []
     \<and> (\<exists>pid nid lid. map_of (by_flat (mb_paths b)) (r_path r) = Some pid
          \<and> lookup_id (mb_pool b) (r_name r) = Some nid
          \<and> lookup_id (mb_pool b) (r_linkname r) = Some lid
          \<and> soa_entry (mb_soa b) j = entry_of_row lid r
          \<and> map_of (mb_by_key_oh b) (pid, nid, r_offsetheader r) = Some (of_nat j))"

definition keys_ok :: "mem_index_builder \<Rightarrow> row_table \<Rightarrow> bool" where
  "keys_ok b t \<longleftrightarrow>
     (\<forall>pid nid oh idx. map_of (mb_by_key_oh b) (pid, nid, oh) = Some idx \<longrightarrow>
        (\<exists>p n. map_of (by_flat (mb_paths b)) p = Some pid \<and> lookup_id (mb_pool b) n = Some nid
           \<and> unat idx < length t \<and> fst (t ! unat idx) = (p, n, oh)))"

definition dir_ok :: "mem_index_builder \<Rightarrow> dir_entries \<Rightarrow> bool" where
  "dir_ok b d \<longleftrightarrow> bt_sorted d \<and> d \<noteq> []
     \<and> (\<forall>nid v. map_of d nid = Some v \<longrightarrow> v \<noteq> [] \<and> (\<exists>n. lookup_id (mb_pool b) n = Some nid))"

definition dirs_ok :: "mem_index_builder \<Rightarrow> row_table \<Rightarrow> bool" where
  "dirs_ok b t \<longleftrightarrow>
     distinct (map fst (mb_dirs b))
     \<and> (\<forall>pid d. map_of (mb_dirs b) pid = Some d \<longrightarrow>
          dir_ok b d \<and> (\<exists>p. map_of (by_flat (mb_paths b)) p = Some pid))
     \<and> (\<forall>p pid n nid. map_of (by_flat (mb_paths b)) p = Some pid \<longrightarrow> lookup_id (mb_pool b) n = Some nid
          \<longrightarrow> dir_versions (mb_dirs b) pid nid = table_idxs t p n)"

definition mb_inv :: "mem_index_builder \<Rightarrow> row_table \<Rightarrow> bool" where
  "mb_inv b t \<longleftrightarrow>
     pool_inv (mb_pool b) \<and> pt_inv (mb_pool b) (mb_paths b)
     \<and> soa_ok (mb_soa b) \<and> soa_len (mb_soa b) = length t \<and> length t < 2 ^ 32
     \<and> distinct (map fst t) \<and> (\<forall>j < length t. fst (t ! j) = row_key (snd (t ! j)))
     \<and> (\<forall>j < length t. row_stored b j (snd (t ! j)))
     \<and> keys_ok b t \<and> dirs_ok b t
     \<and> mb_count b = of_nat (length t)"

lemma mb_invD:
  assumes "mb_inv b t"
  shows "pool_inv (mb_pool b)" "pt_inv (mb_pool b) (mb_paths b)" "soa_ok (mb_soa b)"
    "soa_len (mb_soa b) = length t" "length t < 2 ^ 32" "distinct (map fst t)"
    "\<And>j. j < length t \<Longrightarrow> fst (t ! j) = row_key (snd (t ! j))"
    "\<And>j. j < length t \<Longrightarrow> row_stored b j (snd (t ! j))"
    "keys_ok b t" "dirs_ok b t" "mb_count b = of_nat (length t)"
  using assms unfolding mb_inv_def by blast+

lemma mb_new_inv: "mb_inv mb_new []"
  by (auto simp: mb_inv_def mb_new_def keys_ok_def dirs_ok_def dir_versions_def table_idxs_def)

text \<open>Sorting by a key.\<close>

lemma sort_key_cong:
  "(\<And>x. x \<in> set xs \<Longrightarrow> f x = g x) \<Longrightarrow> sort_key f xs = sort_key g xs"
proof (induction xs)
  case (Cons x xs)
  have "insort_key f y ys = insort_key g y ys" if "\<forall>z \<in> insert y (set ys). f z = g z" for y ys
    using that by (induction ys) auto
  with Cons show ?case by simp
qed simp

lemma sort_key_map: "sort_key f (map g xs) = map g (sort_key (\<lambda>x. f (g x)) xs)"
proof (induction xs)
  case (Cons x xs)
  have "insort_key f (g y) (map g ys) = map g (insort_key (\<lambda>x. f (g x)) y ys)" for y ys
    by (induction ys) auto
  with Cons show ?case by simp
qed simp

lemma sort_key_snoc: "sort_key f (sort_key f xs @ [x]) = sort_key f (xs @ [x])"
proof (rule properties_for_sort_key)
  have "filter (\<lambda>y. f k = f y) (sort_key f zs) = filter (\<lambda>y. f k = f y) zs" for k zs
    using sort_key_stable [of f "f k" zs] by (simp add: eq_commute)
  then show "filter (\<lambda>y. f k = f y) (sort_key f (xs @ [x])) =
      filter (\<lambda>y. f k = f y) (sort_key f xs @ [x])" for k
    by simp
qed simp_all

text \<open>The version indices of a name as rows are appended or replaced in place.\<close>

definition matching :: "row_table \<Rightarrow> string \<Rightarrow> string \<Rightarrow> nat list" where
  "matching t p n = filter (\<lambda>j. r_path (snd (t ! j)) = p \<and> r_name (snd (t ! j)) = n) [0..<length t]"

lemma table_idxs_matching:
  "table_idxs t p n =
     sort_key (\<lambda>i. sint (r_offsetheader (snd (t ! unat i)))) (map of_nat (matching t p n))"
  by (simp add: table_idxs_def matching_def)

lemma matching_less: "j \<in> set (matching t p n) \<Longrightarrow> j < length t"
  by (auto simp: matching_def)

lemma matching_snoc:
  "matching (t @ [x]) p n =
     matching t p n @ (if r_path (snd x) = p \<and> r_name (snd x) = n then [length t] else [])"
  by (auto simp: matching_def nth_append intro!: filter_cong)

lemma matching_update:
  assumes "j < length t" "row_key r = row_key (snd (t ! j))"
  shows "matching (t[j := (k, r)]) p n = matching t p n"
  using assms by (auto simp: matching_def nth_list_update row_key_def intro!: filter_cong)

lemma table_idxs_snoc:
  assumes "length t < 2 ^ 32"
  shows "table_idxs (t @ [x]) p n =
    (if r_path (snd x) = p \<and> r_name (snd x) = n
     then sort_key (\<lambda>i. sint (r_offsetheader (snd ((t @ [x]) ! unat i))))
            (table_idxs t p n @ [of_nat (length t)])
     else table_idxs t p n)"
proof -
  let ?f = "\<lambda>i :: u32. sint (r_offsetheader (snd (t ! unat i)))"
  let ?g = "\<lambda>i :: u32. sint (r_offsetheader (snd ((t @ [x]) ! unat i)))"
  have "sort_key ?g (map of_nat (matching t p n)) = sort_key ?f (map of_nat (matching t p n))"
    using assms by (intro sort_key_cong) (auto simp: nth_append dest!: matching_less)
  then show ?thesis
    using sort_key_snoc [of ?g "map of_nat (matching t p n)" "of_nat (length t)"]
    by (simp add: table_idxs_matching matching_snoc)
qed

lemma table_idxs_update:
  assumes "j < length t" "row_key r = row_key (snd (t ! j))" "length t < 2 ^ 32"
  shows "table_idxs (t[j := (k, r)]) p n = table_idxs t p n"
proof -
  have "sort_key (\<lambda>i :: u32. sint (r_offsetheader (snd (t[j := (k, r)] ! unat i)))) (map of_nat (matching t p n))
      = sort_key (\<lambda>i. sint (r_offsetheader (snd (t ! unat i)))) (map of_nat (matching t p n))"
    using assms
    by (intro sort_key_cong) (auto simp: nth_list_update row_key_def dest!: matching_less)
  then show ?thesis
    by (simp add: table_idxs_matching matching_update [OF assms(1,2)])
qed

lemma table_idxs_rows:
  assumes "length t < 2 ^ 32"
  shows "map (\<lambda>i. snd (t ! unat i)) (table_idxs t p n) = table_versions t p n"
proof -
  have f: "filter (\<lambda>r. r_path r = p \<and> r_name r = n) (map snd t) = map (\<lambda>j. snd (t ! j)) (matching t p n)"
  proof -
    have "map snd t = map (\<lambda>j. snd (t ! j)) [0..<length t]"
      by (intro nth_equalityI) auto
    then show ?thesis
      by (simp add: matching_def filter_map o_def)
  qed
  have "map (\<lambda>i. snd (t ! unat i)) (map (of_nat :: nat \<Rightarrow> u32) (matching t p n)) = map (\<lambda>j. snd (t ! j)) (matching t p n)"
    using assms by (auto dest!: matching_less)
  then show ?thesis
    unfolding table_versions_def table_idxs_matching f
    by (simp only: flip: sort_key_map [where f = "\<lambda>r. sint (r_offsetheader r)"
          and g = "\<lambda>i. snd (t ! unat i)"])
qed

lemma table_idxs_set:
  "i \<in> set (table_idxs t p n) \<longleftrightarrow>
     (\<exists>j < length t. i = of_nat j \<and> r_path (snd (t ! j)) = p \<and> r_name (snd (t ! j)) = n)"
  by (auto simp: table_idxs_matching matching_def)

lemma table_idxs_empty:
  "(\<And>j. j < length t \<Longrightarrow> \<not> (r_path (snd (t ! j)) = p \<and> r_name (snd (t ! j)) = n)) \<Longrightarrow> table_idxs t p n = []"
  using table_idxs_set [of _ t p n] by (cases "table_idxs t p n") auto

section \<open>Pushing rows keeps the invariant\<close>

text \<open>Interning more directories and strings leaves the rows and the directory maps in place.\<close>

lemma row_storedE:
  assumes "row_stored b j r"
  obtains pid nid lid where "map_of (by_flat (mb_paths b)) (r_path r) = Some pid"
    "lookup_id (mb_pool b) (r_name r) = Some nid" "lookup_id (mb_pool b) (r_linkname r) = Some lid"
    "soa_entry (mb_soa b) j = entry_of_row lid r"
    "map_of (mb_by_key_oh b) (pid, nid, r_offsetheader r) = Some (of_nat j)" "r_name r \<noteq> []"
  using assms unfolding row_stored_def by blast

lemma dirs_okD:
  assumes "dirs_ok b t"
  shows "distinct (map fst (mb_dirs b))"
    "map_of (mb_dirs b) pid = Some d \<Longrightarrow> dir_ok b d"
    "map_of (mb_dirs b) pid = Some d \<Longrightarrow> \<exists>p. map_of (by_flat (mb_paths b)) p = Some pid"
    "map_of (by_flat (mb_paths b)) p = Some pid \<Longrightarrow> lookup_id (mb_pool b) n = Some nid \<Longrightarrow>
      dir_versions (mb_dirs b) pid nid = table_idxs t p n"
  using assms unfolding dirs_ok_def by blast+

lemma dirs_okI:
  assumes "distinct (map fst (mb_dirs b))"
    and "\<And>pid d. map_of (mb_dirs b) pid = Some d \<Longrightarrow> dir_ok b d"
    and "\<And>pid d. map_of (mb_dirs b) pid = Some d \<Longrightarrow> \<exists>p. map_of (by_flat (mb_paths b)) p = Some pid"
    and "\<And>p pid n nid. map_of (by_flat (mb_paths b)) p = Some pid \<Longrightarrow> lookup_id (mb_pool b) n = Some nid \<Longrightarrow>
      dir_versions (mb_dirs b) pid nid = table_idxs t p n"
  shows "dirs_ok b t"
  using assms unfolding dirs_ok_def by blast

lemma dir_versions_unknown:
  assumes ok: "dirs_ok b t" and pinv: "pool_inv pool'" and pt: "pt_inv pool' paths'"
    and ext: "\<forall>s i. lookup_id (mb_pool b) s = Some i \<longrightarrow> lookup_id pool' s = Some i"
    and extp: "\<forall>d i. map_of (by_flat (mb_paths b)) d = Some i \<longrightarrow> map_of (by_flat paths') d = Some i"
    and ids: "map_of (by_flat paths') p = Some pid" "lookup_id pool' n = Some nid"
    and unknown: "map_of (by_flat (mb_paths b)) p = None \<or> lookup_id (mb_pool b) n = None"
  shows "dir_versions (mb_dirs b) pid nid = []"
proof (rule ccontr)
  assume "dir_versions (mb_dirs b) pid nid \<noteq> []"
  then obtain d v where d: "map_of (mb_dirs b) pid = Some d" "map_of d nid = Some v"
    by (auto simp: dir_versions_def split: option.splits)
  with ok obtain p0 n0 where 0: "map_of (by_flat (mb_paths b)) p0 = Some pid"
    "lookup_id (mb_pool b) n0 = Some nid"
    unfolding dirs_ok_def dir_ok_def by blast
  have "p0 = p"
    using pt_invD(9) [OF pt] extp 0(1) ids(1) by blast
  moreover have "n0 = n"
    using pool.find_inj [OF pinv] ext 0(2) ids(2) by blast
  ultimately show False
    using 0 unknown by simp
qed

lemma mb_inv_extend:
  assumes inv: "mb_inv b t" and pinv: "pool_inv pool'" and pt: "pt_inv pool' paths'"
    and ext: "\<forall>s i. lookup_id (mb_pool b) s = Some i \<longrightarrow> lookup_id pool' s = Some i"
    and extp: "\<forall>d i. map_of (by_flat (mb_paths b)) d = Some i \<longrightarrow> map_of (by_flat paths') d = Some i"
  shows "mb_inv (b\<lparr>mb_paths := paths', mb_pool := pool'\<rparr>) t" (is "mb_inv ?b t")
proof -
  note D = mb_invD [OF inv]
  have rows: "row_stored ?b j (snd (t ! j))" if "j < length t" for j
    using D(8) [OF that] ext extp unfolding row_stored_def by simp blast
  have keys: "keys_ok ?b t"
    using D(9) ext extp unfolding keys_ok_def by simp blast
  have vers: "dir_versions (mb_dirs b) pid nid = table_idxs t p n"
    if ids: "map_of (by_flat paths') p = Some pid" "lookup_id pool' n = Some nid" for p pid n nid
  proof (cases "map_of (by_flat (mb_paths b)) p = None \<or> lookup_id (mb_pool b) n = None")
    case True
    then have "table_idxs t p n = []"
      using D(8) by (intro table_idxs_empty) (fastforce simp: row_stored_def)
    with dir_versions_unknown [OF D(10) pinv pt ext extp ids True] show ?thesis by simp
  next
    case False
    with ids ext extp have "map_of (by_flat (mb_paths b)) p = Some pid" "lookup_id (mb_pool b) n = Some nid"
      by (metis not_None_eq option.inject)+
    with D(10) show ?thesis unfolding dirs_ok_def by blast
  qed
  have dok: "dir_ok ?b d" if "dir_ok b d" for d
    using that ext unfolding dir_ok_def by simp blast
  have "dirs_ok ?b t"
  proof (rule dirs_okI)
    fix pid d
    assume "map_of (mb_dirs ?b) pid = Some d"
    then have d: "map_of (mb_dirs b) pid = Some d" by simp
    from dok [OF dirs_okD(2) [OF D(10) d]] show "dir_ok ?b d" .
    from dirs_okD(3) [OF D(10) d] extp show "\<exists>p. map_of (by_flat (mb_paths ?b)) p = Some pid"
      by auto
  qed (use dirs_okD(1) [OF D(10)] vers in simp_all)
  with D rows keys pinv pt show ?thesis
    unfolding mb_inv_def by simp
qed

text \<open>A row whose key is known is replaced in place.\<close>

lemma alist_update_nth:
  "distinct (map fst t) \<Longrightarrow> j < length t \<Longrightarrow> fst (t ! j) = k \<Longrightarrow> AList.update k v t = t[j := (k, v)]"
proof (induction t arbitrary: j)
  case (Cons x t)
  then show ?case by (cases x; cases j) (auto dest: nth_mem)
qed simp

lemma alist_update_new: "k \<notin> fst ` set t \<Longrightarrow> AList.update k v t = t @ [(k, v)]"
  by (induction t) auto

lemma mb_inv_replace:
  assumes inv: "mb_inv b t" and name: "r_name r \<noteq> []"
    and ids: "map_of (by_flat (mb_paths b)) (r_path r) = Some pid" "lookup_id (mb_pool b) (r_name r) = Some nid"
      "lookup_id (mb_pool b) (r_linkname r) = Some lid"
    and key: "map_of (mb_by_key_oh b) (pid, nid, r_offsetheader r) = Some idx"
  shows "\<exists>s. soa_replace (mb_soa b) idx (entry_of_row lid r) = Some s
    \<and> mb_inv (b\<lparr>mb_soa := s\<rparr>) (table_push t r)"
proof -
  note D = mb_invD [OF inv]
  obtain p n where pn: "map_of (by_flat (mb_paths b)) p = Some pid" "lookup_id (mb_pool b) n = Some nid"
    "unat idx < length t" "fst (t ! unat idx) = (p, n, r_offsetheader r)"
    using D(9) key unfolding keys_ok_def by blast
  define j where "j = unat idx"
  have "p = r_path r" "n = r_name r"
    using pt_invD(9) [OF D(2) pn(1) ids(1)] pool.find_inj [OF D(1) pn(2) ids(2)] by auto
  then have k: "fst (t ! j) = row_key r" and jl: "j < length t"
    using pn by (simp_all add: row_key_def j_def)
  then have rk: "row_key r = row_key (snd (t ! j))"
    using D(7) by simp
  let ?t = "t[j := (row_key r, r)]"
  have t': "table_push t r = ?t"
    using name alist_update_nth [OF D(6) jl k] by (simp add: table_push_def)
  obtain s where s: "soa_replace (mb_soa b) idx (entry_of_row lid r) = Some s" "soa_ok s"
    "soa_len s = length t" "\<forall>i < length t. soa_entry s i = (if i = j then entry_of_row lid r else soa_entry (mb_soa b) i)"
    using soa_replace_ok [OF D(3), of idx] pn(3) D(4) by (auto simp: j_def)
  have oj: "(of_nat j :: u32) = idx"
    by (simp add: j_def)
  have rows: "row_stored (b\<lparr>mb_soa := s\<rparr>) i (snd (?t ! i))" if "i < length ?t" for i
    using that D(8) [of i] s(4) ids key name oj
    unfolding row_stored_def by (cases "i = j") auto
  have fsts: "map fst ?t = map fst t"
    using k jl by (simp add: map_update list_update_same_conv)
  then have ft: "fst (?t ! i) = fst (t ! i)" if "i < length t" for i
    using k by (cases "i = j") (auto simp: jl)
  have "keys_ok (b\<lparr>mb_soa := s\<rparr>) ?t"
    using D(9) ft unfolding keys_ok_def by simp metis
  moreover have "dirs_ok (b\<lparr>mb_soa := s\<rparr>) ?t"
    using D(10) unfolding dirs_ok_def dir_ok_def by (simp add: table_idxs_update [OF jl rk D(5)])
  moreover have "fst (?t ! i) = row_key (snd (?t ! i))" if "i < length ?t" for i
    using that D(7) by (cases "i = j") auto
  ultimately have "mb_inv (b\<lparr>mb_soa := s\<rparr>) ?t"
    using D(1-6,11) s rows fsts unfolding mb_inv_def by simp
  with s t' show ?thesis by auto
qed

text \<open>A row with a new key is appended; its index joins the versions of its name.\<close>

definition add_version :: "(u32 \<times> dir_entries) list \<Rightarrow> u32 \<Rightarrow> u32 \<Rightarrow> u32 list \<Rightarrow> (u32 \<times> dir_entries) list" where
  "add_version dirs pid nid vs =
     AList.update pid
       (bt_insert nid vs (case map_of dirs pid of None \<Rightarrow> [] | Some d \<Rightarrow> d)) dirs"

lemma dir_versions_add:
  assumes "\<And>d. map_of dirs pid = Some d \<Longrightarrow> bt_sorted d"
  shows "dir_versions (add_version dirs pid nid vs) pid' nid' =
    (if pid' = pid \<and> nid' = nid then vs else dir_versions dirs pid' nid')"
  using assms by (auto simp: dir_versions_def add_version_def update_conv' split: option.splits)

lemma dir_ok_insert:
  assumes "d = [] \<or> dir_ok b d" "lookup_id (mb_pool b) n = Some nid" "vs \<noteq> []"
  shows "dir_ok b (bt_insert nid vs d)"
proof -
  have "bt_sorted d"
    using assms(1) by (auto simp: dir_ok_def)
  moreover have "bt_insert nid vs d \<noteq> []"
    by (cases d) auto
  ultimately show ?thesis
    using assms by (auto simp: dir_ok_def split: if_splits)
qed

lemma dirs_ok_push:
  assumes ok: "dirs_ok b t" and pinv: "pool_inv (mb_pool b)" and pt: "pt_inv (mb_pool b) (mb_paths b)"
    and len: "length t < 2 ^ 32"
    and ids: "map_of (by_flat (mb_paths b)) (r_path r) = Some pid" "lookup_id (mb_pool b) (r_name r) = Some nid"
    and b': "mb_paths b' = mb_paths b" "mb_pool b' = mb_pool b"
      "mb_dirs b' = add_version (mb_dirs b) pid nid (table_idxs (t @ [(k, r)]) (r_path r) (r_name r))"
  shows "dirs_ok b' (t @ [(k, r)])"
proof (rule dirs_okI)
  have sorted: "bt_sorted d" if "map_of (mb_dirs b) pid = Some d" for d
    using dirs_okD(2) [OF ok that] by (simp add: dir_ok_def)
  have ok': "dir_ok b' d \<longleftrightarrow> dir_ok b d" for d
    by (simp add: dir_ok_def b')
  show "distinct (map fst (mb_dirs b'))"
    using dirs_okD(1) [OF ok] by (simp add: b' add_version_def distinct_update)
  fix p' d
  assume d: "map_of (mb_dirs b') p' = Some d"
  have "of_nat (length t) \<in> set (table_idxs (t @ [(k, r)]) (r_path r) (r_name r))"
    by (auto simp: table_idxs_set)
  then have ne: "table_idxs (t @ [(k, r)]) (r_path r) (r_name r) \<noteq> []" by auto
  show "dir_ok b' d"
    using d dirs_okD(2) [OF ok] dir_ok_insert [OF _ ids(2) ne] dir_ok_insert [OF _ ids(2) ne, of "[]"]
    unfolding ok'
    by (auto simp: b' add_version_def update_conv' split: if_splits option.splits)
  show "\<exists>p. map_of (by_flat (mb_paths b')) p = Some p'"
    using d dirs_okD(3) [OF ok] ids(1)
    by (auto simp: b' add_version_def update_conv' split: if_splits)
next
  fix p pid' n nid'
  assume "map_of (by_flat (mb_paths b')) p = Some pid'" "lookup_id (mb_pool b') n = Some nid'"
  then have i': "map_of (by_flat (mb_paths b)) p = Some pid'" "lookup_id (mb_pool b) n = Some nid'"
    by (simp_all add: b')
  have "pid' = pid \<longleftrightarrow> r_path r = p"
    using pt_invD(9) [OF pt i'(1), of "r_path r"] i'(1) ids(1) by force
  moreover have "nid' = nid \<longleftrightarrow> r_name r = n"
    using pool.find_inj [OF pinv i'(2), of "r_name r"] i'(2) ids(2) by force
  moreover have "bt_sorted d" if "map_of (mb_dirs b) pid = Some d" for d
    using dirs_okD(2) [OF ok that] by (simp add: dir_ok_def)
  ultimately show "dir_versions (mb_dirs b') pid' nid' = table_idxs (t @ [(k, r)]) p n"
    using dirs_okD(4) [OF ok i'] table_idxs_snoc [OF len, of "(k, r)" p n]
    by (simp add: b' dir_versions_add)
qed

lemma mb_inv_push:
  assumes inv: "mb_inv b t" and name: "r_name r \<noteq> []" and len: "Suc (length t) < 2 ^ 32"
    and ids: "map_of (by_flat (mb_paths b)) (r_path r) = Some pid" "lookup_id (mb_pool b) (r_name r) = Some nid"
      "lookup_id (mb_pool b) (r_linkname r) = Some lid"
    and key: "map_of (mb_by_key_oh b) (pid, nid, r_offsetheader r) = None"
    and push: "soa_push (mb_soa b) (entry_of_row lid r) = (idx, s)"
    and b': "b' = b\<lparr>mb_soa := s,
      mb_by_key_oh := AList.update (pid, nid, r_offsetheader r) idx (mb_by_key_oh b),
      mb_dirs := add_version (mb_dirs b) pid nid
        (sort_key (\<lambda>i. sint (c_offsetheader s ! unat i)) (dir_versions (mb_dirs b) pid nid @ [idx])),
      mb_count := mb_count b + 1\<rparr>"
  shows "mb_inv b' (table_push t r)"
proof -
  note D = mb_invD [OF inv]
  let ?t = "t @ [(row_key r, r)]"
  note s = soa_push_ok [OF D(3) push, unfolded D(4)]
  have idx: "idx = of_nat (length t)" "unat idx = length t"
    using s len by auto
  have new: "row_key r \<noteq> fst (t ! j)" if "j < length t" for j
  proof
    assume "row_key r = fst (t ! j)"
    with D(7) [OF that] have "row_key (snd (t ! j)) = row_key r" by simp
    with D(8) [OF that] ids key show False by (auto simp: row_stored_def row_key_def)
  qed
  then have fresh: "row_key r \<notin> fst ` set t"
    by (auto simp: in_set_conv_nth) (metis fst_conv)
  then have t': "table_push t r = ?t"
    using name by (simp add: table_push_def alist_update_new)
  have rows: "row_stored b' j (snd (?t ! j))" if "j < length ?t" for j
  proof (cases "j = length t")
    case True
    with s ids name idx show ?thesis by (simp add: row_stored_def b' update_conv')
  next
    case False
    with that have j: "j < length t" by simp
    from D(8) [OF j] s j new [OF j] D(7) [OF j] ids pt_invD(9) [OF D(2)] pool.find_inj [OF D(1)] key
    show ?thesis by (fastforce simp: row_stored_def b' update_conv' nth_append)
  qed
  have keys: "keys_ok b' ?t"
    using D(9) ids idx unfolding keys_ok_def
    by (fastforce simp: b' update_conv' row_key_def nth_append split: if_splits)
  have oh: "c_offsetheader s ! unat i = r_offsetheader (snd (?t ! unat i))"
    if "i \<in> insert idx (set (table_idxs t (r_path r) (r_name r)))" for i
  proof -
    have "unat i < length ?t"
      using that idx D(5) by (auto simp: table_idxs_set)
    from rows [OF this] have "e_offsetheader (soa_entry s (unat i)) = r_offsetheader (snd (?t ! unat i))"
      by (auto simp: row_stored_def b' entry_of_row_def)
    then show ?thesis by (simp add: soa_entry_def)
  qed
  have "sort_key (\<lambda>i. sint (c_offsetheader s ! unat i)) (dir_versions (mb_dirs b) pid nid @ [idx])
      = table_idxs ?t (r_path r) (r_name r)"
    using oh dirs_okD(4) [OF D(10) ids(1,2)] table_idxs_snoc [OF D(5), of "(row_key r, r)"] idx
    by (auto intro!: sort_key_cong)
  then have dirs: "dirs_ok b' ?t"
    by (intro dirs_ok_push [OF D(10,1,2,5) ids(1,2)]) (simp_all add: b')
  have "fst (?t ! j) = row_key (snd (?t ! j))" if "j < length ?t" for j
    using that D(7) by (cases "j = length t") (auto simp: nth_append)
  then show ?thesis
    using D(1,2,6,11) s len rows keys dirs fresh unfolding mb_inv_def t' by (simp add: b')
qed

text \<open>
  Room for \<open>n\<close> more ids and bytes: below it every \<open>u32\<close> the builder hands out is exact. A row
  takes at most \<open>row_weight\<close> of it.
\<close>

definition row_weight :: "file_row \<Rightarrow> nat" where
  "row_weight r = length (r_path r) + length (r_name r) + length (r_linkname r) + 3"

definition rows_weight :: "file_row list \<Rightarrow> nat" where
  "rows_weight rs = sum_list (map row_weight rs)"

definition mb_room :: "mem_index_builder \<Rightarrow> row_table \<Rightarrow> nat \<Rightarrow> bool" where
  "mb_room b t n \<longleftrightarrow> pool_room (mb_pool b) n n \<and> pt_room (mb_paths b) n n \<and> length t + n < 2 ^ 32"

definition mb_rep :: "mem_index_builder \<Rightarrow> row_table \<Rightarrow> bool" where
  "mb_rep b t \<longleftrightarrow> mb_inv b t \<and> dom (map_of (by_flat (mb_paths b))) = set (table_dirs t)"

lemma table_dirs_push:
  "r_name r \<noteq> [] \<Longrightarrow> set (table_dirs (table_push t r)) = insert (r_path r) (set (table_dirs t))"
proof -
  have "fst ` fst ` set (AList.update (row_key r) r t) = insert (r_path r) (fst ` fst ` set t)"
    by (simp add: dom_update row_key_def)
  moreover have "set (table_dirs u) = insert '''' (fst ` fst ` set u)" for u
    by (force simp: table_dirs_def)
  ultimately show "r_name r \<noteq> [] \<Longrightarrow> ?thesis"
    by (auto simp: table_push_def)
qed

lemma table_push_length: "length (table_push t r) \<le> Suc (length t)"
proof -
  have "length (AList.update k v u) \<le> Suc (length u)" for k :: row_key and v :: file_row and u
    by (induction u) auto
  then show ?thesis by (simp add: table_push_def)
qed

text \<open>The three strings of a row are interned.\<close>

lemma push_row_intern:
  assumes rep: "mb_rep b t" and room: "mb_room b t (row_weight r + n)"
    and i: "intern_dir (mb_paths b) (mb_pool b) (r_path r) = (pid, paths1, pool1)"
      "intern_id pool1 (r_name r) = (nid, pool2)" "intern_id pool2 (r_linkname r) = (lid, pool3)"
  shows "mb_inv (b\<lparr>mb_paths := paths1, mb_pool := pool3\<rparr>) t
    \<and> map_of (by_flat paths1) = (map_of (by_flat (mb_paths b)))(r_path r \<mapsto> pid)
    \<and> lookup_id pool3 (r_name r) = Some nid \<and> lookup_id pool3 (r_linkname r) = Some lid
    \<and> pool_room pool3 n n \<and> pt_room paths1 n n"
proof -
  let ?c = "length (r_name r) + length (r_linkname r) + n"
  have inv: "mb_inv b t" using rep by (simp add: mb_rep_def)
  note D = mb_invD [OF inv]
  have "pool_room (mb_pool b) (length (r_path r) + Suc (Suc n)) (length (r_path r) + ?c)"
    "pt_room (mb_paths b) (Suc n) (length (r_path r) + n)"
    using room by (auto simp: mb_room_def pool_room_def pt_room_def row_weight_def)
  note 1 = intern_dir_ok [OF D(1,2) this i(1)]
  have r1: "pool_room pool1 (Suc (Suc n)) (length (r_name r) + (length (r_linkname r) + n))"
    using 1 by (simp add: add.assoc)
  have f1: "pool_fits pool1 (r_name r)"
    using r1 by (rule pool_room_fits) auto
  have inv1: "pool_inv pool1" using 1 by simp
  have i2: "Some (intern_id pool1 (r_name r)) = Some (nid, pool2)" using i(2) by simp
  note 2 = pool_room_intern [OF inv1 r1 i(2)]
  then have "pool_room pool2 (Suc n) (length (r_linkname r) + n)" by simp
  then have f2: "pool_fits pool2 (r_linkname r)"
    by (rule pool_room_fits) auto
  have inv2: "pool_inv pool2" using 2 by simp
  have i3: "Some (intern_id pool2 (r_linkname r)) = Some (lid, pool3)" using i(3) by simp
  have 3: "pool_room pool3 n n \<and> pool_inv pool3"
    using pool_room_intern [OF inv2 _ i(3), of n n] 2 by simp
  note k2 = pool.intern_keeps [OF inv1 f1 i2] and k3 = pool.intern_keeps [OF inv2 f2 i3]
  have keep: "\<forall>s j. lookup_id pool1 s = Some j \<longrightarrow> lookup_id pool3 s = Some j"
    using k2 k3 by blast
  then have keep0: "\<forall>s j. lookup_id (mb_pool b) s = Some j \<longrightarrow> lookup_id pool3 s = Some j"
    using 1 by blast
  have "lookup_id pool2 (r_name r) = Some nid" "lookup_id pool3 (r_linkname r) = Some lid"
    using pool.intern_find [OF inv1 f1 i2] pool.intern_find [OF inv2 f2 i3] by auto
  moreover have "lookup_id pool3 (r_name r) = Some nid"
    using k3 calculation(1) by blast
  moreover have "pt_inv pool3 paths1"
    using 1 pt_inv_pool_mono [OF _ keep] by blast
  moreover have "\<forall>d j. map_of (by_flat (mb_paths b)) d = Some j \<longrightarrow> map_of (by_flat paths1) d = Some j"
    using 1 i(1) by (auto simp: intern_dir_known)
  ultimately show ?thesis
    using mb_inv_extend [OF inv _ _ keep0, of paths1] 1 3 by simp
qed

lemma push_row_skip: "r_name r = [] \<Longrightarrow> push_row b r = Some b \<and> table_push t r = t"
  by (simp add: push_row_def table_push_def)

lemma push_row_rep:
  assumes rep: "mb_rep b t" and room: "mb_room b t (row_weight r + n)"
  shows "\<exists>b'. push_row b r = Some b' \<and> mb_rep b' (table_push t r) \<and> mb_room b' (table_push t r) n"
proof (cases "r_name r = []")
  case True
  with rep room show ?thesis
    by (auto simp: push_row_skip mb_room_def pool_room_def pt_room_def)
next
  case name: False
  obtain pid paths1 pool1 nid pool2 lid pool3 where
    i: "intern_dir (mb_paths b) (mb_pool b) (r_path r) = (pid, paths1, pool1)"
      "intern_id pool1 (r_name r) = (nid, pool2)" "intern_id pool2 (r_linkname r) = (lid, pool3)"
    by (metis prod.exhaust)
  let ?b = "b\<lparr>mb_paths := paths1, mb_pool := pool3\<rparr>"
  note I = push_row_intern [OF rep room i]
  have ids: "map_of (by_flat (mb_paths ?b)) (r_path r) = Some pid"
    "lookup_id (mb_pool ?b) (r_name r) = Some nid" "lookup_id (mb_pool ?b) (r_linkname r) = Some lid"
    and inv: "mb_inv ?b t"
    using I by auto
  have "\<exists>b'. push_row b r = Some b' \<and> mb_inv b' (table_push t r)
      \<and> mb_paths b' = paths1 \<and> mb_pool b' = pool3"
  proof (cases "map_of (mb_by_key_oh b) (pid, nid, r_offsetheader r)")
    case (Some idx)
    then show ?thesis
      using mb_inv_replace [OF inv name ids, of idx] name i
      by (auto simp: push_row_def)
  next
    case None
    obtain idx s where s: "soa_push (mb_soa b) (entry_of_row lid r) = (idx, s)" by force
    have "Suc (length t) < 2 ^ 32"
      using room by (simp add: mb_room_def row_weight_def)
    from mb_inv_push [OF inv name this ids _ _ refl, of idx s] None s
    show ?thesis
      using name i
      by (auto simp: push_row_def add_version_def dir_versions_def Let_def split: option.splits)
  qed
  moreover have "dom (map_of (by_flat paths1)) = set (table_dirs (table_push t r))"
    using I rep by (auto simp: table_dirs_push [OF name] mb_rep_def)
  moreover have "length (table_push t r) + n < 2 ^ 32"
    using room table_push_length [of t r] by (simp add: mb_room_def row_weight_def)
  ultimately show ?thesis
    using I by (auto simp: mb_rep_def mb_room_def)
qed

lemma push_rows_rep:
  assumes "mb_rep b t" "mb_room b t (rows_weight rs + n)"
  shows "\<exists>b'. push_rows b rs = Some b' \<and> mb_rep b' (foldl table_push t rs)
    \<and> mb_room b' (foldl table_push t rs) n"
  using assms
proof (induction rs arbitrary: b t)
  case (Cons r rs)
  have "mb_room b t (row_weight r + (rows_weight rs + n))"
    using Cons.prems(2) by (simp add: rows_weight_def add.assoc)
  from push_row_rep [OF Cons.prems(1) this] Cons.IH show ?case by auto
qed (simp add: rows_weight_def)

text \<open>Building from scratch never panics while the rows fit, and represents their table.\<close>

lemma push_rows_new:
  assumes "rows_weight rs + 2 < 2 ^ 32"
  shows "\<exists>b. push_rows mb_new rs = Some b \<and> mb_rep b (table_of rs)"
proof -
  have "mb_rep mb_new []"
    using mb_new_inv by (auto simp: mb_rep_def mb_new_def pt_new_def table_dirs_def)
  moreover have "mb_room mb_new [] (rows_weight rs + 0)"
    using assms by (simp add: mb_room_def mb_new_def pool_room_def pool_new_def pt_room_def pt_new_def)
  ultimately show ?thesis
    using push_rows_rep [of mb_new "[]" rs 0] unfolding table_of_def by blast
qed

end
