(* ===== verification/Mem_Refinement.thy ===== *)
theory Mem_Refinement
  imports Mem_Index
begin

text \<open>
  The finished in-memory index against the table of its rows: the queries of \<open>MemIndex\<close> answer
  what the insert-or-replace table says, whatever the shard layout. The abstract queries are
  \<open>table_lookup\<close> and \<open>table_list\<close> below.
\<close>

section \<open>The table's queries\<close>

text \<open>
  Version \<open>v > 0\<close> counts from the oldest; \<open>v \<le> 0\<close> counts back from the newest and stops at the
  oldest.
\<close>

definition pick_version :: "int \<Rightarrow> 'a list \<Rightarrow> 'a option" where
  "pick_version v vs =
     (if vs = [] then None
      else if v \<le> 0 then Some (vs ! (length vs - 1 - nat (- v)))
      else if nat v \<le> length vs then Some (vs ! (nat v - 1)) else None)"

definition table_lookup :: "row_table \<Rightarrow> string \<Rightarrow> string \<Rightarrow> int \<Rightarrow> file_row option" where
  "table_lookup t dir name v =
     Option.bind (table_resolve t dir) (\<lambda>p. pick_version v (table_versions t p name))"

definition dir_rows :: "row_table \<Rightarrow> string \<Rightarrow> file_row list" where
  "dir_rows t p = sort_key (\<lambda>r. sint (r_offsetheader r)) (filter (\<lambda>r. r_path r = p) (map snd t))"

definition table_list :: "(file_row \<Rightarrow> 'a) \<Rightarrow> row_table \<Rightarrow> string \<Rightarrow> (string \<times> 'a) list option" where
  "table_list f t dir =
     Option.bind (table_resolve t dir) (\<lambda>p.
       if dir_rows t p = [] then None else Some (bt_collect r_name f (dir_rows t p)))"

section \<open>Shards\<close>

lemma shard_of_less [simp]: "shard_of pid < 32"
proof -
  have "pid mod 32 < 32"
    by (rule word_mod_less_divisor) simp
  then show ?thesis
    by (simp add: shard_of_def DIR_SHARD_COUNT_def word_less_nat_alt)
qed

lemma fill_shards_length [simp]: "length (fill_shards shards ds) = length shards"
  by (induction ds arbitrary: shards) auto

lemma fill_shards_lookup:
  "distinct (map fst ds) \<Longrightarrow> length shards = 32 \<Longrightarrow>
   map_of (fill_shards shards ds ! shard_of pid) pid =
     (case map_of ds pid of Some d \<Rightarrow> Some d | None \<Rightarrow> map_of (shards ! shard_of pid) pid)"
proof (induction ds arbitrary: shards)
  case (Cons x ds)
  obtain q de where x: "x = (q, de)" by force
  have "map_of ds q = None"
    using Cons.prems x by (simp add: map_of_eq_None_iff)
  with Cons x show ?case
    by (cases "pid = q"; cases "shard_of pid = shard_of q")
      (auto simp: update_conv' split: option.splits)
qed simp

lemma concat_snoc_at:
  "i < length xs \<Longrightarrow>
   mset (concat (xs[i := xs ! i @ [y]])) = add_mset y (mset (concat xs))"
  by (induction xs arbitrary: i) (auto split: nat.splits)

lemma fill_shards_mset:
  "distinct (map fst ds) \<Longrightarrow> length shards = 32 \<Longrightarrow>
   (\<forall>s \<in> set shards. fst ` set s \<inter> fst ` set ds = {}) \<Longrightarrow>
   mset (concat (fill_shards shards ds)) = mset (concat shards) + mset ds"
proof (induction ds arbitrary: shards)
  case (Cons x ds)
  obtain q de where x: "x = (q, de)" by force
  let ?i = "shard_of q"
  let ?s = "AList.update q de (shards ! ?i)"
  have i: "?i < length shards" using Cons.prems(2) by simp
  have "q \<notin> fst ` set (shards ! ?i)"
    using Cons.prems(3) nth_mem [OF i] x by auto
  then have s: "?s = shards ! ?i @ [(q, de)]"
    by (simp add: alist_update_new)
  have "mset (concat (shards[?i := ?s])) = add_mset (q, de) (mset (concat shards))"
    unfolding s using concat_snoc_at [OF i] by simp
  moreover have "\<forall>u \<in> set (shards[?i := ?s]). fst ` set u \<inter> fst ` set ds = {}"
  proof
    fix u
    assume "u \<in> set (shards[?i := ?s])"
    then have "u \<in> insert ?s (set shards)" using set_update_subset_insert by fast
    moreover have "fst ` set (shards ! ?i) \<inter> fst ` set ds = {}" "q \<notin> fst ` set ds"
      using Cons.prems(1,3) x nth_mem [OF i] by auto
    then have "fst ` set ?s \<inter> fst ` set ds = {}"
      unfolding s by (simp add: image_Un Int_Un_distrib2)
    moreover have "\<forall>w \<in> set shards. fst ` set w \<inter> fst ` set ds = {}"
      using Cons.prems(3) x by simp
    ultimately show "fst ` set u \<inter> fst ` set ds = {}" by blast
  qed
  ultimately show ?case
    using Cons x by simp
qed simp

lemma finish_dir_entries:
  "distinct (map fst (mb_dirs b)) \<Longrightarrow> mi_dir_entries (finish b) pid = map_of (mb_dirs b) pid"
  by (simp add: mi_dir_entries_def finish_def Let_def DIR_SHARD_COUNT_def fill_shards_lookup
      split: option.splits)

lemma finish_path_ids:
  assumes "distinct (map fst (mb_dirs b))"
  shows "all_path_ids (finish b) = sort (map fst (mb_dirs b))"
proof -
  have "mset (concat (map (map fst) (fill_shards (replicate 32 []) (mb_dirs b)))) = mset (map fst (mb_dirs b))"
    using fill_shards_mset [OF assms, of "replicate 32 []"] by (simp flip: map_concat)
  then have "sort (concat (map (map fst) (fill_shards (replicate 32 []) (mb_dirs b)))) = sort (map fst (mb_dirs b))"
    by (intro properties_for_sort) simp_all
  then show ?thesis
    by (simp add: all_path_ids_def finish_def Let_def DIR_SHARD_COUNT_def)
qed

lemma finish_frame [simp]:
  "mi_pool (finish b) = seal (mb_pool b)" "mi_paths (finish b) = mb_paths b"
  "mi_soa (finish b) = mb_soa b" "mi_count (finish b) = mb_count b"
  by (simp_all add: finish_def Let_def)

section \<open>Versions\<close>

text \<open>The index arithmetic on words is the arithmetic on integers, for lists below \<open>2^31\<close>.\<close>

lemma uint_scast_i32: "uint (scast (w :: i32) :: u64) = take_bit 64 (sint w)"
  by transfer simp

lemma unat_scast_nonneg: "0 \<le> sint w \<Longrightarrow> unat (scast (w :: i32) :: u64) = nat (sint w)"
proof -
  assume "0 \<le> sint w"
  moreover have "sint w < 2 ^ 31" using sint_lt [of w] by simp
  ultimately have "take_bit 64 (sint w) = sint w" by (intro take_bit_int_eq_self) auto
  then show ?thesis by (simp only: unat_eq_nat_uint uint_scast_i32)
qed

lemma sint_minus_i32: "sint (v :: i32) \<noteq> - (2 ^ 31) \<Longrightarrow> sint (- v) = - sint v"
  using sint_ge [of v] sint_lt [of v]
  by (simp add: sint_word_ariths signed_take_bit_int_eq_self)

lemma version_slot_int:
  assumes "len \<le> 2 ^ 31"
  shows "version_slot v len =
    (if sint v \<le> 0 then len - 1 - nat (- sint v) else nat (sint v) - 1)"
proof (cases "sint v = - (2 ^ 31)")
  case True
  have "v = of_int (sint v)" by simp
  then have v: "v = 0x80000000" unfolding True by simp
  have "unat (scast (- v) :: u64) = 0xFFFFFFFF80000000"
    by (simp add: v)
  with assms True show ?thesis
    by (simp add: version_slot_def Let_def)
next
  case False
  then show ?thesis
    by (auto simp: version_slot_def Let_def unat_scast_nonneg sint_minus_i32)
qed

lemma pick_version_slot:
  assumes "length vs \<le> 2 ^ 31"
  shows "pick_version (sint v) vs =
    (if vs = [] then None
     else let i = version_slot v (length vs) in if i < length vs then Some (vs ! i) else None)"
proof (cases "vs = [] \<or> sint v \<le> 0")
  case True
  then show ?thesis
    unfolding pick_version_def Let_def version_slot_int [OF assms] by (cases vs) auto
next
  case False
  then have "nat (sint v) \<le> length vs \<longleftrightarrow> nat (sint v) - 1 < length vs"
    by linarith
  with False show ?thesis
    unfolding pick_version_def Let_def version_slot_int [OF assms] by simp
qed

lemma pick_version_map: "pick_version v (map f vs) = map_option f (pick_version v vs)"
  by (auto simp: pick_version_def)

lemma pick_version_in: "pick_version v vs = Some x \<Longrightarrow> x \<in> set vs"
  by (auto simp: pick_version_def split: if_splits intro!: nth_mem)

section \<open>Lookups\<close>

lemma finish_resolve_path:
  assumes "mb_rep b t"
  shows "resolve_path_id (finish b) dir =
    Option.bind (table_resolve t dir) (map_of (by_flat (mb_paths b)))"
proof -
  have dom: "d \<in> set (table_dirs t) \<longleftrightarrow> map_of (by_flat (mb_paths b)) d \<noteq> None" for d
    using assms by (auto simp: mb_rep_def)
  have "map_of (by_flat (mb_paths b)) '''' = Some 0"
    using assms mb_invD(2) pt_invD(6) by (auto simp: mb_rep_def)
  then show ?thesis
    by (auto simp: resolve_path_id_def table_resolve_def dom Let_def split: option.splits)
qed

lemma finish_dir_versions:
  assumes "mb_rep b t"
  shows "mi_versions (finish b) dir name =
    Option.bind (table_resolve t dir) (\<lambda>p.
      if table_idxs t p name = [] then None else Some (table_idxs t p name))"
proof (cases "table_resolve t dir")
  case None
  with finish_resolve_path [OF assms] show ?thesis
    by (simp add: mi_versions_def)
next
  case (Some p)
  have inv: "mb_inv b t" using assms by (simp add: mb_rep_def)
  note D = mb_invD [OF inv]
  have "p \<in> set (table_dirs t)"
    using Some by (auto simp: table_resolve_def table_dirs_def Let_def split: if_splits)
  then obtain pid where pid: "map_of (by_flat (mb_paths b)) p = Some pid"
    using assms by (auto simp: mb_rep_def)
  have de: "mi_dir_entries (finish b) q = map_of (mb_dirs b) q" for q
    by (rule finish_dir_entries) (rule dirs_okD(1) [OF D(10)])
  show ?thesis
  proof (cases "lookup_id (mb_pool b) name")
    case None
    then have "table_idxs t p name = []"
      using D(8) by (intro table_idxs_empty) (fastforce simp: row_stored_def)
    with None Some pid show ?thesis
      by (simp add: mi_versions_def finish_resolve_path [OF assms] resolve_name_id_def D(1))
  next
    case (Some nid)
    have v: "dir_versions (mb_dirs b) pid nid = table_idxs t p name"
      by (rule dirs_okD(4) [OF D(10) pid Some])
    have "v \<noteq> []" if "map_of (mb_dirs b) pid = Some d" "map_of d nid = Some v" for d v
      using dirs_okD(2) [OF D(10) that(1)] that(2) by (auto simp: dir_ok_def)
    with v Some \<open>table_resolve t dir = Some p\<close> pid show ?thesis
      by (auto simp: mi_versions_def finish_resolve_path [OF assms] resolve_name_id_def D(1) de
          dir_versions_def split: option.splits)
  qed
qed

text \<open>What the columns say of a stored row.\<close>

lemma stored_row_info:
  assumes "mb_rep b t" "j < length t"
  shows "to_file_info (mb_soa b) (seal (mb_pool b)) (of_nat j) = row_info (snd (t ! j))"
    and "open_cookie (mb_soa b) (of_nat j) = row_cookie (snd (t ! j))"
    and "soa_entry (mb_soa b) j = entry_of_row (e_linkname_id (soa_entry (mb_soa b) j)) (snd (t ! j))"
    and "pool_get (mb_pool b) (e_linkname_id (soa_entry (mb_soa b) j)) = r_linkname (snd (t ! j))"
proof -
  have inv: "mb_inv b t" using assms by (simp add: mb_rep_def)
  note D = mb_invD [OF inv]
  obtain lid where l: "lookup_id (mb_pool b) (r_linkname (snd (t ! j))) = Some lid"
    "soa_entry (mb_soa b) j = entry_of_row lid (snd (t ! j))"
    using D(8) [OF assms(2)] by (elim row_storedE)
  have u: "unat (of_nat j :: u32) = j"
    using assms(2) D(5) by simp
  have g: "pool_get (mb_pool b) lid = r_linkname (snd (t ! j))"
    by (rule pool.find_get [OF D(1) l(1)])
  show "to_file_info (mb_soa b) (seal (mb_pool b)) (of_nat j) = row_info (snd (t ! j))"
    unfolding to_file_info_def row_info_def u l(2) by (simp add: entry_of_row_def frame_simps g)
  show "open_cookie (mb_soa b) (of_nat j) = row_cookie (snd (t ! j))"
    unfolding open_cookie_def row_cookie_def u l(2) by (simp add: entry_of_row_def)
  show "soa_entry (mb_soa b) j = entry_of_row (e_linkname_id (soa_entry (mb_soa b) j)) (snd (t ! j))"
    "pool_get (mb_pool b) (e_linkname_id (soa_entry (mb_soa b) j)) = r_linkname (snd (t ! j))"
    unfolding l(2) by (simp_all add: entry_of_row_def g)
qed

lemma table_idxs_length: "length (table_idxs t p n) \<le> length t"
  using length_filter_le [of _ "[0..<length t]"] by (simp add: table_idxs_def)

lemma finish_lookup_index:
  assumes "mb_rep b t" "length t \<le> 2 ^ 31"
  shows "lookup_entry_index (finish b) dir name v =
    Option.bind (table_resolve t dir) (\<lambda>p. pick_version (sint v) (table_idxs t p name))"
proof (cases "table_resolve t dir")
  case (Some p)
  have "length (table_idxs t p name) \<le> 2 ^ 31"
    using table_idxs_length [of t p name] assms(2) by simp
  with Some show ?thesis
    by (simp add: lookup_entry_index_def finish_dir_versions [OF assms(1)] pick_version_slot)
qed (simp add: lookup_entry_index_def finish_dir_versions [OF assms(1)])

text \<open>Reading a picked version through the columns is picking among the rows.\<close>

lemma finish_lookup_with:
  assumes rep: "mb_rep b t" and len: "length t \<le> 2 ^ 31"
    and g: "\<And>j. j < length t \<Longrightarrow> g (of_nat j) = f (snd (t ! j))"
  shows "map_option g (lookup_entry_index (finish b) dir name v) =
    map_option f (table_lookup t dir name (sint v))"
proof (cases "table_resolve t dir")
  case (Some p)
  have l32: "length t < 2 ^ 32" using len by simp
  have "map_option g (pick_version (sint v) (table_idxs t p name))
      = map_option (\<lambda>i. f (snd (t ! unat i))) (pick_version (sint v) (table_idxs t p name))"
    using g l32 by (intro map_option_cong refl) (auto simp: table_idxs_set dest!: pick_version_in)
  also have "\<dots> = map_option f (pick_version (sint v) (map (\<lambda>i. snd (t ! unat i)) (table_idxs t p name)))"
    by (simp add: pick_version_map option.map_comp o_def)
  finally show ?thesis
    using Some by (simp add: finish_lookup_index [OF rep len] table_lookup_def table_idxs_rows [OF l32])
qed (simp add: finish_lookup_index [OF rep len] table_lookup_def)

section \<open>Listings\<close>

lemma table_versions_dir_rows: "table_versions t p n = filter (\<lambda>r. r_name r = n) (dir_rows t p)"
  by (simp add: table_versions_def dir_rows_def filter_sort conj_commute)

lemma dir_rows_Nil: "dir_rows t p = [] \<longleftrightarrow> (\<forall>n. table_versions t p n = [])"
  unfolding table_versions_dir_rows by (cases "dir_rows t p") (auto simp: filter_empty_conv)

lemma table_idxs_Nil: "length t < 2 ^ 32 \<Longrightarrow> table_idxs t p n = [] \<longleftrightarrow> table_versions t p n = []"
  using table_idxs_rows [of t p n] by (metis map_is_Nil_conv)

text \<open>A directory map collected by name is the collected list of the directory's rows.\<close>

lemma dir_collect:
  assumes rep: "mb_rep b t" and pid: "map_of (by_flat (mb_paths b)) p = Some pid"
    and d: "map_of (mb_dirs b) pid = Some d"
    and g: "\<And>nid i. i < length t \<Longrightarrow> lookup_id (mb_pool b) (r_name (snd (t ! i))) = Some nid \<Longrightarrow>
      r_path (snd (t ! i)) = p \<Longrightarrow> g nid (of_nat i) = f (snd (t ! i))"
  shows "bt_collect (\<lambda>(nid, versions). pool_get (seal (mb_pool b)) nid) (\<lambda>(nid, versions). g nid (last versions)) d
    = bt_collect r_name f (dir_rows t p)"
proof (rule bt_sorted_eqI)
  have inv: "mb_inv b t" using rep by (simp add: mb_rep_def)
  note D = mb_invD [OF inv]
  have ok: "dir_ok b d" by (rule dirs_okD(2) [OF D(10) d])
  have known: "\<exists>n. lookup_id (mb_pool b) n = Some nid" if "(nid, v) \<in> set d" for nid v
    using ok that bt_sorted_distinct [of d] by (auto simp: dir_ok_def)
  show "map_of (bt_collect (\<lambda>(nid, versions). pool_get (seal (mb_pool b)) nid) (\<lambda>(nid, versions). g nid (last versions)) d)
      = map_of (bt_collect r_name f (dir_rows t p))" (is "?l = ?r")
  proof
    fix s
    show "?l s = ?r s"
    proof (cases "lookup_id (mb_pool b) s")
      case None
      have "filter (\<lambda>x. pool_get (mb_pool b) (fst x) = s) d = []"
        using known pool.find_get [OF D(1)] None by (fastforce simp: filter_empty_conv)
      moreover have "table_versions t p s = []"
        using None D(8) by (fastforce simp: table_idxs_Nil [OF D(5), symmetric] row_stored_def intro!: table_idxs_empty)
      ultimately show ?thesis
        by (simp add: map_of_bt_collect frame_simps case_prod_beta table_versions_dir_rows)
    next
      case (Some nid)
      have "pool_get (mb_pool b) (fst x) = s \<longleftrightarrow> fst x = nid" if "x \<in> set d" for x
        using known [of "fst x" "snd x"] that pool.find_get [OF D(1)] pool.find_inj [OF D(1)] Some by fastforce
      then have "filter (\<lambda>x. pool_get (mb_pool b) (fst x) = s) d = filter (\<lambda>x. fst x = nid) d"
        by (rule filter_cong [OF refl])
      also have "\<dots> = (case map_of d nid of None \<Rightarrow> [] | Some v \<Rightarrow> [(nid, v)])"
        using ok by (intro filter_fst bt_sorted_distinct) (simp add: dir_ok_def)
      also have "map_of d nid = (if table_idxs t p s = [] then None else Some (table_idxs t p s))"
        using dirs_okD(4) [OF D(10) pid Some] d ok
        by (cases "map_of d nid") (auto simp: dir_versions_def dir_ok_def)
      also have "(case \<dots> of None \<Rightarrow> [] | Some v \<Rightarrow> [(nid, v)]) =
          (if table_idxs t p s = [] then [] else [(nid, table_idxs t p s)])"
        by simp
      finally have l: "?l s = (if table_idxs t p s = [] then None else Some (g nid (last (table_idxs t p s))))"
        by (simp add: map_of_bt_collect frame_simps case_prod_beta)
      have "g nid (last (table_idxs t p s)) = f (last (table_versions t p s))" if ne: "table_idxs t p s \<noteq> []"
      proof -
        obtain i where i: "i < length t" "last (table_idxs t p s) = of_nat i" "r_path (snd (t ! i)) = p" "r_name (snd (t ! i)) = s"
          using last_in_set [OF ne] unfolding table_idxs_set by blast
        have "last (table_versions t p s) = snd (t ! unat (last (table_idxs t p s)))"
          unfolding table_idxs_rows [OF D(5), symmetric] by (rule last_map [OF ne])
        then show ?thesis using i g [OF i(1)] Some D(5) by simp
      qed
      with l show ?thesis
        by (auto simp: map_of_bt_collect table_idxs_Nil [OF D(5)] table_versions_dir_rows)
    qed
  qed
qed simp_all

text \<open>The dirent a row denotes.\<close>

definition row_dirent :: "file_row \<Rightarrow> index_dirent" where
  "row_dirent r =
     \<lparr>id_name = r_name r, id_mode = ucast (r_mode r), id_size = max0 (r_size r),
      id_linkname = r_linkname r, id_cookie = row_cookie r\<rparr>"

lemma stored_dirent:
  assumes "mb_rep b t" "j < length t"
  shows "index_dirent_of (finish b) (r_name (snd (t ! j))) (of_nat j) = row_dirent (snd (t ! j))"
proof -
  have "length t < 2 ^ 32"
    using assms by (auto simp: mb_rep_def dest: mb_invD(5))
  then have u: "unat (of_nat j :: u32) = j"
    using assms(2) by simp
  show ?thesis
    using stored_row_info(2,4) [OF assms] arg_cong [OF stored_row_info(3) [OF assms], of e_mode]
      arg_cong [OF stored_row_info(3) [OF assms], of e_size]
    unfolding index_dirent_of_def row_dirent_def u Let_def
    by (simp add: frame_simps entry_of_row_def)
qed

lemma finish_dir_None:
  assumes rep: "mb_rep b t" and pid: "map_of (by_flat (mb_paths b)) p = Some pid"
    and d: "map_of (mb_dirs b) pid = None"
  shows "dir_rows t p = []"
proof -
  have inv: "mb_inv b t" using rep by (simp add: mb_rep_def)
  note D = mb_invD [OF inv]
  have "table_versions t p n = []" for n
  proof (cases "lookup_id (mb_pool b) n")
    case None
    then show ?thesis
      using D(8) by (fastforce simp: table_idxs_Nil [OF D(5), symmetric] row_stored_def intro!: table_idxs_empty)
  next
    case (Some nid)
    with dirs_okD(4) [OF D(10) pid Some] d show ?thesis
      by (simp add: dir_versions_def table_idxs_Nil [OF D(5), symmetric])
  qed
  then show ?thesis by (simp add: dir_rows_Nil)
qed

lemma finish_list_with:
  assumes rep: "mb_rep b t"
    and g: "\<And>nid i. i < length t \<Longrightarrow> lookup_id (mb_pool b) (r_name (snd (t ! i))) = Some nid \<Longrightarrow>
      g nid (of_nat i) = f (snd (t ! i))"
  shows "Option.bind (resolve_path_id (finish b) dir) (\<lambda>pid.
      Option.bind (mi_dir_entries (finish b) pid) (\<lambda>d.
        let mp = bt_collect (\<lambda>(nid, versions). pool_get (mi_pool (finish b)) nid)
          (\<lambda>(nid, versions). g nid (last versions)) (filter (\<lambda>(nid, versions). versions \<noteq> []) d)
        in if mp = [] then None else Some mp)) = table_list f t dir"
proof (cases "table_resolve t dir")
  case None
  then show ?thesis by (simp add: finish_resolve_path [OF rep] table_list_def)
next
  case (Some p)
  have inv: "mb_inv b t" using rep by (simp add: mb_rep_def)
  note D = mb_invD [OF inv]
  have "p \<in> set (table_dirs t)"
    using Some by (auto simp: table_resolve_def table_dirs_def Let_def split: if_splits)
  then obtain pid where pid: "map_of (by_flat (mb_paths b)) p = Some pid"
    using rep by (auto simp: mb_rep_def)
  have de: "mi_dir_entries (finish b) pid = map_of (mb_dirs b) pid"
    by (rule finish_dir_entries) (rule dirs_okD(1) [OF D(10)])
  show ?thesis
  proof (cases "map_of (mb_dirs b) pid")
    case None
    with Some pid de finish_dir_None [OF rep pid None] show ?thesis
      by (simp add: finish_resolve_path [OF rep] table_list_def)
  next
    case d: (Some d)
    have ok: "dir_ok b d" by (rule dirs_okD(2) [OF D(10) d])
    have "v \<noteq> []" if "(n, v) \<in> set d" for n v
      using ok that bt_sorted_distinct [of d] by (auto simp: dir_ok_def)
    then have "filter (\<lambda>(nid, versions). versions \<noteq> []) d = d"
      by (auto simp: filter_id_conv)
    moreover have "bt_collect (\<lambda>(nid, versions). pool_get (seal (mb_pool b)) nid) (\<lambda>(nid, versions). g nid (last versions)) d
        = bt_collect r_name f (dir_rows t p)"
      by (rule dir_collect [OF rep pid d]) (rule g)
    moreover from arg_cong [OF this, of "\<lambda>m. m = []"] have "d = [] \<longleftrightarrow> dir_rows t p = []"
      by simp
    ultimately show ?thesis
      using Some pid de d by (simp add: finish_resolve_path [OF rep] table_list_def Let_def)
  qed
qed

lemma finish_dirents:
  assumes rep: "mb_rep b t"
  shows "map_option (bt_collect id_name h) (mi_list_dirents (finish b) dir) = table_list (\<lambda>r. h (row_dirent r)) t dir"
proof -
  let ?g = "\<lambda>nid idx. h (index_dirent_of (finish b) (pool_get (seal (mb_pool b)) nid) idx)"
  have inv: "mb_inv b t" using rep by (simp add: mb_rep_def)
  have "?g nid (of_nat i) = h (row_dirent (snd (t ! i)))"
    if "i < length t" "lookup_id (mb_pool b) (r_name (snd (t ! i))) = Some nid" for nid i
    using stored_dirent [OF rep that(1)] pool.find_get [OF mb_invD(1) [OF inv] that(2)]
    by (simp add: frame_simps)
  then have g: "\<And>nid i. i < length t \<Longrightarrow> lookup_id (mb_pool b) (r_name (snd (t ! i))) = Some nid \<Longrightarrow>
    ?g nid (of_nat i) = (\<lambda>r. h (row_dirent r)) (snd (t ! i))" by simp
  note * = finish_list_with [where g = ?g and f = "\<lambda>r. h (row_dirent r)" and dir = dir, OF rep g]
  have "id_name (index_dirent_of m s i) = s" for m s i
    by (simp add: index_dirent_of_def Let_def)
  then show ?thesis
    by (subst * [symmetric])
      (auto simp: mi_list_dirents_def dirents_of_def Let_def bt_collect_map case_prod_unfold
        split: option.splits bind_splits)
qed

lemma finish_list:
  assumes rep: "mb_rep b t"
  shows "mi_list (finish b) dir = table_list row_info t dir"
proof -
  have g: "\<And>nid i. i < length t \<Longrightarrow> lookup_id (mb_pool b) (r_name (snd (t ! i))) = Some nid \<Longrightarrow>
      (\<lambda>nid. to_file_info (mb_soa b) (seal (mb_pool b))) nid (of_nat i) = row_info (snd (t ! i))"
    by (rule stored_row_info(1) [OF rep])
  from finish_list_with [where g = "\<lambda>nid. to_file_info (mb_soa b) (seal (mb_pool b))" and f = row_info
      and dir = dir, OF rep g]
  show ?thesis
    by (simp add: mi_list_def)
qed

section \<open>Properties\<close>

lemma table_of_length: "3 * length (table_of rs) \<le> rows_weight rs"
proof -
  have "length (foldl table_push t rs) \<le> length t + length rs" for t
    using table_push_length by (induction rs arbitrary: t) (auto intro: order_trans, fastforce intro: order_trans)
  from this [of "[]"] have "length (table_of rs) \<le> length rs"
    by (simp add: table_of_def)
  moreover have "3 * length rs \<le> rows_weight rs"
    by (induction rs) (auto simp: rows_weight_def row_weight_def)
  ultimately show ?thesis by linarith
qed

lemma push_rows_represents:
  assumes "rows_weight rs + 2 < 2 ^ 32" "push_rows mb_new rs = Some b"
  shows "mb_rep b (table_of rs)" "length (table_of rs) \<le> 2 ^ 31"
  using push_rows_new [OF assms(1)] assms table_of_length [of rs] by auto

text \<open>C1: Building the in-memory index never panics while the strings fit the \<open>u32\<close> ids, and every
  lookup in the finished index returns exactly the row the insert-or-replace table has for that
  directory, name and version, both as file info and as open cookie.\<close>

theorem mem_lookup_refines:
  assumes "rows_weight rs + 2 < 2 ^ 32"
  shows "\<exists>b. push_rows mb_new rs = Some b \<and> (\<forall>dir name v.
    mi_lookup (finish b) dir name v = map_option row_info (table_lookup (table_of rs) dir name (sint v))
    \<and> lookup_open_cookie (finish b) dir name v
        = map_option row_cookie (table_lookup (table_of rs) dir name (sint v)))"
proof -
  obtain b where b: "push_rows mb_new rs = Some b"
    using push_rows_new [OF assms] by blast
  note rep = push_rows_represents [OF assms b]
  show ?thesis
    using finish_lookup_with [where f = row_info, OF rep stored_row_info(1) [OF rep(1)]]
      finish_lookup_with [where f = row_cookie, OF rep stored_row_info(2) [OF rep(1)]] b
    by (simp add: mi_lookup_def lookup_open_cookie_def)
qed

definition sample_row :: "string \<Rightarrow> string \<Rightarrow> i64 \<Rightarrow> i64 \<Rightarrow> file_row" where
  "sample_row p n oh sz =
     \<lparr>r_path = p, r_name = n, r_offsetheader = oh, r_offset = oh + 512, r_size = sz, r_mtime = 0,
      r_mode = 0x81A4, r_typeflag = 0, r_linkname = '''', r_uid = 0, r_gid = 0, r_istar = False,
      r_issparse = False, r_isgenerated = False, r_recursiondepth = 0\<rparr>"

theorem mem_lookup_refines_witness:
  "\<exists>b. push_rows mb_new [sample_row ''/d'' ''f'' 0 7, sample_row ''/d'' ''f'' 1024 9] = Some b
    \<and> map_option fi_size (mi_lookup (finish b) ''/d'' ''f'' 0) = Some 9
    \<and> map_option fi_size (mi_lookup (finish b) ''d'' ''f'' 1) = Some 7"
proof -
  let ?rs = "[sample_row ''/d'' ''f'' 0 7, sample_row ''/d'' ''f'' 1024 9]"
  have w: "rows_weight ?rs + 2 < 2 ^ 32" by code_simp
  have l: "map_option (\<lambda>r. fi_size (row_info r)) (table_lookup (table_of ?rs) ''/d'' ''f'' (sint (0 :: i32))) = Some 9"
    "map_option (\<lambda>r. fi_size (row_info r)) (table_lookup (table_of ?rs) ''d'' ''f'' (sint (1 :: i32))) = Some 7"
    by code_simp+
  show ?thesis
    using mem_lookup_refines [OF w] l by (auto simp: option.map_comp o_def)
qed

text \<open>C19: The number of versions the index reports is the number of rows the table has for the
  directory and name.\<close>

theorem mem_version_count_refines:
  assumes "rows_weight rs + 2 < 2 ^ 32" "push_rows mb_new rs = Some b"
  shows "unat (mi_version_count (finish b) dir name) =
    (case table_resolve (table_of rs) dir of None \<Rightarrow> 0
     | Some p \<Rightarrow> length (table_versions (table_of rs) p name))"
proof -
  note rep = push_rows_represents [OF assms]
  have l: "length (table_of rs) < 2 ^ 32" using rep(2) by simp
  have "length (table_idxs (table_of rs) p name) = length (table_versions (table_of rs) p name)" for p
    using table_idxs_rows [OF l, of p name] by (metis length_map)
  moreover have "length (table_idxs (table_of rs) p name) < 2 ^ 32" for p
    using table_idxs_length [of "table_of rs" p name] l by linarith
  ultimately show ?thesis
    using table_idxs_Nil [OF l]
    by (auto simp: mi_version_count_def finish_dir_versions [OF rep(1)] split: option.splits)
qed

theorem mem_version_count_refines_witness:
  "\<exists>b. push_rows mb_new [sample_row ''/d'' ''f'' 0 7, sample_row ''/d'' ''f'' 1024 9, sample_row ''/d'' ''f'' 0 8] = Some b
    \<and> unat (mi_version_count (finish b) ''/d'' ''f'') = 2"
proof -
  let ?rs = "[sample_row ''/d'' ''f'' 0 7, sample_row ''/d'' ''f'' 1024 9, sample_row ''/d'' ''f'' 0 8]"
  have w: "rows_weight ?rs + 2 < 2 ^ 32" by code_simp
  obtain b where b: "push_rows mb_new ?rs = Some b" using push_rows_new [OF w] by blast
  have "(case table_resolve (table_of ?rs) ''/d'' of None \<Rightarrow> 0
     | Some p \<Rightarrow> length (table_versions (table_of ?rs) p ''f'')) = 2"
    by code_simp
  with mem_version_count_refines [OF w b, of "''/d''" "''f''"] b show ?thesis by auto
qed

text \<open>C17: Listing a directory returns, sorted by name, the newest row of every name the table has in
  that directory, and nothing for a directory without rows.\<close>

theorem mem_list_refines:
  assumes "rows_weight rs + 2 < 2 ^ 32" "push_rows mb_new rs = Some b"
  shows "mi_list (finish b) dir = table_list row_info (table_of rs) dir"
  by (rule finish_list) (rule push_rows_represents [OF assms])

theorem mem_list_refines_witness:
  "\<exists>b. push_rows mb_new [sample_row ''/d'' ''g'' 0 7, sample_row ''/d'' ''f'' 512 3, sample_row ''/d'' ''g'' 1024 9] = Some b
    \<and> map_option (map (\<lambda>(n, i). (n, fi_size i))) (mi_list (finish b) ''/d'') = Some [(''f'', 3), (''g'', 9)]"
proof -
  let ?rs = "[sample_row ''/d'' ''g'' 0 7, sample_row ''/d'' ''f'' 512 3, sample_row ''/d'' ''g'' 1024 9]"
  have w: "rows_weight ?rs + 2 < 2 ^ 32" by code_simp
  obtain b where b: "push_rows mb_new ?rs = Some b" using push_rows_new [OF w] by blast
  have "map_option (map (\<lambda>(n, i). (n, fi_size i))) (table_list row_info (table_of ?rs) ''/d'')
      = Some [(''f'', 3), (''g'', 9)]"
    by code_simp
  with mem_list_refines [OF w b, of "''/d''"] b show ?thesis by auto
qed

text \<open>C18: The cheap listings agree with the full one: the dirents collected by name are the dirents of
  the newest rows, and the mode listing holds their modes.\<close>

theorem mem_dirents_refine:
  assumes "rows_weight rs + 2 < 2 ^ 32" "push_rows mb_new rs = Some b"
  shows "map_option (bt_collect id_name (\<lambda>d. d)) (mi_list_dirents (finish b) dir)
      = table_list row_dirent (table_of rs) dir
    \<and> mi_list_mode (finish b) dir = table_list (\<lambda>r. ucast (r_mode r)) (table_of rs) dir"
proof -
  note rep = push_rows_represents [OF assms]
  have "id_mode (row_dirent r) = ucast (r_mode r)" for r
    by (simp add: row_dirent_def)
  then show ?thesis
    using finish_dirents [OF rep(1), of "\<lambda>d. d" dir] finish_dirents [OF rep(1), of id_mode dir]
    by (simp add: mi_list_mode_def)
qed

theorem mem_dirents_refine_witness:
  "\<exists>b. push_rows mb_new [sample_row ''/d'' ''g'' 0 7, sample_row ''/d'' ''f'' 512 3] = Some b
    \<and> mi_list_mode (finish b) ''/d'' = Some [(''f'', 0x81A4), (''g'', 0x81A4)]"
proof -
  let ?rs = "[sample_row ''/d'' ''g'' 0 7, sample_row ''/d'' ''f'' 512 3]"
  have w: "rows_weight ?rs + 2 < 2 ^ 32" by code_simp
  obtain b where b: "push_rows mb_new ?rs = Some b" using push_rows_new [OF w] by blast
  have "table_list (\<lambda>r. ucast (r_mode r) :: u32) (table_of ?rs) ''/d''
      = Some [(''f'', 0x81A4), (''g'', 0x81A4)]"
    by code_simp
  with mem_dirents_refine [OF w b, of "''/d''"] b show ?thesis by auto
qed

end
