(* ===== verification/Mem_Export.thy ===== *)
theory Mem_Export
  imports Mem_Refinement
begin

text \<open>
  Exporting the in-memory index (\<open>MemIndex::export_file_rows\<close>) and loading it again: the exported
  rows are the rows of the table, each once, with the fields clamped the way the columns store
  them and the directory printed from its segments.
\<close>

section \<open>Exported rows\<close>

text \<open>The canonical print of a directory string, and the row an exported row is.\<close>

definition print_dir :: "string \<Rightarrow> string" where
  "print_dir d = (if dir_parts d = [] then '''' else ''/'' @ join_with ''/'' (dir_parts d))"

definition exported_row :: "file_row \<Rightarrow> file_row" where
  "exported_row r =
     r\<lparr>r_path := print_dir (r_path r), r_offset := max0 (r_offset r), r_size := max0 (r_size r),
       r_mode := ucast (ucast (r_mode r) :: u32), r_typeflag := 0,
       r_uid := ucast (ucast (max0 (r_uid r)) :: u32), r_gid := ucast (ucast (max0 (r_gid r)) :: u32),
       r_recursiondepth := ucast (ucast (max0 (r_recursiondepth r)) :: u32)\<rparr>"

definition row_triple :: "mem_index_builder \<Rightarrow> row_table \<Rightarrow> nat \<Rightarrow> u32 \<times> u32 \<times> u32" where
  "row_triple b t j =
     (the (map_of (by_flat (mb_paths b)) (r_path (snd (t ! j)))),
      the (lookup_id (mb_pool b) (r_name (snd (t ! j)))), of_nat j)"

definition dir_triples :: "(u32 \<times> dir_entries) list \<Rightarrow> u32 \<Rightarrow> (u32 \<times> u32 \<times> u32) list" where
  "dir_triples dirs pid =
     (case map_of dirs pid of None \<Rightarrow> []
      | Some d \<Rightarrow> concat (map (\<lambda>(nid, vs). map (\<lambda>i. (pid, nid, i)) vs) d))"

lemma distinct_concat_map:
  assumes "distinct xs" "\<And>x. x \<in> set xs \<Longrightarrow> distinct (f x)"
    and "\<And>x y. x \<in> set xs \<Longrightarrow> y \<in> set xs \<Longrightarrow> x \<noteq> y \<Longrightarrow> set (f x) \<inter> set (f y) = {}"
  shows "distinct (concat (map f xs))"
  using assms by (induction xs) auto

lemma idx_inj:
  assumes "n < 2 ^ 32"
  shows "inj_on (of_nat :: nat \<Rightarrow> u32) {0..<n}"
proof (rule inj_onI)
  fix x y
  assume xy: "x \<in> {0..<n}" "y \<in> {0..<n}" and e: "(of_nat x :: u32) = of_nat y"
  have "unat (of_nat x :: u32) = x" "unat (of_nat y :: u32) = y"
    using assms xy by auto
  with e show "x = y" by metis
qed

lemma table_idxs_distinct:
  assumes "length t < 2 ^ 32"
  shows "distinct (table_idxs t p n)"
proof -
  have "inj_on (of_nat :: nat \<Rightarrow> u32) (set (matching t p n))"
    by (rule inj_on_subset [OF idx_inj [OF assms]]) (auto dest: matching_less)
  moreover have "distinct (matching t p n)"
    by (simp add: matching_def)
  ultimately show ?thesis
    by (simp only: table_idxs_matching distinct_sort distinct_map simp_thms)
qed

lemma dir_versions_mem:
  "i \<in> set (dir_versions dirs pid nid) \<longleftrightarrow>
     (\<exists>d v. map_of dirs pid = Some d \<and> map_of d nid = Some v \<and> i \<in> set v)"
  by (cases "map_of dirs pid"; cases "map_of (the (map_of dirs pid)) nid") (simp_all add: dir_versions_def)

lemma dir_entry_ids:
  assumes "dirs_ok b t" "map_of (mb_dirs b) pid = Some d" "map_of d nid = Some v"
  shows "\<exists>p n. map_of (by_flat (mb_paths b)) p = Some pid \<and> lookup_id (mb_pool b) n = Some nid
    \<and> v = table_idxs t p n"
proof -
  obtain p where p: "map_of (by_flat (mb_paths b)) p = Some pid"
    using dirs_okD(3) [OF assms(1,2)] by blast
  have "dir_ok b d" by (rule dirs_okD(2) [OF assms(1,2)])
  then obtain n where n: "lookup_id (mb_pool b) n = Some nid"
    using assms(3) unfolding dir_ok_def by blast
  have "v = table_idxs t p n"
    using dirs_okD(4) [OF assms(1) p n] assms(2,3) by (simp add: dir_versions_def)
  with p n show ?thesis by blast
qed

lemma dir_triples_set:
  assumes rep: "mb_rep b t"
  shows "(pid, nid, i) \<in> set (dir_triples (mb_dirs b) pid') \<longleftrightarrow>
    pid' = pid \<and> (\<exists>j < length t. row_triple b t j = (pid, nid, i))"
proof -
  have inv: "mb_inv b t" using rep by (simp add: mb_rep_def)
  note D = mb_invD [OF inv]
  have mem: "(pid, nid, i) \<in> set (dir_triples (mb_dirs b) pid') \<longleftrightarrow>
      pid' = pid \<and> i \<in> set (dir_versions (mb_dirs b) pid nid)"
  proof (cases "map_of (mb_dirs b) pid'")
    case None
    then show ?thesis by (auto simp: dir_triples_def dir_versions_mem)
  next
    case (Some d)
    then have dd: "distinct (map fst d)"
      using dirs_okD(2) [OF D(10) Some] bt_sorted_distinct by (auto simp: dir_ok_def)
    have "(pid, nid, i) \<in> set (dir_triples (mb_dirs b) pid') \<longleftrightarrow>
        pid' = pid \<and> (\<exists>v. (nid, v) \<in> set d \<and> i \<in> set v)"
      unfolding dir_triples_def Some by force
    then show ?thesis
      using Some by (auto simp: dir_versions_mem map_of_eq_Some_iff [OF dd])
  qed
  have "i \<in> set (dir_versions (mb_dirs b) pid nid) \<longleftrightarrow> (\<exists>j < length t. row_triple b t j = (pid, nid, i))"
  proof
    assume i: "i \<in> set (dir_versions (mb_dirs b) pid nid)"
    then obtain d v where d: "map_of (mb_dirs b) pid = Some d" "map_of d nid = Some v"
      unfolding dir_versions_mem by blast
    then obtain p n where pn: "map_of (by_flat (mb_paths b)) p = Some pid" "lookup_id (mb_pool b) n = Some nid"
      using dir_entry_ids [OF D(10)] by blast
    with i dirs_okD(4) [OF D(10) pn] show "\<exists>j < length t. row_triple b t j = (pid, nid, i)"
      by (auto simp: table_idxs_set row_triple_def)
  next
    assume "\<exists>j < length t. row_triple b t j = (pid, nid, i)"
    then obtain j where j: "j < length t" "row_triple b t j = (pid, nid, i)" by blast
    with D(8) [OF j(1)] have "map_of (by_flat (mb_paths b)) (r_path (snd (t ! j))) = Some pid"
      "lookup_id (mb_pool b) (r_name (snd (t ! j))) = Some nid" "i = of_nat j"
      by (auto simp: row_triple_def row_stored_def)
    with j dirs_okD(4) [OF D(10)] show "i \<in> set (dir_versions (mb_dirs b) pid nid)"
      by (auto simp: table_idxs_set)
  qed
  with mem show ?thesis by simp
qed

lemma dir_triples_distinct:
  assumes rep: "mb_rep b t"
  shows "distinct (dir_triples (mb_dirs b) pid)"
proof (cases "map_of (mb_dirs b) pid")
  case (Some d)
  have inv: "mb_inv b t" using rep by (simp add: mb_rep_def)
  note D = mb_invD [OF inv]
  note ok = dirs_okD(2) [OF D(10) Some]
  have dd: "distinct (map fst d)" using ok bt_sorted_distinct by (auto simp: dir_ok_def)
  have v: "distinct v" if "(nid, v) \<in> set d" for nid v
  proof -
    have m: "map_of d nid = Some v" using dd that by simp
    then show ?thesis
      using dir_entry_ids [OF D(10) Some m] table_idxs_distinct [OF D(5)] by blast
  qed
  have "distinct (concat (map (\<lambda>(nid, vs). map (\<lambda>i. (pid, nid, i)) vs) d))"
  proof (rule distinct_concat_map)
    show "distinct d" using dd by (simp add: distinct_map)
    show "distinct (case x of (nid, vs) \<Rightarrow> map (\<lambda>i. (pid, nid, i)) vs)" if "x \<in> set d" for x
      using v that by (cases x) (auto simp: distinct_map inj_on_def)
    show "set (case x of (nid, vs) \<Rightarrow> map (\<lambda>i. (pid, nid, i)) vs)
        \<inter> set (case y of (nid, vs) \<Rightarrow> map (\<lambda>i. (pid, nid, i)) vs) = {}"
      if "x \<in> set d" "y \<in> set d" "x \<noteq> y" for x y
      using that eq_key_imp_eq_value [OF dd] by (cases x; cases y) auto
  qed
  with Some show ?thesis by (simp add: dir_triples_def)
qed (simp add: dir_triples_def)

definition export_triple :: "mem_index \<Rightarrow> u32 \<times> u32 \<times> u32 \<Rightarrow> file_row" where
  "export_triple m x =
     (case x of (pid, nid, i) \<Rightarrow>
        export_row m (flat_string_for_export (mi_paths m) (mi_pool m) pid) (pool_get (mi_pool m) nid) i)"

lemma export_triples:
  assumes "mb_rep b t"
  shows "export_file_rows (finish b) =
    map (export_triple (finish b)) (concat (map (dir_triples (mb_dirs b)) (sort (map fst (mb_dirs b)))))"
proof -
  have d: "distinct (map fst (mb_dirs b))"
    using assms dirs_okD(1) mb_invD(10) by (auto simp: mb_rep_def)
  show ?thesis
    by (auto simp: export_file_rows_def finish_path_ids [OF d] finish_dir_entries [OF d]
        dir_triples_def export_triple_def map_concat o_def Let_def case_prod_unfold
        split: option.splits intro!: arg_cong [where f = concat] map_cong)
qed

lemma seal_flat_string: "flat_string_for_export pt (seal pool) = flat_string_for_export pt pool"
  by (simp add: fun_eq_iff flat_string_for_export_def frame_simps Let_def)

lemma export_triple_row:
  assumes rep: "mb_rep b t" and j: "j < length t"
  shows "export_triple (finish b) (row_triple b t j) = exported_row (snd (t ! j))"
proof -
  have inv: "mb_inv b t" using rep by (simp add: mb_rep_def)
  note D = mb_invD [OF inv]
  let ?r = "snd (t ! j)"
  obtain pid nid lid where ids: "map_of (by_flat (mb_paths b)) (r_path ?r) = Some pid"
    "lookup_id (mb_pool b) (r_name ?r) = Some nid" "lookup_id (mb_pool b) (r_linkname ?r) = Some lid"
    and e: "soa_entry (mb_soa b) j = entry_of_row lid ?r"
    using D(8) [OF j] by (elim row_storedE)
  have u: "unat (of_nat j :: u32) = j" using j D(5) by simp
  have f: "flat_string_for_export (mb_paths b) (seal (mb_pool b)) pid = print_dir (r_path (snd (t ! j)))"
    using flat_string_dir(2) [OF D(1,2) ids(1)]
    by (simp add: print_dir_def seal_flat_string)
  have g: "pool_get (mb_pool b) nid = r_name ?r" "pool_get (mb_pool b) lid = r_linkname ?r"
    using pool.find_get [OF D(1)] ids by blast+
  have "export_row (finish b) (print_dir (r_path ?r)) (r_name ?r) (of_nat j) = exported_row ?r"
    unfolding export_row_def finish_frame u e Let_def entry_of_row_def exported_row_def
    by (cases ?r) (simp add: g(2) frame_simps)
  then show ?thesis
    by (simp add: export_triple_def row_triple_def ids f g(1) frame_simps)
qed

lemma triples_mset:
  assumes rep: "mb_rep b t"
  shows "mset (concat (map (dir_triples (mb_dirs b)) (sort (map fst (mb_dirs b))))) =
    mset (map (row_triple b t) [0..<length t])"
proof -
  have inv: "mb_inv b t" using rep by (simp add: mb_rep_def)
  note D = mb_invD [OF inv]
  let ?T = "concat (map (dir_triples (mb_dirs b)) (sort (map fst (mb_dirs b))))"
  let ?U = "map (row_triple b t) [0..<length t]"
  have "distinct ?T"
    by (rule distinct_concat_map)
      (use dirs_okD(1) [OF D(10)] dir_triples_distinct [OF rep] dir_triples_set [OF rep] in auto)
  moreover have "distinct ?U"
    using idx_inj [OF D(5)] by (auto simp: distinct_map row_triple_def inj_on_def)
  moreover have "set ?T = set ?U"
  proof -
    have "row_triple b t j \<in> set ?T" if j: "j < length t" for j
    proof -
      obtain pid nid i where x: "row_triple b t j = (pid, nid, i)" by (cases "row_triple b t j")
      have m: "(pid, nid, i) \<in> set (dir_triples (mb_dirs b) pid)"
        using dir_triples_set [OF rep] x j by blast
      then have "map_of (mb_dirs b) pid \<noteq> None"
        by (cases "map_of (mb_dirs b) pid") (simp_all add: dir_triples_def)
      then have "pid \<in> set (map fst (mb_dirs b))"
        by (simp add: map_of_eq_None_iff)
      with m x show ?thesis by auto
    qed
    moreover have "x \<in> set ?U" if "x \<in> set ?T" for x
    proof -
      obtain pid nid i where x: "x = (pid, nid, i)" by (cases x)
      from that obtain q where "(pid, nid, i) \<in> set (dir_triples (mb_dirs b) q)"
        unfolding x by auto
      then obtain j where "j < length t" "row_triple b t j = x"
        unfolding dir_triples_set [OF rep] x by blast
      then show ?thesis by auto
    qed
    ultimately have "set ?T \<subseteq> set ?U" "set ?U \<subseteq> set ?T"
      by (blast, simp only: set_map set_upt image_subset_iff) simp
    then show ?thesis by (rule equalityI)
  qed
  ultimately show ?thesis
    by (simp only: set_eq_iff_mset_eq_distinct)
qed

lemma export_mset_triples:
  assumes rep: "mb_rep b t" and "mset xs = mset (map (row_triple b t) [0..<length t])"
  shows "mset (map (export_triple (finish b)) xs) = mset (map (\<lambda>kr. exported_row (snd kr)) t)"
proof -
  have "mset (map (export_triple (finish b)) xs) =
      mset (map (\<lambda>j. export_triple (finish b) (row_triple b t j)) [0..<length t])"
    unfolding mset_map [of _ xs] assms(2) by (simp only: map_map o_def flip: mset_map)
  also have "map (\<lambda>j. export_triple (finish b) (row_triple b t j)) [0..<length t] = map (\<lambda>kr. exported_row (snd kr)) t"
    by (rule nth_equalityI) (simp_all add: export_triple_row [OF rep])
  finally show ?thesis .
qed

lemma export_mset:
  assumes rep: "mb_rep b t"
  shows "mset (export_file_rows (finish b)) = mset (map (\<lambda>kr. exported_row (snd kr)) t)"
  unfolding export_triples [OF rep] by (rule export_mset_triples [OF rep triples_mset [OF rep]])

section \<open>Loading exported rows\<close>

lemma max0_idem [simp]: "max0 (max0 x) = max0 x"
  by (simp add: max0_def)

lemma max0_u32 [simp]: "max0 (ucast (x :: u32) :: i64) = ucast x"
proof -
  have "0 \<le> sint (ucast x :: i64)"
    by transfer (simp add: signed_take_bit_eq_if_positive bit_take_bit_iff)
  then show ?thesis by (simp add: max0_def)
qed

lemma ucast_u32_i64 [simp]: "ucast (ucast (x :: u32) :: i64) = x"
  by (simp add: ucast_up_ucast_id is_up)

lemma exported_row_info [simp]:
  "row_info (exported_row r) = row_info r" "row_cookie (exported_row r) = row_cookie r"
  by (simp_all add: row_info_def row_cookie_def exported_row_def)

text \<open>The table of rows with distinct keys is the rows themselves.\<close>

lemma table_of_distinct:
  assumes "distinct (map row_key rs)" "\<forall>r \<in> set rs. r_name r \<noteq> []"
  shows "table_of rs = map (\<lambda>r. (row_key r, r)) rs"
  using assms
proof (induction rs rule: rev_induct)
  case (snoc r rs)
  then have "row_key r \<notin> fst ` set (map (\<lambda>r. (row_key r, r)) rs)"
    by (auto simp: image_iff)
  with snoc show ?case
    by (simp add: table_of_def table_push_def alist_update_new)
qed (simp add: table_of_def)

lemma sort_key_mset_cong:
  assumes "mset xs = mset ys" "inj_on f (set xs)"
  shows "sort_key f xs = sort_key f ys"
  by (rule sort_key_inj_key_eq) (use assms in simp_all)

lemma filter_map_keep: "(\<And>r. r \<in> set zs \<Longrightarrow> P (f r) = P r) \<Longrightarrow> filter P (map f zs) = map f (filter P zs)"
  by (induction zs) auto

lemma inj_on_map_keep:
  assumes "inj_on g (set xs)" "\<And>r. r \<in> set xs \<Longrightarrow> g (f r) = g r"
  shows "inj_on g (set (map f xs))"
  using assms by (auto simp: inj_on_def)

lemma alist_update_subset: "set (AList.update k v t) \<subseteq> insert (k, v) (set t)"
  by (induction t) auto

definition keyed :: "row_table \<Rightarrow> bool" where
  "keyed t \<longleftrightarrow> distinct (map fst t) \<and> (\<forall>x \<in> set t. fst x = row_key (snd x))"

lemma keyed_inj:
  assumes t: "keyed t"
  shows "inj_on (\<lambda>r. sint (r_offsetheader r)) (set (filter (\<lambda>r. r_path r = p \<and> r_name r = n) (map snd t)))"
proof (rule inj_onI)
  fix r s
  assume "r \<in> set (filter (\<lambda>r. r_path r = p \<and> r_name r = n) (map snd t))" "s \<in> set (filter (\<lambda>r. r_path r = p \<and> r_name r = n) (map snd t))" "sint (r_offsetheader r) = sint (r_offsetheader s)"
  then obtain k l where "(k, r) \<in> set t" "(l, s) \<in> set t" "row_key r = row_key s"
    by (auto simp: row_key_def dest: signed_word_eqI)
  moreover have "fst (k, r) = row_key (snd (k, r))" "fst (l, s) = row_key (snd (l, s))"
    using t calculation unfolding keyed_def by blast+
  ultimately show "r = s"
    using t eq_key_imp_eq_value [of t k r s] by (simp add: keyed_def)
qed

lemma keyed_versions_mset:
  assumes t: "keyed t" and m: "mset (map snd u) = mset (map (\<lambda>x. f (snd x)) t)"
    and f: "\<And>x. x \<in> set t \<Longrightarrow> row_key (f (snd x)) = row_key (snd x)"
  shows "table_versions u p n = map f (table_versions t p n)"
proof -
  let ?P = "\<lambda>r. r_path r = p \<and> r_name r = n"
  let ?oh = "\<lambda>r. sint (r_offsetheader r)"
  let ?xs = "filter ?P (map snd t)"
  have fk: "row_key (f r) = row_key r" if "r \<in> set (map snd t)" for r
    using f that by auto
  have inj: "inj_on ?oh (set ?xs)"
    by (rule keyed_inj [OF t])
  have fm: "filter ?P (map f (map snd t)) = map f ?xs"
    using fk by (intro filter_map_keep) (auto simp: row_key_def)
  have "mset (filter ?P (map snd u)) = mset (filter ?P (map f (map snd t)))"
    by (simp only: mset_filter m map_map o_def)
  then have mm: "mset (map f ?xs) = mset (filter ?P (map snd u))"
    by (simp only: fm)
  have oh: "?oh (f r) = ?oh r" if "r \<in> set ?xs" for r
    using fk that by (auto simp: row_key_def)
  have "inj_on ?oh (set (map f ?xs))"
    using inj oh by (rule inj_on_map_keep)
  then have "sort_key ?oh (filter ?P (map snd u)) = sort_key ?oh (map f ?xs)"
    using mm by (intro sort_key_mset_cong [symmetric]) simp_all
  also have "\<dots> = map f (sort_key (\<lambda>r. ?oh (f r)) ?xs)"
    by (rule sort_key_map)
  also have "sort_key (\<lambda>r. ?oh (f r)) ?xs = sort_key ?oh ?xs"
    by (rule sort_key_cong) (rule oh)
  finally show ?thesis by (simp add: table_versions_def)
qed

lemma table_of_keyed: "keyed (table_of rs)" and table_of_names: "\<forall>x \<in> set (table_of rs). r_name (snd x) \<noteq> []"
proof -
  have push: "keyed t \<Longrightarrow> keyed (table_push t r)" for t r
    by (auto simp: keyed_def table_push_def distinct_update dest!: subsetD [OF alist_update_subset])
  show "keyed (table_of rs)"
    unfolding table_of_def by (induction rs rule: rev_induct) (simp_all add: push, simp add: keyed_def)
  show "\<forall>x \<in> set (table_of rs). r_name (snd x) \<noteq> []"
    unfolding table_of_def
    by (induction rs rule: rev_induct) (auto simp: table_push_def dest!: subsetD [OF alist_update_subset])
qed

text \<open>The table never weighs more than the rows pushed.\<close>

lemma table_of_weight: "sum_list (map (\<lambda>x. row_weight (snd x)) (table_of rs)) \<le> rows_weight rs"
proof -
  have upd: "sum_list (map (\<lambda>x. row_weight (snd x)) (AList.update k r t))
      \<le> sum_list (map (\<lambda>x. row_weight (snd x)) t) + row_weight r" for k r t
    by (induction t) auto
  show ?thesis
  proof (induction rs rule: rev_induct)
    case (snoc r rs)
    with upd [of "row_key r" r "table_of rs"] show ?case
      by (simp add: table_of_def table_push_def rows_weight_def)
  qed (simp add: table_of_def rows_weight_def)
qed

lemma table_dirs_set: "set (table_dirs t) = insert [] (fst ` fst ` set t)"
  by (force simp: table_dirs_def)

lemma mset_map_through:
  assumes "mset es = mset (map f t)" "\<And>x. x \<in> set t \<Longrightarrow> g (f x) = h x"
  shows "mset (map g es) = mset (map h t)"
proof -
  have "mset (map g es) = mset (map g (map f t))"
    by (simp only: mset_map assms(1))
  also have "map g (map f t) = map h t"
    using assms(2) by simp
  finally show ?thesis .
qed

lemma table_of_rows: "x \<in> set (table_of rs) \<Longrightarrow> snd x \<in> set rs"
proof (induction rs rule: rev_induct)
  case (snoc r rs)
  then show ?case
    using alist_update_subset [of "row_key r" r "table_of rs"]
    by (auto simp: table_of_def table_push_def split: if_splits)
qed (simp add: table_of_def)

text \<open>The table of the exported rows, for rows whose directories are printed canonically.\<close>

lemma exported_table:
  assumes m: "mset es = mset (map (\<lambda>x. exported_row (snd x)) (table_of rs))"
    and canon: "\<forall>r \<in> set rs. print_dir (r_path r) = r_path r"
  shows "table_versions (table_of es) p n = map exported_row (table_versions (table_of rs) p n)"
    and "set (table_dirs (table_of es)) = set (table_dirs (table_of rs))"
proof -
  let ?t = "table_of rs"
  have key: "row_key (exported_row (snd x)) = fst x" if "x \<in> set ?t" for x
    using canon table_of_rows [OF that] table_of_keyed [of rs] that
    by (simp add: keyed_def row_key_def exported_row_def)
  have "mset (map row_key es) = mset (map fst ?t)"
    by (rule mset_map_through [OF m]) (rule key)
  then have "distinct (map row_key es)"
    using table_of_keyed [of rs] mset_eq_imp_distinct_iff unfolding keyed_def by blast
  moreover have es: "set es = (\<lambda>x. exported_row (snd x)) ` set ?t"
    using mset_eq_setD [OF m] by simp
  then have "\<forall>r \<in> set es. r_name r \<noteq> []"
    using table_of_names [of rs] by (auto simp: exported_row_def)
  ultimately have te: "table_of es = map (\<lambda>r. (row_key r, r)) es"
    by (rule table_of_distinct)
  then have "map snd (table_of es) = es"
    by (simp add: o_def)
  then show "table_versions (table_of es) p n = map exported_row (table_versions ?t p n)"
    using key table_of_keyed [of rs] m
    by (intro keyed_versions_mset) (simp_all add: keyed_def)
  have "row_key ` set es = fst ` set ?t"
    unfolding es image_image by (rule image_cong [OF refl]) (rule key)
  then have "fst ` fst ` set (table_of es) = fst ` fst ` set ?t"
    by (simp add: te image_image)
  then show "set (table_dirs (table_of es)) = set (table_dirs ?t)"
    by (simp add: table_dirs_set)
qed

lemma exported_lookup:
  assumes "mset es = mset (map (\<lambda>x. exported_row (snd x)) (table_of rs))"
    and "\<forall>r \<in> set rs. print_dir (r_path r) = r_path r"
  shows "table_lookup (table_of es) dir name v = map_option exported_row (table_lookup (table_of rs) dir name v)"
proof -
  have "table_resolve (table_of es) dir = table_resolve (table_of rs) dir"
    by (simp add: table_resolve_def exported_table(2) [OF assms])
  then show ?thesis
    by (cases "table_resolve (table_of rs) dir")
      (simp_all add: table_lookup_def exported_table(1) [OF assms] pick_version_map)
qed

lemma exported_lookup_with:
  assumes rep: "mb_rep c (table_of es)" "length (table_of es) \<le> 2 ^ 31"
    and m: "mset es = mset (map (\<lambda>x. exported_row (snd x)) (table_of rs))"
    and canon: "\<forall>r \<in> set rs. print_dir (r_path r) = r_path r"
    and g: "\<And>j. j < length (table_of es) \<Longrightarrow> g (of_nat j) = f (snd (table_of es ! j))"
    and f: "\<And>r. f (exported_row r) = f r"
  shows "map_option g (lookup_entry_index (finish c) dir name v) =
    map_option f (table_lookup (table_of rs) dir name (sint v))"
  using finish_lookup_with [where f = f and g = g, OF rep g]
  by (simp add: exported_lookup [OF m canon] option.map_comp o_def f)

lemma exported_weight:
  assumes m: "mset es = mset (map (\<lambda>x. exported_row (snd x)) (table_of rs))"
    and canon: "\<forall>r \<in> set rs. print_dir (r_path r) = r_path r"
  shows "rows_weight es \<le> rows_weight rs"
proof -
  have "row_weight (exported_row (snd x)) = row_weight (snd x)" if "x \<in> set (table_of rs)" for x
    using canon table_of_rows [OF that] by (simp add: row_weight_def exported_row_def)
  then have "mset (map row_weight es) = mset (map (\<lambda>x. row_weight (snd x)) (table_of rs))"
    by (rule mset_map_through [OF m])
  then have "rows_weight es = sum_list (map (\<lambda>x. row_weight (snd x)) (table_of rs))"
    unfolding rows_weight_def by (simp only: flip: sum_mset_sum_list)
  then show ?thesis using table_of_weight [of rs] by simp
qed

lemma ex_map_conv_mset: "mset qs = mset (map f xs) \<Longrightarrow> \<exists>us. qs = map f us \<and> mset us = mset xs"
proof (induction qs arbitrary: xs)
  case (Cons q qs)
  then have "q \<in> set (map f xs)" by (metis list.set_intros(1) mset_eq_setD)
  then obtain x where x: "x \<in> set xs" "q = f x" by auto
  then obtain us vs where xs: "xs = us @ x # vs" by (meson split_list)
  with Cons.prems x have "mset qs = mset (map f (us @ vs))" by simp
  from Cons.IH [OF this] obtain ws where "qs = map f ws" "mset ws = mset (us @ vs)" by blast
  with x xs show ?case by (intro exI [of _ "x # ws"]) simp
qed simp

section \<open>Properties\<close>

text \<open>C31: Exporting a finished index yields every row of the table exactly once and nothing else, with
  the clamped fields and the directory printed from its interned segments.\<close>

theorem export_complete:
  assumes "rows_weight rs + 2 < 2 ^ 32" "push_rows mb_new rs = Some b"
  shows "mset (export_file_rows (finish b)) = mset (map (\<lambda>x. exported_row (snd x)) (table_of rs))"
  by (rule export_mset) (rule push_rows_represents [OF assms])

theorem export_complete_witness:
  "\<exists>b. push_rows mb_new [sample_row ''/d'' ''f'' 0 7, sample_row '''' ''g'' 512 3, sample_row ''/d'' ''f'' 0 9] = Some b
    \<and> mset (export_file_rows (finish b)) = mset [sample_row ''/d'' ''f'' 0 9, sample_row '''' ''g'' 512 3]"
proof -
  let ?rs = "[sample_row ''/d'' ''f'' 0 7, sample_row '''' ''g'' 512 3, sample_row ''/d'' ''f'' 0 9]"
  have w: "rows_weight ?rs + 2 < 2 ^ 32" by code_simp
  obtain b where b: "push_rows mb_new ?rs = Some b" using push_rows_new [OF w] by blast
  have "map (\<lambda>x. exported_row (snd x)) (table_of ?rs) = [sample_row ''/d'' ''f'' 0 9, sample_row '''' ''g'' 512 3]"
    by code_simp
  with export_complete [OF w b] b show ?thesis by auto
qed

text \<open>C10: Round trip: an index rebuilt from the exported rows of a finished index answers every lookup
  and every open-cookie query as the original does, when the directories are printed canonically.\<close>

theorem export_import_roundtrip:
  assumes w: "rows_weight rs + 2 < 2 ^ 32" and b: "push_rows mb_new rs = Some b"
    and canon: "\<forall>r \<in> set rs. print_dir (r_path r) = r_path r"
  shows "\<exists>c. push_rows mb_new (export_file_rows (finish b)) = Some c
    \<and> (\<forall>dir name v. mi_lookup (finish c) dir name v = mi_lookup (finish b) dir name v
        \<and> lookup_open_cookie (finish c) dir name v = lookup_open_cookie (finish b) dir name v)"
proof -
  let ?es = "export_file_rows (finish b)"
  note rep = push_rows_represents [OF w b]
  note m = export_mset [OF rep(1)]
  have w': "rows_weight ?es + 2 < 2 ^ 32"
    using exported_weight [OF m canon] w by simp
  obtain c where c: "push_rows mb_new ?es = Some c" using push_rows_new [OF w'] by blast
  note rep' = push_rows_represents [OF w' c]
  note l = exported_lookup_with [OF rep' m canon]
  show ?thesis
    using l [where f = row_info, OF stored_row_info(1) [OF rep'(1)]]
      l [where f = row_cookie, OF stored_row_info(2) [OF rep'(1)]] c
      finish_lookup_with [where f = row_info, OF rep stored_row_info(1) [OF rep(1)]]
      finish_lookup_with [where f = row_cookie, OF rep stored_row_info(2) [OF rep(1)]]
    by (simp add: mi_lookup_def lookup_open_cookie_def)
qed

theorem export_import_roundtrip_witness:
  "\<exists>b c. push_rows mb_new [sample_row ''/d'' ''f'' 0 7, sample_row '''' ''g'' 512 3] = Some b
    \<and> push_rows mb_new (export_file_rows (finish b)) = Some c
    \<and> mi_lookup (finish c) ''/d'' ''f'' 0 = mi_lookup (finish b) ''/d'' ''f'' 0"
proof -
  let ?rs = "[sample_row ''/d'' ''f'' 0 7, sample_row '''' ''g'' 512 3]"
  have w: "rows_weight ?rs + 2 < 2 ^ 32" by code_simp
  obtain b where b: "push_rows mb_new ?rs = Some b" using push_rows_new [OF w] by blast
  have "\<forall>r \<in> set ?rs. print_dir (r_path r) = r_path r" by code_simp
  from export_import_roundtrip [OF w b this] b show ?thesis by blast
qed

end
