(* ===== verification/Sqlite_Index.thy ===== *)
theory Sqlite_Index
  imports Mem_Export "HOL-Library.Option_ord"
begin

text \<open>
  The index facade (\<open>SqliteIndex\<close> in \<open>ratarmount-index/src/lib.rs\<close>): rows are inserted into the
  SQL table \<open>files\<close> and into the compact builder, \<open>seal_mem_index\<close> turns the builder into the
  in-memory index, and every query uses the in-memory index when there is one and SQL otherwise.

  SQLite is a parameter, a record of the statements the code prepares; \<open>sql_spec\<close> states what their
  text means on the table's contents.
\<close>

section \<open>Definitions\<close>

definition MEM_INDEX_MAX_FILES :: u64 where "MEM_INDEX_MAX_FILES = 500000"

datatype index_error =
    Sqlite string | Invalid string | Mismatch string | Io io_error | Remote string | NotOpen
  | Cancelled | Panicked

text \<open>A result row: \<open>None\<close> is SQL's \<open>NULL\<close>.\<close>

record sql_row =
  s_path :: string
  s_name :: string
  s_offsetheader :: "i64 option"
  s_offset :: "i64 option"
  s_size :: "i64 option"
  s_mtime :: "f64 option"
  s_mode :: "i64 option"
  s_type :: "i64 option"
  s_linkname :: "string option"
  s_uid :: "i64 option"
  s_gid :: "i64 option"
  s_istar :: "i64 option"
  s_issparse :: "i64 option"
  s_isgenerated :: "i64 option"
  s_recursiondepth :: "i64 option"

text \<open>
  The prepared statements: the insert-or-replace, the row count, the count and the one-row select
  of a name's versions (\<open>True\<close> for descending order), the rows of a directory by header offset,
  all rows, the table names, and whether a table has a row.
\<close>

record 'db sql_engine =
  se_insert :: "'db \<Rightarrow> sql_row \<Rightarrow> 'db \<times> (index_error + unit)"
  se_count :: "'db \<Rightarrow> index_error + i64"
  se_count_version :: "'db \<Rightarrow> string \<Rightarrow> string \<Rightarrow> index_error + i64"
  se_select_version :: "'db \<Rightarrow> string \<Rightarrow> string \<Rightarrow> bool \<Rightarrow> i64 \<Rightarrow> index_error + sql_row option"
  se_select_dir :: "'db \<Rightarrow> string \<Rightarrow> index_error + sql_row list"
  se_select_all :: "'db \<Rightarrow> index_error + sql_row list"
  se_tables :: "'db \<Rightarrow> index_error + string list"
  se_has_rows :: "'db \<Rightarrow> string \<Rightarrow> index_error + bool"

record 'db sqlite_index =
  ix_conn :: 'db
  ix_read_only :: bool
  ix_mem :: "mem_index option"
  ix_mem_builder :: "mem_index_builder option"
  ix_compact_only :: bool

definition create_writable :: "'db \<Rightarrow> 'db sqlite_index" where
  "create_writable conn =
     \<lparr>ix_conn = conn, ix_read_only = False, ix_mem = None, ix_mem_builder = Some mb_new,
      ix_compact_only = False\<rparr>"

definition create_compact_only :: "'db \<Rightarrow> 'db sqlite_index" where
  "create_compact_only conn =
     \<lparr>ix_conn = conn, ix_read_only = False, ix_mem = None, ix_mem_builder = Some mb_new,
      ix_compact_only = True\<rparr>"

definition sql_bool :: "bool \<Rightarrow> i64" where
  "sql_bool b = (if b then 1 else 0)"

definition bind_files_row :: "file_row \<Rightarrow> sql_row" where
  "bind_files_row r =
     \<lparr>s_path = r_path r, s_name = r_name r, s_offsetheader = Some (r_offsetheader r),
      s_offset = Some (r_offset r), s_size = Some (r_size r), s_mtime = Some (r_mtime r),
      s_mode = Some (r_mode r), s_type = Some (r_typeflag r), s_linkname = Some (r_linkname r),
      s_uid = Some (r_uid r), s_gid = Some (r_gid r), s_istar = Some (sql_bool (r_istar r)),
      s_issparse = Some (sql_bool (r_issparse r)), s_isgenerated = Some (sql_bool (r_isgenerated r)),
      s_recursiondepth = Some (r_recursiondepth r)\<rparr>"

fun insert_stmts :: "'db sql_engine \<Rightarrow> 'db \<Rightarrow> file_row list \<Rightarrow> 'db \<times> (index_error + unit)" where
  "insert_stmts eng db [] = (db, Inr ())"
| "insert_stmts eng db (r # rs) =
     (case se_insert eng db (bind_files_row r) of
        (db', Inl e) \<Rightarrow> (db', Inl e)
      | (db', Inr _) \<Rightarrow> insert_stmts eng db' rs)"

definition insert_files_batch ::
    "'db sql_engine \<Rightarrow> 'db sqlite_index \<Rightarrow> file_row list \<Rightarrow> 'db sqlite_index \<times> (index_error + unit)" where
  "insert_files_batch eng ix rows =
     (if rows = [] then (ix, Inr ())
      else if ix_read_only ix then (ix, Inl (Invalid ''index is read-only''))
      else
        let (db, res) = (if ix_compact_only ix then (ix_conn ix, Inr ())
                         else insert_stmts eng (ix_conn ix) rows);
            ix1 = ix\<lparr>ix_conn := db\<rparr>
        in case res of
             Inl e \<Rightarrow> (ix1, Inl e)
           | Inr _ \<Rightarrow>
               (case ix_mem_builder ix1 of
                  None \<Rightarrow> (ix1, Inr ())
                | Some b \<Rightarrow>
                    (case push_rows b rows of
                       None \<Rightarrow> (ix1, Inl Panicked)
                     | Some b' \<Rightarrow> (ix1\<lparr>ix_mem_builder := Some b'\<rparr>, Inr ()))))"

definition file_count_db :: "'db sql_engine \<Rightarrow> 'db sqlite_index \<Rightarrow> index_error + u64" where
  "file_count_db eng ix =
     (if ix_compact_only ix then Inr 0 else se_count eng (ix_conn ix))"

text \<open>Required columns: \<open>row.get(i)?\<close> fails on \<open>NULL\<close>; \<open>get_or\<close> is \<open>unwrap_or\<close>.\<close>

definition get_col :: "'a option \<Rightarrow> index_error + 'a" where
  "get_col c = (case c of None \<Rightarrow> Inl (Sqlite ''invalid column type'') | Some v \<Rightarrow> Inr v)"

definition get_or :: "'a \<Rightarrow> 'a option \<Rightarrow> 'a" where
  "get_or d c = (case c of None \<Rightarrow> d | Some v \<Rightarrow> v)"

definition res_bind :: "'e + 'a \<Rightarrow> ('a \<Rightarrow> 'e + 'b) \<Rightarrow> 'e + 'b" where
  "res_bind r f = (case r of Inl e \<Rightarrow> Inl e | Inr v \<Rightarrow> f v)"

definition load_row :: "sql_row \<Rightarrow> index_error + sql_mem_row" where
  "load_row q =
     res_bind (get_col (s_offset q)) (\<lambda>offset.
     res_bind (get_col (s_size q)) (\<lambda>size.
     res_bind (get_col (s_mtime q)) (\<lambda>mtime.
     res_bind (get_col (s_mode q)) (\<lambda>mode.
       Inr \<lparr>q_path = s_path q, q_name = s_name q, q_offsetheader = get_or (-1) (s_offsetheader q),
            q_offset = max0 offset, q_size = max0 size, q_mtime = mtime, q_mode = ucast mode,
            q_linkname = get_or '''' (s_linkname q),
            q_uid = ucast (max0 (get_or 0 (s_uid q))), q_gid = ucast (max0 (get_or 0 (s_gid q))),
            q_istar = (get_or 0 (s_istar q) \<noteq> 0), q_issparse = (get_or 0 (s_issparse q) \<noteq> 0),
            q_isgenerated = (get_or 0 (s_isgenerated q) \<noteq> 0),
            q_recursiondepth = ucast (max0 (get_or 0 (s_recursiondepth q)))\<rparr>))))"

fun load_rows :: "sql_row list \<Rightarrow> index_error + sql_mem_row list" where
  "load_rows [] = Inr []"
| "load_rows (q # qs) =
     (if s_name q = [] then load_rows qs
      else res_bind (load_row q) (\<lambda>r. res_bind (load_rows qs) (\<lambda>rs. Inr (r # rs))))"

definition load_mem_index :: "'db sql_engine \<Rightarrow> 'db sqlite_index \<Rightarrow> index_error + mem_index" where
  "load_mem_index eng ix =
     res_bind (se_select_all eng (ix_conn ix)) (\<lambda>qs.
       res_bind (load_rows qs) (\<lambda>rs.
         case mem_index_from_sql_rows rs of None \<Rightarrow> Inl Panicked | Some m \<Rightarrow> Inr m))"

definition seal_mem_index ::
    "'db sql_engine \<Rightarrow> 'db sqlite_index \<Rightarrow> 'db sqlite_index \<times> (index_error + unit)" where
  "seal_mem_index eng ix =
     (if ix_mem ix \<noteq> None then (ix, Inr ())
      else
        let ix1 = ix\<lparr>ix_mem_builder := None\<rparr> in
        case ix_mem_builder ix of
          Some b \<Rightarrow>
            (if mb_count b > 0 \<and> (ix_compact_only ix \<or> mb_count b \<le> MEM_INDEX_MAX_FILES)
             then ix1\<lparr>ix_mem := Some (finish b)\<rparr> else ix1, Inr ())
        | None \<Rightarrow>
            if ix_compact_only ix then (ix1, Inr ())
            else
              (case file_count_db eng ix1 of
                 Inl _ \<Rightarrow> (ix1, Inr ())
               | Inr n \<Rightarrow>
                   if n > 0 \<and> n \<le> MEM_INDEX_MAX_FILES then
                     (case load_mem_index eng ix1 of
                        Inl e \<Rightarrow> (ix1, Inl e)
                      | Inr m \<Rightarrow> (ix1\<lparr>ix_mem := Some m\<rparr>, Inr ()))
                   else (ix1, Inr ())))"

text \<open>A warm open of a finished index file, over the opened connection.\<close>

definition table_has_rows :: "'db sql_engine \<Rightarrow> 'db \<Rightarrow> string list \<Rightarrow> string \<Rightarrow> index_error + bool" where
  "table_has_rows eng db tables name =
     (if name \<in> set tables then se_has_rows eng db name else Inr False)"

definition validate_loaded :: "'db sql_engine \<Rightarrow> 'db \<Rightarrow> index_error + unit" where
  "validate_loaded eng db =
     res_bind (se_tables eng db) (\<lambda>tables.
       if ''files'' \<notin> set tables then Inl (Invalid ''SQLite index is empty'')
       else if ''filestmp'' \<in> set tables \<or> ''parentfolders'' \<in> set tables then
         res_bind (table_has_rows eng db tables ''filestmp'') (\<lambda>t.
           if t then Inl (Invalid ''SQLite index is incomplete'')
           else res_bind (table_has_rows eng db tables ''parentfolders'') (\<lambda>f.
             if f then Inl (Invalid ''SQLite index is incomplete'') else Inr ()))
       else Inr ())"

definition open_read_only_with :: "'db sql_engine \<Rightarrow> 'db \<Rightarrow> bool \<Rightarrow> index_error + 'db sqlite_index" where
  "open_read_only_with eng conn load_mem =
     (let idx = \<lparr>ix_conn = conn, ix_read_only = True, ix_mem = None, ix_mem_builder = None,
                 ix_compact_only = False\<rparr>
      in res_bind (validate_loaded eng conn) (\<lambda>_.
           if load_mem then
             (case file_count_db eng idx of
                Inl _ \<Rightarrow> Inr idx
              | Inr n \<Rightarrow>
                  if n > 0 \<and> n \<le> MEM_INDEX_MAX_FILES
                  then res_bind (load_mem_index eng idx) (\<lambda>m. Inr (idx\<lparr>ix_mem := Some m\<rparr>))
                  else Inr idx)
           else Inr idx))"

text \<open>The row projections of the SQL paths.\<close>

definition row_to_file_info :: "sql_row \<Rightarrow> index_error + file_info" where
  "row_to_file_info q =
     res_bind (get_col (s_offset q)) (\<lambda>offset.
     res_bind (get_col (s_size q)) (\<lambda>size.
     res_bind (get_col (s_mtime q)) (\<lambda>mtime.
     res_bind (get_col (s_mode q)) (\<lambda>mode.
       Inr \<lparr>fi_size = max0 size, fi_mtime = mtime, fi_mode = ucast mode,
            fi_linkname = get_or '''' (s_linkname q),
            fi_uid = ucast (get_or 0 (s_uid q)), fi_gid = ucast (get_or 0 (s_gid q)),
            fi_userdata = [Tar \<lparr>td_offset = max0 offset,
              td_offsetheader = map_option max0 (s_offsetheader q),
              td_istar = (get_or 0 (s_istar q) \<noteq> 0), td_issparse = (get_or 0 (s_issparse q) \<noteq> 0),
              td_isgenerated = (get_or 0 (s_isgenerated q) \<noteq> 0),
              td_recursiondepth = ucast (max0 (get_or 0 (s_recursiondepth q)))\<rparr>]\<rparr>))))"

text \<open>\<open>file_info_from_named_row\<close> reads the same columns from shifted positions.\<close>

definition file_info_from_named_row :: "sql_row \<Rightarrow> index_error + file_info" where
  "file_info_from_named_row q = row_to_file_info q"

definition ix_version_count :: "'db sql_engine \<Rightarrow> 'db sqlite_index \<Rightarrow> string \<Rightarrow> index_error + u32" where
  "ix_version_count eng ix path0 =
     (let path = query_normpath path0 in
      if path = ''/'' then Inr 1
      else
        let (dir, name) = split_path path in
        case ix_mem ix of
          Some mem \<Rightarrow> Inr (mi_version_count mem dir name)
        | None \<Rightarrow> res_bind (se_count_version eng (ix_conn ix) dir name) (\<lambda>n. Inr (ucast n)))"

definition ix_lookup ::
    "'db sql_engine \<Rightarrow> host_env \<Rightarrow> 'db sqlite_index \<Rightarrow> string \<Rightarrow> i32 \<Rightarrow> index_error + file_info option" where
  "ix_lookup eng env ix path0 file_version =
     (let path = query_normpath path0 in
      if path = ''/'' then Inr (Some (create_root_file_info env))
      else
        let (dir, name) = split_path path in
        case ix_mem ix of
          Some mem \<Rightarrow> Inr (mi_lookup mem dir name file_version)
        | None \<Rightarrow>
            let (desc, offset) =
                  (if sint file_version \<le> 0 then (True, scast (- file_version) :: i64)
                   else (False, scast (file_version - 1) :: i64))
            in res_bind (se_select_version eng (ix_conn ix) dir name desc offset) (\<lambda>row.
                 case row of
                   None \<Rightarrow> Inr None
                 | Some q \<Rightarrow> res_bind (row_to_file_info q) (\<lambda>fi. Inr (Some fi))))"

definition ix_lookup_open_cookie ::
    "'db sqlite_index \<Rightarrow> string \<Rightarrow> i32 \<Rightarrow> index_error + compact_open_cookie option" where
  "ix_lookup_open_cookie ix path0 file_version =
     (let path = query_normpath path0 in
      if path = ''/'' then Inr None
      else
        let (dir, name) = split_path path in
        case ix_mem ix of
          Some mem \<Rightarrow> Inr (lookup_open_cookie mem dir name file_version)
        | None \<Rightarrow> Inr None)"

fun collect_infos :: "sql_row list \<Rightarrow> (string \<times> file_info) list \<Rightarrow> index_error + (string \<times> file_info) list" where
  "collect_infos [] acc = Inr acc"
| "collect_infos (q # qs) acc =
     (if s_name q = [] then collect_infos qs acc
      else res_bind (file_info_from_named_row q) (\<lambda>fi. collect_infos qs (bt_insert (s_name q) fi acc)))"

definition ix_list ::
    "'db sql_engine \<Rightarrow> 'db sqlite_index \<Rightarrow> string \<Rightarrow> index_error + (string \<times> file_info) list option" where
  "ix_list eng ix path0 =
     (let dir = trim_end_matches CHR ''/'' (query_normpath path0) in
      case ix_mem ix of
        Some mem \<Rightarrow> Inr (mi_list mem dir)
      | None \<Rightarrow>
          res_bind (se_select_dir eng (ix_conn ix) dir) (\<lambda>qs.
            res_bind (collect_infos qs []) (\<lambda>m. Inr (if qs = [] then None else Some m))))"

definition dirent_of_row :: "sql_row \<Rightarrow> index_error + index_dirent" where
  "dirent_of_row q =
     res_bind (get_col (s_offset q)) (\<lambda>offset.
     res_bind (get_col (s_size q)) (\<lambda>size.
     res_bind (get_col (s_mode q)) (\<lambda>mode.
       Inr \<lparr>id_name = s_name q, id_mode = ucast mode, id_size = max0 size,
            id_linkname = get_or '''' (s_linkname q),
            id_cookie = \<lparr>oc_offsetheader = get_or (-1) (s_offsetheader q), oc_offset = max0 offset,
              oc_size = max0 size, oc_mode = ucast mode,
              oc_istar = (get_or 0 (s_istar q) \<noteq> 0), oc_issparse = (get_or 0 (s_issparse q) \<noteq> 0),
              oc_isgenerated = (get_or 0 (s_isgenerated q) \<noteq> 0),
              oc_recursiondepth = ucast (max0 (get_or 0 (s_recursiondepth q)))\<rparr>\<rparr>)))"

fun collect_dirents ::
    "sql_row list \<Rightarrow> (string \<times> index_dirent) list \<Rightarrow> index_error + (string \<times> index_dirent) list" where
  "collect_dirents [] acc = Inr acc"
| "collect_dirents (q # qs) acc =
     (if s_name q = [] then collect_dirents qs acc
      else res_bind (dirent_of_row q) (\<lambda>d. collect_dirents qs (bt_insert (s_name q) d acc)))"

definition ix_list_dirents ::
    "'db sql_engine \<Rightarrow> 'db sqlite_index \<Rightarrow> string \<Rightarrow> index_error + index_dirent list option" where
  "ix_list_dirents eng ix path0 =
     (let dir = trim_end_matches CHR ''/'' (query_normpath path0) in
      case ix_mem ix of
        Some mem \<Rightarrow> Inr (mi_list_dirents mem dir)
      | None \<Rightarrow>
          res_bind (se_select_dir eng (ix_conn ix) dir) (\<lambda>qs.
            res_bind (collect_dirents qs []) (\<lambda>m. Inr (if qs = [] then None else Some (map snd m)))))"

definition ix_list_mode ::
    "'db sql_engine \<Rightarrow> 'db sqlite_index \<Rightarrow> string \<Rightarrow> index_error + (string \<times> u32) list option" where
  "ix_list_mode eng ix path =
     res_bind (ix_list_dirents eng ix path) (\<lambda>dents.
       Inr (map_option (bt_collect id_name id_mode) dents))"

section \<open>What the SQL statements mean\<close>

text \<open>
  The documented behaviour the code relies on, over the contents of the table: an insert of a row
  replaces the row with the same primary key (rows with a header offset; SQLite stores a NaN as
  \<open>NULL\<close>, so the law is for proper numbers), a select returns the matching rows ordered by header
  offset (\<open>NULL\<close> first; rows with equal offsets in any order), and a negative \<open>OFFSET\<close> counts as 0.
\<close>

definition is_nan :: "f64 \<Rightarrow> bool" where
  "is_nan x \<longleftrightarrow> x AND 0x7FF0000000000000 = 0x7FF0000000000000 \<and> x AND 0x000FFFFFFFFFFFFF \<noteq> 0"

definition oh_key :: "sql_row \<Rightarrow> int option" where
  "oh_key q = map_option sint (s_offsetheader q)"

definition sql_key :: "sql_row \<Rightarrow> string \<times> string \<times> i64 option" where
  "sql_key q = (s_path q, s_name q, s_offsetheader q)"

definition ordered_rows :: "(sql_row \<Rightarrow> bool) \<Rightarrow> sql_row list \<Rightarrow> sql_row list \<Rightarrow> bool" where
  "ordered_rows P table qs \<longleftrightarrow> mset qs = mset (filter P table) \<and> sorted (map oh_key qs)"

definition sql_spec :: "'db sql_engine \<Rightarrow> ('db \<Rightarrow> sql_row list) \<Rightarrow> bool" where
  "sql_spec eng content \<longleftrightarrow>
     (\<forall>db q. s_offsetheader q \<noteq> None \<longrightarrow> (\<forall>x. s_mtime q = Some x \<longrightarrow> \<not> is_nan x) \<longrightarrow>
        (\<exists>db'. se_insert eng db q = (db', Inr ())
           \<and> content db' = filter (\<lambda>x. sql_key x \<noteq> sql_key q) (content db) @ [q]))
     \<and> (\<forall>db p n. se_count_version eng db p n =
          Inr (of_nat (length (filter (\<lambda>q. s_path q = p \<and> s_name q = n) (content db)))))
     \<and> (\<forall>db p n desc off. \<exists>qs. ordered_rows (\<lambda>q. s_path q = p \<and> s_name q = n) (content db) qs
          \<and> se_select_version eng db p n desc off =
              (let rs = (if desc then rev qs else qs); i = nat (sint off)
               in Inr (if i < length rs then Some (rs ! i) else None)))
     \<and> (\<forall>db p. \<exists>qs. ordered_rows (\<lambda>q. s_path q = p) (content db) qs
          \<and> se_select_dir eng db p = Inr qs)
     \<and> (\<forall>db. se_count eng db = Inr (of_nat (length (content db))))
     \<and> (\<forall>db. \<exists>qs. mset qs = mset (content db) \<and> se_select_all eng db = Inr qs)"

lemma sql_insertD:
  assumes "sql_spec eng content" "s_offsetheader q \<noteq> None" "\<forall>x. s_mtime q = Some x \<longrightarrow> \<not> is_nan x"
  shows "\<exists>db'. se_insert eng db q = (db', Inr ())
    \<and> content db' = filter (\<lambda>x. sql_key x \<noteq> sql_key q) (content db) @ [q]"
  using assms unfolding sql_spec_def by blast

lemma sql_selectD:
  assumes "sql_spec eng content"
  shows "se_count_version eng db p n = Inr (of_nat (length (filter (\<lambda>q. s_path q = p \<and> s_name q = n) (content db))))"
    and "\<exists>qs. ordered_rows (\<lambda>q. s_path q = p \<and> s_name q = n) (content db) qs
      \<and> se_select_version eng db p n desc off =
          (let rs = (if desc then rev qs else qs); i = nat (sint off)
           in Inr (if i < length rs then Some (rs ! i) else None))"
    and "\<exists>qs. ordered_rows (\<lambda>q. s_path q = p) (content db) qs \<and> se_select_dir eng db p = Inr qs"
    and "se_count eng db = Inr (of_nat (length (content db)))"
    and "\<exists>qs. mset qs = mset (content db) \<and> se_select_all eng db = Inr qs"
  using assms unfolding sql_spec_def by blast+

section \<open>The table after inserts\<close>

text \<open>Rows a format builder writes: named, in a canonical directory, with ids that are not negative.\<close>

definition canonical_dir :: "string \<Rightarrow> bool" where
  "canonical_dir d \<longleftrightarrow> d = [] \<or> (d \<noteq> ''/'' \<and> normpath d = d)"

definition good_row :: "file_row \<Rightarrow> bool" where
  "good_row r \<longleftrightarrow> r_name r \<noteq> [] \<and> canonical_dir (r_path r) \<and> \<not> is_nan (r_mtime r)
     \<and> 0 \<le> sint (r_offsetheader r) \<and> 0 \<le> sint (r_uid r) \<and> 0 \<le> sint (r_gid r)"

lemma bind_files_row_key [simp]:
  "s_path (bind_files_row r) = r_path r" "s_name (bind_files_row r) = r_name r"
  "s_offsetheader (bind_files_row r) = Some (r_offsetheader r)"
  by (simp_all add: bind_files_row_def)

lemma sql_key_bind: "sql_key (bind_files_row r) = sql_key (bind_files_row s) \<longleftrightarrow> row_key r = row_key s"
  by (simp add: sql_key_def bind_files_row_def row_key_def)

lemma alist_update_mset:
  assumes "keyed t"
  shows "mset (map (\<lambda>x. f (snd x)) (AList.update (row_key r) r t)) =
    add_mset (f r) (mset (map (\<lambda>x. f (snd x)) (filter (\<lambda>x. row_key (snd x) \<noteq> row_key r) t)))"
  using assms
proof (induction t)
  case (Cons x t)
  have "distinct (map fst (x # t))" and a: "\<forall>y \<in> set (x # t). fst y = row_key (snd y)"
    using Cons.prems unfolding keyed_def by blast+
  then have d: "distinct (map fst t)" and k3: "fst x \<notin> fst ` set t"
    by simp_all
  have k: "keyed t" "fst x = row_key (snd x)"
    using d a by (simp_all add: keyed_def)
  show ?case
  proof (cases "fst x = row_key r")
    case True
    have "row_key (snd y) \<noteq> row_key r" if "y \<in> set t" for y
    proof -
      have "fst y = row_key (snd y)" "fst y \<in> fst ` set t"
        using that k(1) by (auto simp: keyed_def)
      with k3 True show ?thesis by metis
    qed
    then have "filter (\<lambda>y. row_key (snd y) \<noteq> row_key r) t = t"
      by (simp add: filter_id_conv)
    with True k show ?thesis by (cases x) simp
  next
    case False
    with k Cons.IH [OF k(1)] show ?thesis by (cases x) simp
  qed
qed simp

definition content_is :: "sql_row list \<Rightarrow> row_table \<Rightarrow> bool" where
  "content_is qs t \<longleftrightarrow> mset qs = mset (map (\<lambda>x. bind_files_row (snd x)) t)"

lemma content_push:
  assumes "content_is qs t" "keyed t" "r_name r \<noteq> []"
  shows "content_is (filter (\<lambda>x. sql_key x \<noteq> sql_key (bind_files_row r)) qs @ [bind_files_row r]) (table_push t r)"
proof -
  have "filter (\<lambda>q. sql_key q \<noteq> sql_key (bind_files_row r)) (map (\<lambda>x. bind_files_row (snd x)) t)
      = map (\<lambda>x. bind_files_row (snd x)) (filter (\<lambda>x. row_key (snd x) \<noteq> row_key r) t)"
    by (induction t) (auto simp: sql_key_bind)
  moreover have "mset (filter (\<lambda>q. sql_key q \<noteq> sql_key (bind_files_row r)) qs)
      = mset (filter (\<lambda>q. sql_key q \<noteq> sql_key (bind_files_row r)) (map (\<lambda>x. bind_files_row (snd x)) t))"
    using assms(1) unfolding content_is_def by (simp only: mset_filter)
  ultimately have "mset (filter (\<lambda>q. sql_key q \<noteq> sql_key (bind_files_row r)) qs)
      = mset (map (\<lambda>x. bind_files_row (snd x)) (filter (\<lambda>x. row_key (snd x) \<noteq> row_key r) t))"
    by simp
  then show ?thesis
    using alist_update_mset [OF assms(2), of bind_files_row r] assms(3)
    by (simp add: content_is_def table_push_def)
qed

lemma keyed_push: "keyed t \<Longrightarrow> keyed (table_push t r)"
  by (auto simp: keyed_def table_push_def distinct_update dest!: subsetD [OF alist_update_subset])

lemma insert_stmts_content:
  assumes spec: "sql_spec eng content" and "content_is (content db) t" "keyed t" "\<forall>r \<in> set rs. good_row r"
  shows "\<exists>db'. insert_stmts eng db rs = (db', Inr ()) \<and> content_is (content db') (foldl table_push t rs)"
  using assms(2-)
proof (induction rs arbitrary: db t)
  case (Cons r rs)
  have g: "good_row r" using Cons.prems by simp
  then obtain db' where db': "se_insert eng db (bind_files_row r) = (db', Inr ())"
    "content db' = filter (\<lambda>x. sql_key x \<noteq> sql_key (bind_files_row r)) (content db) @ [bind_files_row r]"
    using sql_insertD [OF spec, of "bind_files_row r" db] by (auto simp: bind_files_row_def good_row_def)
  have "content_is (content db') (table_push t r)"
    unfolding db'(2) using Cons.prems g by (intro content_push) (auto simp: good_row_def)
  with Cons.IH [of db' "table_push t r"] Cons.prems db'(1) keyed_push show ?case by auto
qed simp

section \<open>Reading the table\<close>

lemma sort_key_Some: "sort_key (\<lambda>r. Some (f r)) xs = sort_key f xs"
proof (induction xs)
  case (Cons x xs)
  have "insort_key (\<lambda>r. Some (f r)) y ys = insort_key f y ys" for y ys
    by (induction ys) simp_all
  with Cons show ?case by simp
qed simp

lemma ordered_versions:
  assumes c: "content_is table t" and t: "keyed t"
    and o: "ordered_rows (\<lambda>q. s_path q = p \<and> s_name q = n) table qs"
  shows "qs = map bind_files_row (table_versions t p n)"
proof -
  let ?P = "\<lambda>r. r_path r = p \<and> r_name r = n"
  let ?Q = "\<lambda>q. s_path q = p \<and> s_name q = n"
  let ?rs = "filter ?P (map snd t)"
  have oh: "oh_key (bind_files_row r) = Some (sint (r_offsetheader r))" for r
    by (simp add: oh_key_def bind_files_row_def)
  have "filter ?Q (map bind_files_row (map snd t)) = map bind_files_row ?rs"
    by (induction t) (auto simp: bind_files_row_def)
  moreover have "mset (filter ?Q table) = mset (filter ?Q (map bind_files_row (map snd t)))"
    using c unfolding content_is_def by (simp only: mset_filter map_map o_def)
  ultimately have m: "mset qs = mset (map bind_files_row ?rs)"
    using o by (simp add: ordered_rows_def)
  have "inj_on oh_key (set (map bind_files_row ?rs))"
  proof (rule inj_onI)
    fix x y
    assume "x \<in> set (map bind_files_row ?rs)" "y \<in> set (map bind_files_row ?rs)" and e: "oh_key x = oh_key y"
    then obtain r s where rs: "r \<in> set ?rs" "s \<in> set ?rs" "x = bind_files_row r" "y = bind_files_row s"
      unfolding set_map [of bind_files_row] by blast
    then have "r = s"
      using e inj_onD [OF keyed_inj [OF t]] by (simp only: oh option.inject)
    with rs show "x = y" by simp
  qed
  then have "sort_key oh_key (map bind_files_row ?rs) = qs"
    using o m by (intro sort_key_inj_key_eq) (simp_all add: ordered_rows_def)
  moreover have "sort_key oh_key (map bind_files_row ?rs) = map bind_files_row (table_versions t p n)"
    by (simp add: sort_key_map oh table_versions_def sort_key_Some)
  ultimately show ?thesis by simp
qed

text \<open>For good rows the SQL projections give what the columns give.\<close>

lemma sql_bool_iff [simp]: "(sql_bool b \<noteq> 0) = b"
  by (simp add: sql_bool_def)

lemma good_row_info:
  assumes "good_row r"
  shows "row_to_file_info (bind_files_row r) = Inr (row_info r)"
    and "dirent_of_row (bind_files_row r) = Inr (row_dirent r)"
proof -
  have "max0 (r_uid r) = r_uid r" "max0 (r_gid r) = r_gid r" "max0 (r_offsetheader r) = r_offsetheader r"
    using assms by (simp_all add: good_row_def max0_def)
  then show "row_to_file_info (bind_files_row r) = Inr (row_info r)"
    using assms
    by (simp add: row_to_file_info_def bind_files_row_def row_info_def res_bind_def get_col_def get_or_def
        good_row_def)
  show "dirent_of_row (bind_files_row r) = Inr (row_dirent r)"
    by (simp add: dirent_of_row_def bind_files_row_def row_dirent_def row_cookie_def res_bind_def get_col_def
        get_or_def)
qed

text \<open>A canonical directory resolves to itself.\<close>

lemma canonical_dirs_resolve:
  assumes dirs: "\<forall>d \<in> set (table_dirs t). canonical_dir d" and "canonical_dir d"
  shows "table_resolve t d = (if d \<in> set (table_dirs t) then Some d else None)"
proof (cases "d = []")
  case True
  then show ?thesis by (simp add: table_resolve_def table_dirs_def)
next
  case False
  then have n: "normpath d = d" "d \<noteq> ''/''"
    using assms(2) by (auto simp: canonical_dir_def)
  have d: "abs_path (components d) = d"
    using n(1) by (simp add: normpath_abs)
  then have "components d \<noteq> []"
    using n(2) by auto
  then obtain c cs where cs: "components d = c # cs" by (cases "components d") auto
  have comps: "is_comps (c # cs)"
    using components_is_comps [of d] by (simp only: cs)
  have d': "abs_path (c # cs) = d"
    using d unfolding cs .
  have trim: "trim_start_matches CHR ''/'' d = join_with ''/'' (c # cs)"
    using abs_path_trim [OF comps] unfolding d' .
  have "is_comp c"
    using comps by simp
  then obtain x ys where c: "c = x # ys" "x \<noteq> CHR ''/''"
    by (cases c) (auto simp: is_comp_def)
  obtain xs where j: "join_with ''/'' (c # cs) = x # xs"
    using c by (cases cs) auto
  have "\<not> canonical_dir (x # xs)"
  proof
    assume "canonical_dir (x # xs)"
    then have "normpath (x # xs) = x # xs" by (simp add: canonical_dir_def)
    then have "abs_path (components (x # xs)) = x # xs" by (simp add: normpath_abs)
    with c(2) show False by (simp add: abs_path_def split: if_splits)
  qed
  then have "join_with ''/'' (c # cs) \<notin> set (table_dirs t)"
    using dirs j by auto
  moreover have "starts_with d ''/''"
    using starts_with_abs_path [of "c # cs"] unfolding d' .
  ultimately show ?thesis
    using False n(2) by (simp add: table_resolve_def trim)
qed

section \<open>The two paths of a query\<close>

definition sql_only :: "'db sqlite_index \<Rightarrow> 'db sqlite_index" where
  "sql_only ix = ix\<lparr>ix_mem := None\<rparr>"

text \<open>The directory and name of a normalized path that is not the root.\<close>

lemma split_query_path:
  assumes "query_normpath p \<noteq> ''/''"
  shows "\<exists>d n. split_path (query_normpath p) = (d, n) \<and> canonical_dir d"
proof -
  have "components p \<noteq> []"
    using assms by (auto simp: query_normpath_abs)
  then obtain cs c where cs: "components p = cs @ [c]"
    by (cases "components p" rule: rev_cases) auto
  have ok: "is_comps (cs @ [c])"
    using components_is_comps [of p] by (simp only: cs)
  then have "canonical_dir (abs_path cs)" if "cs \<noteq> []"
    using that by (simp add: canonical_dir_def normpath_abs components_abs_path)
  then show ?thesis
    using split_path_abs [OF ok] by (auto simp: query_normpath_abs cs canonical_dir_def)
qed

lemma trim_end_abs_path:
  assumes "is_comps cs"
  shows "trim_end_matches CHR ''/'' (abs_path cs) = (if cs = [] then [] else abs_path cs)"
proof (cases cs rule: rev_cases)
  case Nil
  then show ?thesis by (simp add: trim_end_matches_def)
next
  case (snoc ds d)
  with assms have "is_comp d" by simp
  then obtain ys y where y: "d = ys @ [y]" "y \<noteq> CHR ''/''"
    by (cases d rule: rev_cases) (auto simp: is_comp_def)
  have "\<exists>zs. abs_path cs = zs @ [y]"
    unfolding snoc abs_path_snoc y(1) by auto
  then obtain zs where "abs_path cs = zs @ [y]" by blast
  with y(2) snoc show ?thesis by (simp add: trim_end_matches_def)
qed

lemma sint_scast_i32: "sint (scast (v :: i32) :: i64) = sint v"
  by (simp add: sint_up_scast is_up)

text \<open>Selecting a version in SQL, when it is in range, picks the version the table has.\<close>

lemma sql_pick:
  fixes v :: i32
  assumes n: "length vs \<le> 2 ^ 31" and r: "0 < sint v \<or> nat (- sint v) < length vs \<or> vs = []"
  shows "(let rs = (if sint v \<le> 0 then rev vs else vs);
              i = nat (sint (if sint v \<le> 0 then scast (- v) else scast (v - 1) :: i64))
          in if i < length rs then Some (rs ! i) else None) = pick_version (sint v) vs"
proof (cases "sint v \<le> 0")
  case True
  show ?thesis
  proof (cases "vs = []")
    case False
    with True r have i: "nat (- sint v) < length vs" by auto
    with n have "sint v \<noteq> - (2 ^ 31)" by auto
    then have "sint (scast (- v) :: i64) = - sint v"
      by (simp add: sint_scast_i32 sint_minus_i32)
    with True False i show ?thesis
      by (simp add: pick_version_def rev_nth Suc_diff_Suc diff_diff_eq)
  qed (simp add: pick_version_def)
next
  case False
  have "sint (v - 1) = sint v - 1"
    using False sint_lt [of v] by (simp add: sint_word_ariths signed_take_bit_int_eq_self)
  with False show ?thesis
    by (auto simp: pick_version_def sint_scast_i32 Let_def nat_diff_distrib')
qed

text \<open>An index whose rows came in through \<open>insert_files_batch\<close>: the builder, or the finished index,
  and the SQL table all stand for the table of the rows.\<close>

definition ix_rep :: "('db \<Rightarrow> sql_row list) \<Rightarrow> 'db sqlite_index \<Rightarrow> file_row list \<Rightarrow> bool" where
  "ix_rep content ix rs \<longleftrightarrow>
     content_is (content (ix_conn ix)) (table_of rs)
     \<and> (\<exists>b. ix_mem ix = Some (finish b) \<and> mb_rep b (table_of rs))
     \<and> length (table_of rs) \<le> 2 ^ 31 \<and> (\<forall>r \<in> set rs. good_row r)"

lemma table_of_bounds:
  "length (table_of rs) \<le> length rs" "\<exists>r \<in> set rs. r_name r \<noteq> [] \<Longrightarrow> table_of rs \<noteq> []"
proof -
  show "length (table_of rs) \<le> length rs"
  proof (induction rs rule: rev_induct)
    case (snoc r rs)
    with table_push_length [of "table_of rs" r] show ?case by (simp add: table_of_def)
  qed (simp add: table_of_def)
  have "table_push t r \<noteq> []" if "t \<noteq> [] \<or> r_name r \<noteq> []" for t r
    using that update_nonempty [of "row_key r" r t] by (auto simp: table_push_def)
  then show "\<exists>r \<in> set rs. r_name r \<noteq> [] \<Longrightarrow> table_of rs \<noteq> []"
    by (induction rs rule: rev_induct) (auto simp: table_of_def)
qed

lemma table_of_count:
  assumes good: "\<forall>r \<in> set rs. good_row r" and ne: "rs \<noteq> []" and max: "length rs \<le> 500000"
  shows "(0 :: u64) < of_nat (length (table_of rs))" "of_nat (length (table_of rs)) \<le> MEM_INDEX_MAX_FILES"
proof -
  have "hd rs \<in> set rs" "good_row (hd rs)"
    using good hd_in_set [OF ne] by blast+
  then have named: "\<exists>r \<in> set rs. r_name r \<noteq> []"
    unfolding good_row_def by blast
  have "0 < length (table_of rs)" "length (table_of rs) \<le> 500000"
    using table_of_bounds(1) [of rs] table_of_bounds(2) [of rs] named max by auto
  then show "(0 :: u64) < of_nat (length (table_of rs))" "of_nat (length (table_of rs)) \<le> MEM_INDEX_MAX_FILES"
    unfolding MEM_INDEX_MAX_FILES_def
    by (simp_all add: word_less_nat_alt word_le_nat_alt unat_of_nat)
qed

lemma insert_and_seal:
  assumes spec: "sql_spec eng content" and empty: "content db = []"
    and good: "\<forall>r \<in> set rs. good_row r" and ne: "rs \<noteq> []"
    and w: "rows_weight rs + 2 < 2 ^ 32" and max: "length rs \<le> 500000"
  shows "\<exists>ix1 ix2. insert_files_batch eng (create_writable db) rs = (ix1, Inr ())
    \<and> seal_mem_index eng ix1 = (ix2, Inr ()) \<and> ix_rep content ix2 rs"
proof -
  obtain db' where db': "insert_stmts eng db rs = (db', Inr ())" "content_is (content db') (table_of rs)"
    using insert_stmts_content [OF spec, of db "[]" rs] good empty
    by (auto simp: content_is_def keyed_def table_of_def)
  obtain b where b: "push_rows mb_new rs = Some b" using push_rows_new [OF w] by blast
  note rep = push_rows_represents [OF w b]
  have cnt: "mb_count b = of_nat (length (table_of rs))"
    using rep(1) mb_invD(11) by (auto simp: mb_rep_def)
  have "0 < mb_count b" "mb_count b \<le> MEM_INDEX_MAX_FILES"
    unfolding cnt using table_of_count [OF good ne max] .
  with db' b ne rep good show ?thesis
    by (simp add: insert_files_batch_def seal_mem_index_def create_writable_def ix_rep_def Let_def) blast
qed

lemma ix_rep_resolve:
  assumes "ix_rep content ix rs" "canonical_dir d"
  shows "table_resolve (table_of rs) d = (if d \<in> set (table_dirs (table_of rs)) then Some d else None)"
    and "d \<notin> set (table_dirs (table_of rs)) \<Longrightarrow> table_versions (table_of rs) d n = []"
    and "d \<notin> set (table_dirs (table_of rs)) \<Longrightarrow> dir_rows (table_of rs) d = []"
proof -
  have k: "fst x = row_key (snd x)" if "x \<in> set (table_of rs)" for x
    using table_of_keyed [of rs] that by (simp add: keyed_def)
  have "canonical_dir e" if "e \<in> set (table_dirs (table_of rs))" for e
  proof (cases "e = []")
    case False
    with that obtain x where "x \<in> set (table_of rs)" "e = fst (fst x)"
      by (auto simp: table_dirs_set)
    with k [of x] table_of_rows [of x rs] assms(1) show ?thesis
      by (auto simp: row_key_def ix_rep_def good_row_def)
  qed (simp add: canonical_dir_def)
  then show "table_resolve (table_of rs) d = (if d \<in> set (table_dirs (table_of rs)) then Some d else None)"
    using assms(2) by (intro canonical_dirs_resolve) blast+
  assume "d \<notin> set (table_dirs (table_of rs))"
  then have "r_path (snd x) \<noteq> d" if "x \<in> set (table_of rs)" for x
    using k [OF that] that by (auto simp: table_dirs_set row_key_def image_iff)
  then show "dir_rows (table_of rs) d = []"
    by (auto simp: dir_rows_def filter_empty_conv)
  then show "table_versions (table_of rs) d n = []"
    by (simp add: table_versions_dir_rows)
qed

text \<open>What the SQL path returns for a name, and what the in-memory path returns.\<close>

lemma ix_rep_sql_version:
  assumes spec: "sql_spec eng content" and rep: "ix_rep content ix rs" and d: "canonical_dir d"
  shows "se_count_version eng (ix_conn ix) d n = Inr (of_nat (length (table_versions (table_of rs) d n)))"
    and "se_select_version eng (ix_conn ix) d n desc off =
      (let vs = map bind_files_row (table_versions (table_of rs) d n);
           us = (if desc then rev vs else vs); i = nat (sint off)
       in Inr (if i < length us then Some (us ! i) else None))"
proof -
  have c: "content_is (content (ix_conn ix)) (table_of rs)"
    using rep by (simp add: ix_rep_def)
  obtain qs where qs: "ordered_rows (\<lambda>q. s_path q = d \<and> s_name q = n) (content (ix_conn ix)) qs"
    "se_select_version eng (ix_conn ix) d n desc off =
      (let us = (if desc then rev qs else qs); i = nat (sint off)
       in Inr (if i < length us then Some (us ! i) else None))"
    using sql_selectD(2) [OF spec] by blast
  have v: "qs = map bind_files_row (table_versions (table_of rs) d n)"
    by (rule ordered_versions [OF c table_of_keyed qs(1)])
  then show "se_select_version eng (ix_conn ix) d n desc off =
      (let vs = map bind_files_row (table_versions (table_of rs) d n);
           us = (if desc then rev vs else vs); i = nat (sint off)
       in Inr (if i < length us then Some (us ! i) else None))"
    using qs(2) by simp
  have "length (filter (\<lambda>q. s_path q = d \<and> s_name q = n) (content (ix_conn ix))) = length qs"
    using qs(1) unfolding ordered_rows_def by (metis size_mset)
  then show "se_count_version eng (ix_conn ix) d n = Inr (of_nat (length (table_versions (table_of rs) d n)))"
    using sql_selectD(1) [OF spec] v by simp
qed

lemma ix_rep_mem_lookup:
  assumes rep: "ix_rep content ix rs" and d: "canonical_dir d" and mem: "ix_mem ix = Some m"
  shows "mi_lookup m d n v = map_option row_info (pick_version (sint v) (table_versions (table_of rs) d n))"
    and "unat (mi_version_count m d n) = length (table_versions (table_of rs) d n)"
proof -
  obtain b where b: "m = finish b" "mb_rep b (table_of rs)" and len: "length (table_of rs) \<le> 2 ^ 31"
    using rep mem by (auto simp: ix_rep_def)
  have l: "length (table_of rs) < 2 ^ 32" using len by simp
  note res = ix_rep_resolve [OF rep d]
  have "mi_lookup m d n v = map_option row_info (table_lookup (table_of rs) d n (sint v))"
    unfolding mi_lookup_def b(1) finish_frame
    by (rule finish_lookup_with [OF b(2) len]) (rule stored_row_info(1) [OF b(2)])
  then show "mi_lookup m d n v = map_option row_info (pick_version (sint v) (table_versions (table_of rs) d n))"
    using res(1) res(2) [of n] by (auto simp: table_lookup_def pick_version_def)
  have "length (table_idxs (table_of rs) d n) = length (table_versions (table_of rs) d n)"
    using table_idxs_rows [OF l, of d n] by (metis length_map)
  moreover have "length (table_idxs (table_of rs) d n) < 2 ^ 32"
    using table_idxs_length [of "table_of rs" d n] l by linarith
  ultimately show "unat (mi_version_count m d n) = length (table_versions (table_of rs) d n)"
    using res(1) res(2) [of n]
    by (auto simp: mi_version_count_def b(1) finish_dir_versions [OF b(2)] table_idxs_Nil [OF l]
        split: option.splits)
qed

lemma good_versions:
  assumes "ix_rep content ix rs" "r \<in> set (table_versions (table_of rs) d n)"
  shows "good_row r"
proof -
  obtain x where "x \<in> set (table_of rs)" "r = snd x"
    using assms(2) by (auto simp: table_versions_def)
  then have "r \<in> set rs" using table_of_rows by blast
  with assms(1) show ?thesis unfolding ix_rep_def by blast
qed

lemma good_versions_length:
  assumes "ix_rep content ix rs"
  shows "length (table_versions (table_of rs) d n) \<le> 2 ^ 31"
proof -
  have "length (table_versions (table_of rs) d n) \<le> length (map snd (table_of rs))"
    unfolding table_versions_def length_sort by (rule length_filter_le)
  moreover have "length (table_of rs) \<le> 2 ^ 31"
    using assms unfolding ix_rep_def by blast
  ultimately show ?thesis by (simp only: length_map)
qed

lemma ix_rep_sql_lookup:
  assumes spec: "sql_spec eng content" and rep: "ix_rep content ix rs"
    and p: "query_normpath p \<noteq> ''/''" and dn: "split_path (query_normpath p) = (d, n)"
  shows "ix_lookup eng env (sql_only ix) p v =
    (let vs = table_versions (table_of rs) d n; us = (if sint v \<le> 0 then rev vs else vs);
         i = nat (sint (if sint v \<le> 0 then scast (- v) else scast (v - 1) :: i64))
     in Inr (if i < length us then Some (row_info (us ! i)) else None))"
proof -
  have d: "canonical_dir d"
    using split_query_path [OF p] dn by simp
  have "good_row r" if "r \<in> set (table_versions (table_of rs) d n)" for r
    using good_versions [OF rep that] .
  then have info: "row_to_file_info (bind_files_row r) = Inr (row_info r)"
    if "r \<in> set (table_versions (table_of rs) d n)" for r
    using that by (intro good_row_info(1))
  let ?desc = "sint v \<le> 0"
  let ?off = "if ?desc then scast (- v) else scast (v - 1) :: i64"
  define us where "us = (if ?desc then rev (table_versions (table_of rs) d n) else table_versions (table_of rs) d n)"
  define i where "i = nat (sint ?off)"
  have us: "set us = set (table_versions (table_of rs) d n)" by (simp add: us_def)
  have "(if ?desc then rev (map bind_files_row (table_versions (table_of rs) d n))
      else map bind_files_row (table_versions (table_of rs) d n)) = map bind_files_row us"
    by (simp add: us_def rev_map)
  then have sel: "se_select_version eng (ix_conn ix) d n ?desc ?off =
      Inr (if i < length us then Some (bind_files_row (us ! i)) else None)"
    unfolding ix_rep_sql_version(2) [OF spec rep d] Let_def i_def by simp
  have "ix_lookup eng env (sql_only ix) p v = res_bind (se_select_version eng (ix_conn ix) d n ?desc ?off)
      (\<lambda>row. case row of None \<Rightarrow> Inr None | Some q \<Rightarrow> res_bind (row_to_file_info q) (\<lambda>fi. Inr (Some fi)))"
    using p dn by (simp add: ix_lookup_def sql_only_def Let_def)
  also have "\<dots> = Inr (if i < length us then Some (row_info (us ! i)) else None)"
    unfolding sel using info [of "us ! i"] nth_mem [of i us] us by (simp add: res_bind_def)
  finally show ?thesis
    unfolding Let_def us_def i_def .
qed

lemma ucast_of_nat_i64: "ucast (of_nat n :: i64) = (of_nat n :: u32)"
  by transfer simp

lemma ix_rep_lookups_agree:
  assumes spec: "sql_spec eng content" and rep: "ix_rep content ix rs"
    and k: "ix_version_count eng ix p = Inr k"
  shows "ix_version_count eng (sql_only ix) p = Inr k
    \<and> (0 < sint v \<or> nat (- sint v) < unat k \<or> k = 0 \<longrightarrow>
        ix_lookup eng env ix p v = ix_lookup eng env (sql_only ix) p v)"
proof (cases "query_normpath p = ''/''")
  case True
  with k show ?thesis by (simp add: ix_version_count_def ix_lookup_def)
next
  case False
  obtain m where m: "ix_mem ix = Some m" using rep by (auto simp: ix_rep_def)
  obtain d n where dn: "split_path (query_normpath p) = (d, n)" and d: "canonical_dir d"
    using split_query_path [OF False] by blast
  let ?vs = "table_versions (table_of rs) d n"
  have kc: "unat k = length ?vs"
    using k False dn m ix_rep_mem_lookup(2) [OF rep d m, of n] by (auto simp: ix_version_count_def)
  then have kw: "k = of_nat (length ?vs)" by (simp flip: kc)
  have "ix_version_count eng (sql_only ix) p = Inr k"
    using False dn
    by (simp add: ix_version_count_def sql_only_def ix_rep_sql_version(1) [OF spec rep d] res_bind_def
        ucast_of_nat_i64 kw)
  moreover have "ix_lookup eng env ix p v = ix_lookup eng env (sql_only ix) p v"
    if "0 < sint v \<or> nat (- sint v) < unat k \<or> k = 0"
  proof -
    have r: "0 < sint v \<or> nat (- sint v) < length ?vs \<or> ?vs = []"
      using that kc by auto
    have "ix_lookup eng env ix p v = Inr (map_option row_info (pick_version (sint v) ?vs))"
      using False dn m ix_rep_mem_lookup(1) [OF rep d m] by (simp add: ix_lookup_def)
    then show ?thesis
      unfolding sql_pick [OF good_versions_length [OF rep] r, symmetric] ix_rep_sql_lookup [OF spec rep False dn] Let_def
      by simp
  qed
  ultimately show ?thesis by blast
qed

text \<open>Listings: the SQL rows of a directory collected by name.\<close>

lemma collect_infos_bt:
  assumes "\<forall>q \<in> set qs. s_name q \<noteq> [] \<and> file_info_from_named_row q = Inr (f q)"
  shows "collect_infos qs acc = Inr (foldl (\<lambda>acc q. bt_insert (s_name q) (f q) acc) acc qs)"
  using assms by (induction qs arbitrary: acc) (auto simp: res_bind_def)

lemma ix_rep_sql_dir:
  assumes spec: "sql_spec eng content" and rep: "ix_rep content ix rs"
  shows "\<exists>us. se_select_dir eng (ix_conn ix) d = Inr (map bind_files_row us) \<and> (\<forall>r \<in> set us. good_row r)
    \<and> (\<forall>n. filter (\<lambda>r. r_name r = n) us = table_versions (table_of rs) d n)"
proof -
  have c: "content_is (content (ix_conn ix)) (table_of rs)"
    using rep by (simp add: ix_rep_def)
  obtain qs where qs: "ordered_rows (\<lambda>q. s_path q = d) (content (ix_conn ix)) qs"
    "se_select_dir eng (ix_conn ix) d = Inr qs"
    using sql_selectD(3) [OF spec] by blast
  have mq: "mset qs = mset (filter (\<lambda>q. s_path q = d) (content (ix_conn ix)))"
    and sq: "sorted (map oh_key qs)"
    using qs(1) by (auto simp: ordered_rows_def)
  have "q \<in> bind_files_row ` set rs" if "q \<in> set qs" for q
  proof -
    have "q \<in> set (content (ix_conn ix))"
      using mset_eq_setD [OF mq] that by auto
    then obtain x where "x \<in> set (table_of rs)" "q = bind_files_row (snd x)"
      using mset_eq_setD [OF c [unfolded content_is_def]] by auto
    then show ?thesis using table_of_rows by blast
  qed
  then have "\<exists>us. qs = map bind_files_row us \<and> set us \<subseteq> set rs"
  proof (induction qs)
    case (Cons q qs)
    then obtain us where "qs = map bind_files_row us" "set us \<subseteq> set rs" by auto
    moreover obtain r where "q = bind_files_row r" "r \<in> set rs" using Cons.prems [of q] by auto
    ultimately show ?case by (intro exI [of _ "r # us"]) simp
  qed simp
  then obtain us where us: "qs = map bind_files_row us" "set us \<subseteq> set rs" by blast
  have "filter (\<lambda>r. r_name r = n) us = table_versions (table_of rs) d n" for n
  proof -
    have fq: "filter (\<lambda>q. s_name q = n) qs = map bind_files_row (filter (\<lambda>r. r_name r = n) us)"
      unfolding us(1) by (induction us) (auto simp: bind_files_row_def)
    have "sorted (map oh_key (filter (\<lambda>q. s_name q = n) qs))"
      using sq by (rule sorted_filter)
    then have "ordered_rows (\<lambda>q. s_path q = d \<and> s_name q = n) (content (ix_conn ix)) (filter (\<lambda>q. s_name q = n) qs)"
      unfolding ordered_rows_def mset_filter [of _ qs] mq by (simp add: filter_filter_mset conj_commute)
    from ordered_versions [OF c table_of_keyed this]
    have "map bind_files_row (filter (\<lambda>r. r_name r = n) us) = map bind_files_row (table_versions (table_of rs) d n)"
      unfolding fq .
    then show ?thesis by (rule map_injective) (simp add: inj_def bind_files_row_def sql_bool_def split: if_splits)
  qed
  with qs(2) us rep show ?thesis
    unfolding ix_rep_def by blast
qed

lemma canonical_query_dir: "canonical_dir (trim_end_matches CHR ''/'' (query_normpath p))"
  by (simp add: query_normpath_abs trim_end_abs_path canonical_dir_def normpath_abs components_abs_path)

lemma ix_rep_lists_agree:
  assumes spec: "sql_spec eng content" and rep: "ix_rep content ix rs"
  shows "ix_list eng ix p = ix_list eng (sql_only ix) p"
proof -
  let ?d = "trim_end_matches CHR ''/'' (query_normpath p)"
  let ?t = "table_of rs"
  obtain b where b: "ix_mem ix = Some (finish b)" "mb_rep b ?t" using rep by (auto simp: ix_rep_def)
  obtain us where us: "se_select_dir eng (ix_conn ix) ?d = Inr (map bind_files_row us)"
    "\<forall>r \<in> set us. good_row r" "\<And>n. filter (\<lambda>r. r_name r = n) us = table_versions ?t ?d n"
    using ix_rep_sql_dir [OF spec rep] by blast
  have e: "bt_collect r_name row_info us = bt_collect r_name row_info (dir_rows ?t ?d)"
    by (rule bt_sorted_eqI) (simp_all add: fun_eq_iff map_of_bt_collect us(3) table_versions_dir_rows)
  from arg_cong [OF this, of "\<lambda>m. m = []"] have ne: "us = [] \<longleftrightarrow> dir_rows ?t ?d = []" by simp
  have "collect_infos (map bind_files_row us) [] = Inr (bt_collect r_name row_info us)"
    using collect_infos_bt [of "map bind_files_row us" "\<lambda>q. projr (row_to_file_info q)"] us(2) good_row_info(1)
    by (simp add: file_info_from_named_row_def bt_collect_def foldl_map good_row_def cong: foldl_cong)
  then have "ix_list eng (sql_only ix) p = Inr (if dir_rows ?t ?d = [] then None else Some (bt_collect r_name row_info (dir_rows ?t ?d)))"
    by (simp add: ix_list_def sql_only_def us(1) res_bind_def Let_def ne e)
  moreover have "table_list row_info ?t ?d = (if dir_rows ?t ?d = [] then None else Some (bt_collect r_name row_info (dir_rows ?t ?d)))"
    using ix_rep_resolve(1,3) [OF rep canonical_query_dir [of p]] by (simp add: table_list_def)
  ultimately show ?thesis
    by (simp add: ix_list_def b(1) finish_list [OF b(2)] Let_def)
qed

text \<open>Loading the table again (a warm open) builds an index of the same table.\<close>

lemma canonical_print_dir: "canonical_dir d \<Longrightarrow> print_dir d = d"
proof (cases "d = []")
  case False
  assume "canonical_dir d"
  with False have d: "abs_path (components d) = d" and n: "d \<noteq> ''/''"
    by (auto simp: canonical_dir_def normpath_abs)
  then have ne: "components d \<noteq> []" by auto
  have "dir_parts (abs_path (components d)) = components d"
    using ne is_compsD [OF components_is_comps [of d]]
    by (auto simp: dir_parts_filter split_on_abs_path filter_id_conv is_comp_def)
  with d ne show ?thesis by (simp add: print_dir_def abs_path_def)
qed (simp add: print_dir_def dir_parts_def)

lemma load_row_bind:
  assumes "canonical_dir (r_path r)"
  shows "\<exists>q. load_row (bind_files_row r) = Inr q \<and> row_of_sql q = exported_row r \<and> q_name q = r_name r"
  using canonical_print_dir [OF assms]
  by (cases r) (simp add: load_row_def bind_files_row_def res_bind_def get_col_def get_or_def row_of_sql_def
      exported_row_def)

lemma load_rows_bind:
  assumes "\<forall>r \<in> set us. good_row r"
  shows "\<exists>qs. load_rows (map bind_files_row us) = Inr qs \<and> map row_of_sql qs = map exported_row us
    \<and> (\<forall>q \<in> set qs. q_name q \<noteq> [])"
  using assms
proof (induction us)
  case (Cons r us)
  then obtain qs q where "load_rows (map bind_files_row us) = Inr qs" "map row_of_sql qs = map exported_row us"
    "\<forall>q \<in> set qs. q_name q \<noteq> []" "load_row (bind_files_row r) = Inr q" "row_of_sql q = exported_row r"
    "q_name q = r_name r"
    using load_row_bind [of r] by (auto simp: good_row_def)
  with Cons.prems show ?case by (auto simp: res_bind_def good_row_def)
qed simp

lemma load_mem_index_rep:
  assumes spec: "sql_spec eng content" and c: "content_is (content (ix_conn ix)) (table_of rs)"
    and good: "\<forall>r \<in> set rs. good_row r" and w: "rows_weight rs + 2 < 2 ^ 32"
  shows "\<exists>c es. load_mem_index eng ix = Inr (finish c) \<and> mb_rep c (table_of es)
    \<and> length (table_of es) \<le> 2 ^ 31 \<and> mset es = mset (map (\<lambda>x. exported_row (snd x)) (table_of rs))"
proof -
  obtain qs where qs: "mset qs = mset (content (ix_conn ix))" "se_select_all eng (ix_conn ix) = Inr qs"
    using sql_selectD(5) [OF spec] by blast
  have mq: "mset qs = mset (map bind_files_row (map snd (table_of rs)))"
    using qs(1) c by (simp add: content_is_def o_def)
  obtain us where us: "qs = map bind_files_row us" "mset us = mset (map snd (table_of rs))"
    using ex_map_conv_mset [OF mq] by blast
  have "set us \<subseteq> set rs"
    using mset_eq_setD [OF us(2)] table_of_rows [of _ rs] by auto
  then have "\<forall>r \<in> set us. good_row r" using good by blast
  from load_rows_bind [OF this] obtain ms where ms: "load_rows qs = Inr ms"
    "map row_of_sql ms = map exported_row us" "\<forall>q \<in> set ms. q_name q \<noteq> []"
    unfolding us(1) by blast
  define es where "es = map row_of_sql ms"
  have m: "mset es = mset (map (\<lambda>x. exported_row (snd x)) (table_of rs))"
    using us(2) by (simp add: es_def ms(2) image_mset.compositionality o_def)
  have "\<forall>r \<in> set rs. print_dir (r_path r) = r_path r"
    using good canonical_print_dir by (auto simp: good_row_def)
  from exported_weight [OF m this] have w': "rows_weight es + 2 < 2 ^ 32" using w by simp
  obtain b where b: "push_rows mb_new es = Some b" using push_rows_new [OF w'] by blast
  have "filter (\<lambda>q. q_name q \<noteq> []) ms = ms" using ms(3) by (simp add: filter_id_conv)
  then have "load_mem_index eng ix = Inr (finish b)"
    using b by (simp add: load_mem_index_def qs(2) ms(1) res_bind_def mem_index_from_sql_rows_def es_def)
  with push_rows_represents [OF w' b] m show ?thesis by blast
qed

lemma ix_rep_overrun:
  assumes spec: "sql_spec eng content" and rep: "ix_rep content ix rs"
    and p: "query_normpath p \<noteq> ''/''" and k: "ix_version_count eng ix p = Inr k" "0 < k"
    and v: "sint v \<le> 0" "sint v \<noteq> - (2 ^ 31)" "unat k \<le> nat (- sint v)"
  shows "ix_lookup eng env (sql_only ix) p v = Inr None
    \<and> ix_lookup eng env ix p v = ix_lookup eng env ix p 1
    \<and> (\<exists>fi. ix_lookup eng env ix p v = Inr (Some fi))"
proof -
  obtain m where m: "ix_mem ix = Some m" using rep by (auto simp: ix_rep_def)
  obtain d n where dn: "split_path (query_normpath p) = (d, n)" and d: "canonical_dir d"
    using split_query_path [OF p] by blast
  let ?vs = "table_versions (table_of rs) d n"
  have kc: "unat k = length ?vs"
    using k(1) p dn m ix_rep_mem_lookup(2) [OF rep d m, of n] by (auto simp: ix_version_count_def)
  moreover have "0 < unat k" using k(2) by (simp add: word_less_nat_alt)
  ultimately have vs: "?vs \<noteq> []" "length ?vs \<le> nat (- sint v)" using v(3) by auto
  have "sint (scast (- v) :: i64) = - sint v"
    using v(2) by (simp add: sint_scast_i32 sint_minus_i32)
  then have "ix_lookup eng env (sql_only ix) p v = Inr None"
    using v(1) vs(2) by (simp add: ix_rep_sql_lookup [OF spec rep p dn] Let_def)
  moreover have "ix_lookup eng env ix p w = Inr (map_option row_info (pick_version (sint w) ?vs))" for w
    using p dn m ix_rep_mem_lookup(1) [OF rep d m] by (simp add: ix_lookup_def)
  moreover have "pick_version (sint v) ?vs = Some (?vs ! 0)" "pick_version (sint (1 :: i32)) ?vs = Some (?vs ! 0)"
    using vs v(1) by (auto simp: pick_version_def Suc_le_eq)
  ultimately show ?thesis by simp
qed

lemma warm_open_rep:
  assumes spec: "sql_spec eng content" and rep: "ix_rep content ix rs"
    and good: "\<forall>r \<in> set rs. good_row r" and ne: "rs \<noteq> []"
    and w: "rows_weight rs + 2 < 2 ^ 32" and max: "length rs \<le> 500000"
    and valid: "validate_loaded eng (ix_conn ix) = Inr ()"
  shows "\<exists>ix3. open_read_only_with eng (ix_conn ix) True = Inr ix3 \<and> ix_mem ix3 \<noteq> None
    \<and> (\<forall>p v. ix_lookup eng env ix3 p v = ix_lookup eng env ix p v)"
proof -
  define idx where "idx = \<lparr>ix_conn = ix_conn ix, ix_read_only = True, ix_mem = None,
    ix_mem_builder = None, ix_compact_only = False\<rparr>"
  have c: "content_is (content (ix_conn idx)) (table_of rs)"
    using rep by (simp add: ix_rep_def idx_def)
  obtain b where b: "ix_mem ix = Some (finish b)" "mb_rep b (table_of rs)" "length (table_of rs) \<le> 2 ^ 31"
    using rep by (auto simp: ix_rep_def)
  obtain l es where l: "load_mem_index eng idx = Inr (finish l)" "mb_rep l (table_of es)"
    "length (table_of es) \<le> 2 ^ 31" "mset es = mset (map (\<lambda>x. exported_row (snd x)) (table_of rs))"
    using load_mem_index_rep [OF spec c good w] by blast
  have canon: "\<forall>r \<in> set rs. print_dir (r_path r) = r_path r"
    using good canonical_print_dir by (auto simp: good_row_def)
  have len: "length (content (ix_conn ix)) = length (table_of rs)"
    using c unfolding content_is_def idx_def by (metis length_map size_mset sqlite_index.select_convs(1))
  have n: "file_count_db eng idx = Inr (of_nat (length (table_of rs)))"
    using sql_selectD(4) [OF spec] len by (simp add: file_count_db_def idx_def)
  note bounds = table_of_count [OF good ne max]
  have "open_read_only_with eng (ix_conn ix) True = Inr (idx\<lparr>ix_mem := Some (finish l)\<rparr>)"
    unfolding open_read_only_with_def idx_def [symmetric] Let_def
    by (simp add: valid n l(1) bounds res_bind_def)
  moreover have "mi_lookup (finish l) d k v = mi_lookup (finish b) d k v" for d k v
    using exported_lookup_with [where f = row_info, OF l(2,3,4) canon stored_row_info(1) [OF l(2)]]
      finish_lookup_with [where f = row_info, OF b(2,3) stored_row_info(1) [OF b(2)]]
    by (simp add: mi_lookup_def)
  ultimately show ?thesis
    by (auto simp: ix_lookup_def b(1) Let_def split: prod.splits)
qed

section \<open>Properties\<close>


text \<open>A concrete engine over a list of rows, which meets the specification.\<close>

definition list_engine :: "sql_row list sql_engine" where
  "list_engine =
     \<lparr>se_insert = (\<lambda>db q. (filter (\<lambda>x. sql_key x \<noteq> sql_key q) db @ [q], Inr ())),
      se_count = (\<lambda>db. Inr (of_nat (length db))),
      se_count_version = (\<lambda>db p n. Inr (of_nat (length (filter (\<lambda>q. s_path q = p \<and> s_name q = n) db)))),
      se_select_version = (\<lambda>db p n desc off.
        let qs = sort_key oh_key (filter (\<lambda>q. s_path q = p \<and> s_name q = n) db);
            rs = (if desc then rev qs else qs); i = nat (sint off)
        in Inr (if i < length rs then Some (rs ! i) else None)),
      se_select_dir = (\<lambda>db p. Inr (sort_key oh_key (filter (\<lambda>q. s_path q = p) db))),
      se_select_all = (\<lambda>db. Inr db),
      se_tables = (\<lambda>db. Inr [''files'']), se_has_rows = (\<lambda>db n. Inr False)\<rparr>"

lemma list_engine_spec: "sql_spec list_engine (\<lambda>db. db)"
proof -
  have o: "ordered_rows P db (sort_key oh_key (filter P db))" for P db
    by (simp add: ordered_rows_def)
  have "\<exists>qs. ordered_rows (\<lambda>q. s_path q = p \<and> s_name q = n) db qs
      \<and> se_select_version list_engine db p n desc off =
          (let rs = (if desc then rev qs else qs); i = nat (sint off)
           in Inr (if i < length rs then Some (rs ! i) else None))" for db p n desc off
    by (rule exI, rule conjI, rule o) (simp only: list_engine_def sql_engine.simps Let_def)
  moreover have "\<exists>qs. ordered_rows (\<lambda>q. s_path q = p) db qs \<and> se_select_dir list_engine db p = Inr qs" for db p
    by (rule exI, rule conjI, rule o) (simp add: list_engine_def)
  ultimately show ?thesis
    unfolding sql_spec_def by (simp add: list_engine_def)
qed

lemma list_engine_valid: "validate_loaded list_engine db = Inr ()"
  by (simp add: validate_loaded_def list_engine_def res_bind_def)

lemma sample_rows_fit:
  "\<forall>r \<in> set [sample_row ''/d'' ''f'' 0 7, sample_row ''/d'' ''f'' 1024 9]. good_row r"
  "rows_weight [sample_row ''/d'' ''f'' 0 7, sample_row ''/d'' ''f'' 1024 9] + 2 < 2 ^ 32"
  "length [sample_row ''/d'' ''f'' 0 7, sample_row ''/d'' ''f'' 1024 9] \<le> 500000"
  by code_simp+




text \<open>C37: Counting back too far: where the SQL path finds no row, the in-memory index returns the oldest
  version, the one version number 1 denotes.\<close>

theorem negative_version_overrun:
  assumes "sql_spec eng content" "content db = []" "\<forall>r \<in> set rs. good_row r" "rs \<noteq> []"
    "rows_weight rs + 2 < 2 ^ 32" "length rs \<le> 500000"
  shows "\<exists>ix1 ix2. insert_files_batch eng (create_writable db) rs = (ix1, Inr ())
    \<and> seal_mem_index eng ix1 = (ix2, Inr ())
    \<and> (\<forall>p v k. query_normpath p \<noteq> ''/'' \<longrightarrow> ix_version_count eng ix2 p = Inr k \<longrightarrow> 0 < k \<longrightarrow>
         sint v \<le> 0 \<longrightarrow> sint v \<noteq> - (2 ^ 31) \<longrightarrow> unat k \<le> nat (- sint v) \<longrightarrow>
         ix_lookup eng env (sql_only ix2) p v = Inr None
         \<and> ix_lookup eng env ix2 p v = ix_lookup eng env ix2 p 1
         \<and> (\<exists>fi. ix_lookup eng env ix2 p v = Inr (Some fi)))"
proof -
  obtain ix1 ix2 where ix: "insert_files_batch eng (create_writable db) rs = (ix1, Inr ())"
    "seal_mem_index eng ix1 = (ix2, Inr ())" and rep: "ix_rep content ix2 rs"
    using insert_and_seal [OF assms] by blast
  have "ix_lookup eng env (sql_only ix2) p v = Inr None
      \<and> ix_lookup eng env ix2 p v = ix_lookup eng env ix2 p 1
      \<and> (\<exists>fi. ix_lookup eng env ix2 p v = Inr (Some fi))"
    if p: "query_normpath p \<noteq> ''/''" and k: "ix_version_count eng ix2 p = Inr k" "0 < k"
      and v: "sint v \<le> 0" "sint v \<noteq> - (2 ^ 31)" "unat k \<le> nat (- sint v)" for p v k
    by (rule ix_rep_overrun [OF assms(1) rep p k v])
  with ix show ?thesis by blast
qed

lemma sample_index_count:
  assumes "insert_files_batch list_engine (create_writable [])
      [sample_row ''/d'' ''f'' 0 7, sample_row ''/d'' ''f'' 1024 9] = (ix1, Inr ())"
    "seal_mem_index list_engine ix1 = (ix2, Inr ())"
  shows "ix_version_count list_engine ix2 ''/d/f'' = Inr 2"
proof -
  let ?rs = "[sample_row ''/d'' ''f'' 0 7, sample_row ''/d'' ''f'' 1024 9]"
  have rep: "ix_rep (\<lambda>db. db) ix2 ?rs"
    using insert_and_seal [OF list_engine_spec refl sample_rows_fit(1) _ sample_rows_fit(2,3)] assms by auto
  then obtain m where m: "ix_mem ix2 = Some m" by (auto simp: ix_rep_def)
  have d: "canonical_dir ''/d''" and q: "query_normpath ''/d/f'' = ''/d/f''" "split_path ''/d/f'' = (''/d'', ''f'')"
    and l: "length (table_versions (table_of ?rs) ''/d'' ''f'') = 2"
    by code_simp+
  have "unat (mi_version_count m ''/d'' ''f'') = 2"
    using ix_rep_mem_lookup(2) [OF rep d m, of "''f''"] l by simp
  then have "mi_version_count m ''/d'' ''f'' = 2"
    by (simp add: word_unat_eq_iff)
  then show ?thesis
    using m q by (simp add: ix_version_count_def)
qed

theorem negative_version_overrun_witness:
  "\<exists>ix1 ix2. insert_files_batch list_engine (create_writable [])
      [sample_row ''/d'' ''f'' 0 7, sample_row ''/d'' ''f'' 1024 9] = (ix1, Inr ())
    \<and> seal_mem_index list_engine ix1 = (ix2, Inr ())
    \<and> ix_lookup list_engine \<lparr>euid = 0, egid = 0\<rparr> (sql_only ix2) ''/d/f'' (-2) = Inr None
    \<and> ix_lookup list_engine \<lparr>euid = 0, egid = 0\<rparr> ix2 ''/d/f'' (-2)
      = ix_lookup list_engine \<lparr>euid = 0, egid = 0\<rparr> ix2 ''/d/f'' 1"
proof -
  from negative_version_overrun [OF list_engine_spec refl sample_rows_fit(1) _ sample_rows_fit(2,3),
      of "\<lparr>euid = 0, egid = 0\<rparr>"]
  obtain ix1 ix2 where ix: "insert_files_batch list_engine (create_writable [])
      [sample_row ''/d'' ''f'' 0 7, sample_row ''/d'' ''f'' 1024 9] = (ix1, Inr ())"
    "seal_mem_index list_engine ix1 = (ix2, Inr ())"
    and a: "\<And>p v k. query_normpath p \<noteq> ''/'' \<Longrightarrow> ix_version_count list_engine ix2 p = Inr k \<Longrightarrow> 0 < k \<Longrightarrow>
      sint v \<le> 0 \<Longrightarrow> sint v \<noteq> - (2 ^ 31) \<Longrightarrow> unat k \<le> nat (- sint v) \<Longrightarrow>
      ix_lookup list_engine \<lparr>euid = 0, egid = 0\<rparr> (sql_only ix2) p v = Inr None
      \<and> ix_lookup list_engine \<lparr>euid = 0, egid = 0\<rparr> ix2 p v
        = ix_lookup list_engine \<lparr>euid = 0, egid = 0\<rparr> ix2 p 1"
    by auto
  have p: "query_normpath ''/d/f'' \<noteq> ''/''" and v: "sint (-2 :: i32) = -2" by code_simp+
  from a [OF p sample_index_count [OF ix], of "-2"] v ix show ?thesis by auto
qed

text \<open>C11: A warm open loads an index that answers like the one sealed at build time: for a file that
  holds the inserted rows, opening it read-only succeeds with an in-memory index, and every lookup
  of every path and version gives the same result.\<close>

theorem warm_open_agrees:
  assumes "sql_spec eng content" "content db = []" "\<forall>r \<in> set rs. good_row r" "rs \<noteq> []"
    "rows_weight rs + 2 < 2 ^ 32" "length rs \<le> 500000" "\<And>conn. validate_loaded eng conn = Inr ()"
  shows "\<exists>ix1 ix2 ix3. insert_files_batch eng (create_writable db) rs = (ix1, Inr ())
    \<and> seal_mem_index eng ix1 = (ix2, Inr ())
    \<and> open_read_only_with eng (ix_conn ix2) True = Inr ix3 \<and> ix_mem ix3 \<noteq> None
    \<and> (\<forall>p v. ix_lookup eng env ix3 p v = ix_lookup eng env ix2 p v)"
proof -
  obtain ix1 ix2 where ix: "insert_files_batch eng (create_writable db) rs = (ix1, Inr ())"
    "seal_mem_index eng ix1 = (ix2, Inr ())" and rep: "ix_rep content ix2 rs"
    using insert_and_seal [OF assms(1-6)] by blast
  from warm_open_rep [OF assms(1) rep assms(3-6) assms(7)] ix show ?thesis by blast
qed

theorem warm_open_agrees_witness:
  "\<exists>ix1 ix2 ix3. insert_files_batch list_engine (create_writable [])
      [sample_row ''/d'' ''f'' 0 7, sample_row ''/d'' ''f'' 1024 9] = (ix1, Inr ())
    \<and> seal_mem_index list_engine ix1 = (ix2, Inr ())
    \<and> open_read_only_with list_engine (ix_conn ix2) True = Inr ix3
    \<and> ix_lookup list_engine \<lparr>euid = 0, egid = 0\<rparr> ix3 ''/d/f'' 0 = ix_lookup list_engine \<lparr>euid = 0, egid = 0\<rparr> ix2 ''/d/f'' 0"
  using warm_open_agrees [OF list_engine_spec refl sample_rows_fit(1) _ sample_rows_fit(2,3) list_engine_valid]
  by blast

end
