(* ===== verification/Row_Window.thy ===== *)
theory Row_Window
  imports Sqlite_Index
begin

text \<open>
  The flush window of a cold index build (\<open>FileRowSoa\<close> and \<open>insert_files_batch_soa\<close> in
  \<open>ratarmount-index/src/lib.rs\<close>): rows are staged in columns with their strings interned in a
  window-local pool, read back one at a time, and written to SQL and to the compact builder.
\<close>

section \<open>Definitions\<close>

record file_row_soa =
  w_pool :: string_pool
  w_path_id :: "u32 list"
  w_name_id :: "u32 list"
  w_linkname_id :: "u32 list"
  w_offsetheader :: "i64 list"
  w_offset :: "i64 list"
  w_size :: "i64 list"
  w_mtime :: "f64 list"
  w_mode :: "i64 list"
  w_typeflag :: "i64 list"
  w_uid :: "i64 list"
  w_gid :: "i64 list"
  w_istar :: "bool list"
  w_issparse :: "bool list"
  w_isgenerated :: "bool list"
  w_recursiondepth :: "i64 list"

definition window_new :: file_row_soa where
  "window_new =
     \<lparr>w_pool = pool_new, w_path_id = [], w_name_id = [], w_linkname_id = [], w_offsetheader = [],
      w_offset = [], w_size = [], w_mtime = [], w_mode = [], w_typeflag = [], w_uid = [], w_gid = [],
      w_istar = [], w_issparse = [], w_isgenerated = [], w_recursiondepth = []\<rparr>"

definition window_len :: "file_row_soa \<Rightarrow> nat" where
  "window_len w = length (w_path_id w)"

definition window_clear :: "file_row_soa \<Rightarrow> file_row_soa" where
  "window_clear w =
     w\<lparr>w_pool := pool_new, w_path_id := [], w_name_id := [], w_linkname_id := [], w_offsetheader := [],
       w_offset := [], w_size := [], w_mtime := [], w_mode := [], w_typeflag := [], w_uid := [],
       w_gid := [], w_istar := [], w_issparse := [], w_isgenerated := [], w_recursiondepth := []\<rparr>"

definition push_file_row :: "file_row_soa \<Rightarrow> file_row \<Rightarrow> file_row_soa" where
  "push_file_row w r =
     (let (pid, pool1) = intern_id (w_pool w) (r_path r);
          (nid, pool2) = intern_id pool1 (r_name r);
          (lid, pool3) = intern_id pool2 (r_linkname r)
      in \<lparr>w_pool = pool3, w_path_id = w_path_id w @ [pid], w_name_id = w_name_id w @ [nid],
          w_linkname_id = w_linkname_id w @ [lid],
          w_offsetheader = w_offsetheader w @ [r_offsetheader r], w_offset = w_offset w @ [r_offset r],
          w_size = w_size w @ [r_size r], w_mtime = w_mtime w @ [r_mtime r],
          w_mode = w_mode w @ [r_mode r], w_typeflag = w_typeflag w @ [r_typeflag r],
          w_uid = w_uid w @ [r_uid r], w_gid = w_gid w @ [r_gid r],
          w_istar = w_istar w @ [r_istar r], w_issparse = w_issparse w @ [r_issparse r],
          w_isgenerated = w_isgenerated w @ [r_isgenerated r],
          w_recursiondepth = w_recursiondepth w @ [r_recursiondepth r]\<rparr>)"

definition file_row_at :: "file_row_soa \<Rightarrow> nat \<Rightarrow> file_row" where
  "file_row_at w i =
     \<lparr>r_path = pool_get (w_pool w) (w_path_id w ! i), r_name = pool_get (w_pool w) (w_name_id w ! i),
      r_offsetheader = w_offsetheader w ! i, r_offset = w_offset w ! i, r_size = w_size w ! i,
      r_mtime = w_mtime w ! i, r_mode = w_mode w ! i, r_typeflag = w_typeflag w ! i,
      r_linkname = pool_get (w_pool w) (w_linkname_id w ! i), r_uid = w_uid w ! i, r_gid = w_gid w ! i,
      r_istar = w_istar w ! i, r_issparse = w_issparse w ! i, r_isgenerated = w_isgenerated w ! i,
      r_recursiondepth = w_recursiondepth w ! i\<rparr>"

text \<open>
  The batch insert. \<open>cancelled\<close> is the answer of the cancel hook; the progress counters are returned
  beside the index.
\<close>

record build_progress =
  bp_entries :: u64
  bp_bytes_scanned :: u64

definition advance_progress :: "build_progress \<Rightarrow> file_row_soa \<Rightarrow> build_progress" where
  "advance_progress bp w =
     (let bp1 = bp\<lparr>bp_entries := bp_entries bp + of_nat (window_len w)\<rparr> in
      if w_offsetheader w = [] then bp1
      else
        let oh = last (w_offsetheader w) in
        if 0 \<le> sint oh \<and> oh > bp_bytes_scanned bp1 then bp1\<lparr>bp_bytes_scanned := oh\<rparr> else bp1)"

definition insert_files_batch_soa ::
    "'db sql_engine \<Rightarrow> bool \<Rightarrow> 'db sqlite_index \<Rightarrow> build_progress \<Rightarrow> file_row_soa
      \<Rightarrow> 'db sqlite_index \<times> build_progress \<times> (index_error + unit)" where
  "insert_files_batch_soa eng cancelled ix bp w =
     (if cancelled then (ix, bp, Inl Cancelled)
      else if window_len w = 0 then (ix, bp, Inr ())
      else if ix_read_only ix then (ix, bp, Inl (Invalid ''index is read-only''))
      else
        let rows = map (file_row_at w) [0..<window_len w];
            (db, res) = (if ix_compact_only ix then (ix_conn ix, Inr ())
                         else insert_stmts eng (ix_conn ix) rows);
            ix1 = ix\<lparr>ix_conn := db\<rparr>
        in case res of
             Inl e \<Rightarrow> (ix1, bp, Inl e)
           | Inr _ \<Rightarrow>
               (case ix_mem_builder ix1 of
                  None \<Rightarrow> (ix1, advance_progress bp w, Inr ())
                | Some b \<Rightarrow>
                    (case push_rows b rows of
                       None \<Rightarrow> (ix1, bp, Inl Panicked)
                     | Some b' \<Rightarrow> (ix1\<lparr>ix_mem_builder := Some b'\<rparr>, advance_progress bp w, Inr ()))))"

section \<open>The window holds its rows\<close>

definition window_ok :: "file_row_soa \<Rightarrow> file_row list \<Rightarrow> bool" where
  "window_ok w rs \<longleftrightarrow>
     pool_inv (w_pool w)
     \<and> list_all2 (\<lambda>i r. lookup_id (w_pool w) (r_path r) = Some i) (w_path_id w) rs
     \<and> list_all2 (\<lambda>i r. lookup_id (w_pool w) (r_name r) = Some i) (w_name_id w) rs
     \<and> list_all2 (\<lambda>i r. lookup_id (w_pool w) (r_linkname r) = Some i) (w_linkname_id w) rs
     \<and> w_offsetheader w = map r_offsetheader rs \<and> w_offset w = map r_offset rs
     \<and> w_size w = map r_size rs \<and> w_mtime w = map r_mtime rs \<and> w_mode w = map r_mode rs
     \<and> w_typeflag w = map r_typeflag rs \<and> w_uid w = map r_uid rs \<and> w_gid w = map r_gid rs
     \<and> w_istar w = map r_istar rs \<and> w_issparse w = map r_issparse rs
     \<and> w_isgenerated w = map r_isgenerated rs \<and> w_recursiondepth w = map r_recursiondepth rs"

lemma window_new_ok: "window_ok window_new []"
  by (auto simp: window_ok_def window_new_def)

lemma window_clear_new: "window_clear w = window_new"
  by (simp add: window_clear_def window_new_def)

lemma intern_keep:
  assumes "pool_inv p" "pool_room p (Suc n) (length s + b)" "intern_id p s = (i, q)"
  shows "pool_inv q \<and> pool_room q n b \<and> lookup_id q s = Some i
    \<and> (\<forall>t j. lookup_id p t = Some j \<longrightarrow> lookup_id q t = Some j)"
proof -
  have f: "pool_fits p s" using assms(2) by (rule pool_room_fits) auto
  have i: "Some (intern_id p s) = Some (i, q)" using assms(3) by simp
  show ?thesis
    using pool_room_intern [OF assms] pool.intern_find [OF assms(1) f i] pool.intern_keeps [OF assms(1) f i]
    by auto
qed

lemma list_all2_lookup_mono:
  assumes "list_all2 (\<lambda>i r. lookup_id p (f r) = Some i) is rs"
    "\<forall>t j. lookup_id p t = Some j \<longrightarrow> lookup_id q t = Some j"
  shows "list_all2 (\<lambda>i r. lookup_id q (f r) = Some i) is rs"
  using assms by (auto elim!: list.rel_mono_strong)

lemma push_file_row_ok:
  assumes ok: "window_ok w rs" and room: "pool_room (w_pool w) (row_weight r + n) (row_weight r + n)"
  shows "window_ok (push_file_row w r) (rs @ [r]) \<and> pool_room (w_pool (push_file_row w r)) n n"
proof -
  obtain pid p1 nid p2 lid p3 where i: "intern_id (w_pool w) (r_path r) = (pid, p1)"
    "intern_id p1 (r_name r) = (nid, p2)" "intern_id p2 (r_linkname r) = (lid, p3)"
    by (metis prod.exhaust)
  have inv: "pool_inv (w_pool w)" using ok by (simp add: window_ok_def)
  have r0: "pool_room (w_pool w) (Suc (Suc (Suc n))) (length (r_path r) + (length (r_name r) + (length (r_linkname r) + n)))"
    using room by (auto simp: pool_room_def row_weight_def)
  note 1 = intern_keep [OF inv r0 i(1)]
  note 2 = intern_keep [OF conjunct1 [OF 1] _ i(2), of "Suc n" "length (r_linkname r) + n"]
  have p2: "pool_inv p2" using 1 2 by simp
  note 3 = intern_keep [OF p2 _ i(3), of n n]
  have keep: "\<forall>t j. lookup_id (w_pool w) t = Some j \<longrightarrow> lookup_id p3 t = Some j"
    using 1 2 3 by simp
  have "lookup_id p3 (r_path r) = Some pid" "lookup_id p3 (r_name r) = Some nid" "lookup_id p3 (r_linkname r) = Some lid"
    "pool_inv p3" "pool_room p3 n n"
    using 1 2 3 by auto
  moreover have "list_all2 (\<lambda>i r. lookup_id p3 (f r) = Some i) (is @ [i]) (rs @ [r])"
    if "list_all2 (\<lambda>i r. lookup_id (w_pool w) (f r) = Some i) is rs" "lookup_id p3 (f r) = Some i" for f "is" i
    using list_all2_appendI [OF list_all2_lookup_mono [OF that(1) keep], of "[i]" "[r]"] that(2) by simp
  ultimately show ?thesis
    using ok i unfolding window_ok_def push_file_row_def by simp
qed

lemma push_file_rows_ok:
  assumes "window_ok w rs" "pool_room (w_pool w) (rows_weight us + n) (rows_weight us + n)"
  shows "window_ok (foldl push_file_row w us) (rs @ us)"
  using assms
proof (induction us arbitrary: w rs)
  case (Cons r us)
  have "pool_room (w_pool w) (row_weight r + (rows_weight us + n)) (row_weight r + (rows_weight us + n))"
    using Cons.prems(2) by (simp add: rows_weight_def add.assoc)
  from push_file_row_ok [OF Cons.prems(1) this] Cons.IH [of "push_file_row w r" "rs @ [r]"] show ?case by simp
qed simp

lemma window_rows:
  assumes "window_ok w rs"
  shows "window_len w = length rs" "map (file_row_at w) [0..<window_len w] = rs"
proof -
  have inv: "pool_inv (w_pool w)" using assms by (simp add: window_ok_def)
  show l: "window_len w = length rs"
    using assms by (auto simp: window_ok_def window_len_def dest: list_all2_lengthD)
  have "file_row_at w i = rs ! i" if "i < length rs" for i
  proof -
    have "pool_get (w_pool w) (w_path_id w ! i) = r_path (rs ! i)"
      "pool_get (w_pool w) (w_name_id w ! i) = r_name (rs ! i)"
      "pool_get (w_pool w) (w_linkname_id w ! i) = r_linkname (rs ! i)"
      using assms that by (auto simp: window_ok_def list_all2_conv_all_nth intro!: pool.find_get [OF inv])
    with assms that show ?thesis by (cases "rs ! i") (simp add: file_row_at_def window_ok_def)
  qed
  then show "map (file_row_at w) [0..<window_len w] = rs"
    unfolding l by (intro nth_equalityI) simp_all
qed

lemma window_batch:
  assumes l: "window_len w = length rs" and rows: "map (file_row_at w) [0..<window_len w] = rs"
  shows "case insert_files_batch_soa eng False ix bp w of
     (ix', bp', res) \<Rightarrow> (ix', res) = insert_files_batch eng ix rs
       \<and> (res = Inr () \<and> rs \<noteq> [] \<longrightarrow> bp_entries bp' = bp_entries bp + of_nat (length rs))"
proof -
  have bp: "bp_entries (advance_progress bp w) = bp_entries bp + of_nat (length rs)"
    by (simp add: advance_progress_def l Let_def)
  show ?thesis
  proof (cases "rs = [] \<or> ix_read_only ix")
    case True
    then show ?thesis by (auto simp: insert_files_batch_soa_def insert_files_batch_def l)
  next
    case False
    obtain db res where r: "(if ix_compact_only ix then (ix_conn ix, Inr ()) else insert_stmts eng (ix_conn ix) rs) = (db, res)"
      by force
    have "insert_files_batch_soa eng False ix bp w =
      (case res of Inl e \<Rightarrow> (ix\<lparr>ix_conn := db\<rparr>, bp, Inl e)
       | Inr _ \<Rightarrow> (case ix_mem_builder ix of None \<Rightarrow> (ix\<lparr>ix_conn := db\<rparr>, advance_progress bp w, Inr ())
           | Some b \<Rightarrow> (case push_rows b rs of None \<Rightarrow> (ix\<lparr>ix_conn := db\<rparr>, bp, Inl Panicked)
               | Some b' \<Rightarrow> (ix\<lparr>ix_conn := db, ix_mem_builder := Some b'\<rparr>, advance_progress bp w, Inr ()))))"
      using False r unfolding insert_files_batch_soa_def rows Let_def by (simp add: l)
    moreover have "insert_files_batch eng ix rs =
      (case res of Inl e \<Rightarrow> (ix\<lparr>ix_conn := db\<rparr>, Inl e)
       | Inr _ \<Rightarrow> (case ix_mem_builder ix of None \<Rightarrow> (ix\<lparr>ix_conn := db\<rparr>, Inr ())
           | Some b \<Rightarrow> (case push_rows b rs of None \<Rightarrow> (ix\<lparr>ix_conn := db\<rparr>, Inl Panicked)
               | Some b' \<Rightarrow> (ix\<lparr>ix_conn := db, ix_mem_builder := Some b'\<rparr>, Inr ()))))"
      using False r unfolding insert_files_batch_def Let_def by simp
    ultimately show ?thesis
      using bp by (simp split: sum.splits option.splits)
  qed
qed

section \<open>Properties\<close>

text \<open>C13: A flush window is transparent: rows staged in the columnar window (also after it was cleared
  and reused) read back unchanged and in order, and inserting the window has exactly the effect
  of inserting the rows, on the index, on the error, and on the entry counter.\<close>

theorem window_insert_transparent:
  assumes "rows_weight rs + 2 < 2 ^ 32"
  shows "map (file_row_at (foldl push_file_row (window_clear w) rs)) [0..<window_len (foldl push_file_row (window_clear w) rs)] = rs
    \<and> (case insert_files_batch_soa eng False ix bp (foldl push_file_row (window_clear w) rs) of
         (ix', bp', res) \<Rightarrow> (ix', res) = insert_files_batch eng ix rs
           \<and> (res = Inr () \<and> rs \<noteq> [] \<longrightarrow> bp_entries bp' = bp_entries bp + of_nat (length rs)))"
proof -
  have "pool_room (w_pool window_new) (rows_weight rs + 0) (rows_weight rs + 0)"
    using assms by (simp add: window_new_def pool_room_def pool_new_def)
  then have ok: "window_ok (foldl push_file_row (window_clear w) rs) rs"
    using push_file_rows_ok [OF window_new_ok, of rs 0] by (simp add: window_clear_new)
  note W = window_rows [OF ok]
  show ?thesis
    by (rule conjI [OF W(2) window_batch [OF W]])
qed

theorem window_insert_transparent_witness:
  "map (file_row_at (foldl push_file_row (window_clear window_new) [sample_row ''/d'' ''f'' 0 7, sample_row ''/d'' ''g'' 1024 9]))
    [0..<window_len (foldl push_file_row (window_clear window_new) [sample_row ''/d'' ''f'' 0 7, sample_row ''/d'' ''g'' 1024 9])]
   = [sample_row ''/d'' ''f'' 0 7, sample_row ''/d'' ''g'' 1024 9]"
proof -
  have w: "rows_weight [sample_row ''/d'' ''f'' 0 7, sample_row ''/d'' ''g'' 1024 9] + 2 < 2 ^ 32"
    by code_simp
  show ?thesis
    by (rule conjunct1 [OF window_insert_transparent [OF w, of window_new list_engine "create_writable []" "\<lparr>bp_entries = 0, bp_bytes_scanned = 0\<rparr>"]])
qed

end
