(* ===== verification/Path_Intern.thy ===== *)
theory Path_Intern
  imports Interner
begin

text \<open>
  The path intern table of the compositing layer (\<open>PathIntern\<close> in
  \<open>ratarmount-compositing/src/path_intern.rs\<close>), which keys the union folder cache and the
  automount table by \<open>u32\<close> ids. Unlike the string pool it checks its capacity: handing out id
  \<open>2 ^ 32\<close> panics, which is \<open>None\<close> here.
\<close>

record path_intern =
  strings :: "string list"
  by_str :: "(string \<times> u32) list"

definition pi_new :: path_intern where
  "pi_new = \<lparr>strings = [], by_str = []\<rparr>"

definition pi_intern :: "path_intern \<Rightarrow> string \<Rightarrow> (u32 \<times> path_intern) option" where
  "pi_intern p s =
     (case map_of (by_str p) s of
        Some i \<Rightarrow> Some (i, p)
      | None \<Rightarrow>
          (if length (strings p) < 2 ^ 32
           then let i = of_nat (length (strings p))
                in Some (i, p\<lparr>strings := strings p @ [s], by_str := AList.update s i (by_str p)\<rparr>)
           else None))"

definition pi_get :: "path_intern \<Rightarrow> u32 \<Rightarrow> string" where
  "pi_get p i = (if unat i < length (strings p) then strings p ! unat i else '''')"

definition pi_lookup :: "path_intern \<Rightarrow> string \<Rightarrow> u32 option" where
  "pi_lookup p s = map_of (by_str p) s"

definition pi_clear :: "path_intern \<Rightarrow> path_intern" where
  "pi_clear p = p\<lparr>strings := [], by_str := []\<rparr>"

definition pi_inv :: "path_intern \<Rightarrow> bool" where
  "pi_inv p \<longleftrightarrow>
     (\<forall>s i. map_of (by_str p) s = Some i \<longleftrightarrow> unat i < length (strings p) \<and> strings p ! unat i = s)"

definition pi_fits :: "path_intern \<Rightarrow> string \<Rightarrow> bool" where
  "pi_fits p s \<longleftrightarrow> pi_lookup p s \<noteq> None \<or> length (strings p) < 2 ^ 32"

lemma pi_new_inv [simp, intro]: "pi_inv pi_new"
  by (simp add: pi_inv_def pi_new_def)

lemma pi_clear_inv [simp]: "pi_inv (pi_clear p)"
  by (simp add: pi_inv_def pi_clear_def)

lemma pi_lookup_None_notin:
  assumes "pi_inv p" "map_of (by_str p) s = None" "length (strings p) \<le> 2 ^ 32"
  shows "s \<notin> set (strings p)"
proof
  assume "s \<in> set (strings p)"
  then obtain n where n: "n < length (strings p)" "strings p ! n = s"
    by (auto simp: in_set_conv_nth)
  then have "unat (of_nat n :: u32) = n"
    using assms(3) by (intro unat_of_nat_u32) simp
  with n assms(1) have "map_of (by_str p) s = Some (of_nat n)"
    by (simp add: pi_inv_def)
  with assms(2) show False by simp
qed

lemma pi_intern_new:
  assumes inv: "pi_inv p" and new: "map_of (by_str p) s = None" and len: "length (strings p) < 2 ^ 32"
  shows "\<exists>q. pi_intern p s = Some (of_nat (length (strings p)), q) \<and> pi_inv q
    \<and> pi_lookup q = (pi_lookup p)(s \<mapsto> of_nat (length (strings p)))"
proof -
  let ?i = "of_nat (length (strings p)) :: u32"
  let ?q = "p\<lparr>strings := strings p @ [s], by_str := AList.update s ?i (by_str p)\<rparr>"
  have i: "unat ?i = length (strings p)"
    using len by simp
  have s: "s \<notin> set (strings p)"
    using pi_lookup_None_notin [OF inv new] len by simp
  have "map_of (AList.update s ?i (by_str p)) t = Some j \<longleftrightarrow>
      unat j < length (strings p @ [s]) \<and> (strings p @ [s]) ! unat j = t" for t j
  proof (cases "t = s")
    case True
    have "(strings p @ [s]) ! n = s \<longleftrightarrow> n = length (strings p)" if "n < Suc (length (strings p))" for n
      using that s nth_mem [of n "strings p"] by (auto simp: nth_append)
    with True i show ?thesis
      by (auto simp: update_conv' word_unat_eq_iff)
  next
    case False
    have "map_of (by_str p) t = Some j \<longleftrightarrow> unat j < length (strings p) \<and> strings p ! unat j = t"
      using inv by (simp add: pi_inv_def)
    with False show ?thesis
      by (auto simp: update_conv' nth_append less_Suc_eq)
  qed
  then have "pi_inv ?q" by (simp add: pi_inv_def)
  with new len show ?thesis
    by (auto simp: pi_intern_def pi_lookup_def Let_def update_conv' fun_eq_iff)
qed

interpretation paths: interner pi_get pi_lookup pi_intern pi_inv pi_fits
proof unfold_locales
  fix p s i q
  assume inv: "pi_inv p"
  show "pi_lookup p s = Some i \<Longrightarrow> pi_get p i = s"
    using inv by (auto simp: pi_lookup_def pi_inv_def pi_get_def)
  show known: "pi_lookup p s = Some i \<Longrightarrow> pi_intern p s = Some (i, p)" for i
    by (simp add: pi_lookup_def pi_intern_def)
  assume fits: "pi_fits p s"
  have "\<exists>i q. pi_intern p s = Some (i, q) \<and> pi_inv q \<and> pi_lookup q = (pi_lookup p)(s \<mapsto> i)"
  proof (cases "pi_lookup p s")
    case None
    with fits have "length (strings p) < 2 ^ 32"
      by (simp add: pi_fits_def)
    with pi_intern_new [OF inv, of s] None show ?thesis
      unfolding pi_lookup_def by blast
  next
    case (Some j)
    with known [OF Some] inv show ?thesis by (auto simp: fun_upd_idem)
  qed
  then obtain i' q' where r: "pi_intern p s = Some (i', q')" "pi_inv q'" "pi_lookup q' = (pi_lookup p)(s \<mapsto> i')"
    by blast
  then show "\<exists>i q. pi_intern p s = Some (i, q)" by blast
  assume "pi_intern p s = Some (i, q)"
  with r show "pi_lookup q = (pi_lookup p)(s \<mapsto> i)" "pi_inv q" by auto
qed

end
