(* ===== verification/Glob_Match.thy ===== *)
theory Glob_Match
  imports Prelude
begin

text \<open>
  The pattern matcher behind catalogue search: \<open>collapse_globstars\<close>, \<open>is_like_pattern\<close>,
  \<open>sql_glob_match\<close>, \<open>sql_like_match\<close> and \<open>locate_pattern_matches\<close> of
  \<open>ratarmount-index/src/search.rs\<close>.

  The two matching loops backtrack to the last wildcard only. They are written as partial
  functions over the loop variables of the source (text position, pattern position, position of
  the last wildcard and the text position it was tried at). Both satisfy the contract
  \<open>wildcard_loop\<close>, inside which it is proved once that such a loop ends and accepts exactly the
  texts of a declarative pattern language.
\<close>

section \<open>The code\<close>

abbreviation cp :: "char \<Rightarrow> nat" where
  "cp c \<equiv> of_char c"

text \<open>\<open>ascii_lower\<close>.\<close>

definition ascii_lower :: "nat \<Rightarrow> nat" where
  "ascii_lower c = (if cp CHR ''A'' \<le> c \<and> c \<le> cp CHR ''Z'' then c + 32 else c)"

text \<open>
  \<open>match_char_class\<close>: the search for the closing bracket, the loop over the class body, and the
  atom itself. The result is the verdict and the advanced pattern position.
\<close>

function find_close :: "nat list \<Rightarrow> nat \<Rightarrow> nat \<Rightarrow> nat option" where
  "find_close pat start j =
     (if j < length pat then
        if pat ! j = cp CHR '']'' \<and> j > start then Some j else find_close pat start (j + 1)
      else None)"
  by pat_completeness auto
termination
  by (relation "measure (\<lambda>(pat, start, j). length pat - j)") auto

function class_body :: "nat \<Rightarrow> nat list \<Rightarrow> nat \<Rightarrow> bool" where
  "class_body ch body k =
     (if k < length body then
        if k + 2 < length body \<and> body ! (k + 1) = cp CHR ''-'' then
          (if body ! k \<le> ch \<and> ch \<le> body ! (k + 2) then True else class_body ch body (k + 3))
        else if body ! k = ch then True
        else class_body ch body (k + 1)
      else False)"
  by pat_completeness auto
termination
  by (relation "measure (\<lambda>(ch, body, k). length body - k)") auto

declare find_close.simps [simp del]
declare class_body.simps [simp del]

definition match_char_class :: "nat \<Rightarrow> nat list \<Rightarrow> nat \<Rightarrow> bool \<times> nat" where
  "match_char_class ch pat pi =
     (let start = pi + 1 in
      case find_close pat start start of
        None \<Rightarrow> (pat ! pi = ch, pi + 1)
      | Some close \<Rightarrow>
          let inner = take (close - start) (drop start pat);
              negate = (inner \<noteq> [] \<and> (hd inner = cp CHR ''!'' \<or> hd inner = cp CHR ''^''));
              body = (if negate then tl inner else inner);
              matched = class_body ch body 0
          in (if negate then \<not> matched else matched, close + 1))"

definition char_class_or_q :: "nat \<Rightarrow> nat list \<Rightarrow> nat \<Rightarrow> bool \<times> nat" where
  "char_class_or_q ch pat pi =
     (if pi \<ge> length pat then (False, pi)
      else if pat ! pi = cp CHR ''?'' then (True, pi + 1)
      else if pat ! pi = cp CHR ''['' then match_char_class ch pat pi
      else if pat ! pi = ch then (True, pi + 1)
      else (False, pi))"

text \<open>The trailing loop of both matchers: skip wildcards at the end of the pattern.\<close>

function skip_stars :: "nat \<Rightarrow> nat list \<Rightarrow> nat \<Rightarrow> nat" where
  "skip_stars star pat pi =
     (if pi < length pat \<and> pat ! pi = star then skip_stars star pat (pi + 1) else pi)"
  by pat_completeness auto
termination
  by (relation "measure (\<lambda>(star, pat, pi). length pat - pi)") auto

declare skip_stars.simps [simp del]

text \<open>\<open>glob_match_slices\<close>; a value \<open>None\<close> would be a loop that does not end.\<close>

partial_function (option) glob_loop ::
  "nat list \<Rightarrow> nat list \<Rightarrow> nat \<Rightarrow> nat \<Rightarrow> nat option \<Rightarrow> nat \<Rightarrow> bool option" where
  "glob_loop text pat ti pi star_pi star_ti =
     (if ti < length text then
        if pi < length pat \<and> pat ! pi = cp CHR ''*'' then
          glob_loop text pat ti (pi + 1) (Some pi) ti
        else if pi < length pat \<and> fst (char_class_or_q (text ! ti) pat pi) then
          glob_loop text pat (ti + 1) (snd (char_class_or_q (text ! ti) pat pi)) star_pi star_ti
        else (case star_pi of
          Some sp \<Rightarrow> glob_loop text pat (star_ti + 1) (sp + 1) star_pi (star_ti + 1)
        | None \<Rightarrow> Some False)
      else Some (skip_stars (cp CHR ''*'') pat pi = length pat))"

definition glob_match_slices :: "nat list \<Rightarrow> nat list \<Rightarrow> bool option" where
  "glob_match_slices text pat = glob_loop text pat 0 0 None 0"

text \<open>\<open>like_match_slices\<close>.\<close>

partial_function (option) like_loop ::
  "nat list \<Rightarrow> nat list \<Rightarrow> nat \<Rightarrow> nat \<Rightarrow> nat option \<Rightarrow> nat \<Rightarrow> bool option" where
  "like_loop text pat ti pi star_pi star_ti =
     (if ti < length text then
        if pi < length pat \<and> pat ! pi = cp CHR ''%'' then
          like_loop text pat ti (pi + 1) (Some pi) ti
        else if pi < length pat \<and> (pat ! pi = cp CHR ''_'' \<or> pat ! pi = text ! ti) then
          like_loop text pat (ti + 1) (pi + 1) star_pi star_ti
        else (case star_pi of
          Some sp \<Rightarrow> like_loop text pat (star_ti + 1) (sp + 1) star_pi (star_ti + 1)
        | None \<Rightarrow> Some False)
      else Some (skip_stars (cp CHR ''%'') pat pi = length pat))"

definition like_match_slices :: "nat list \<Rightarrow> nat list \<Rightarrow> bool option" where
  "like_match_slices text pat = like_loop text pat 0 0 None 0"

declare glob_loop.simps [code]
declare like_loop.simps [code]

definition sql_glob_match :: "string \<Rightarrow> string \<Rightarrow> bool option" where
  "sql_glob_match text pattern = glob_match_slices (chars text) (chars pattern)"

definition sql_like_match :: "string \<Rightarrow> string \<Rightarrow> bool option" where
  "sql_like_match text pattern =
     like_match_slices (map ascii_lower (chars text)) (map ascii_lower (chars pattern))"

text \<open>
  \<open>collapse_globstars\<close>. The star is one ASCII byte, so collapsing the bytes is collapsing the
  characters.
\<close>

function collapse_globstars :: "string \<Rightarrow> string" where
  "collapse_globstars [] = []"
| "collapse_globstars (c # cs) =
     (if c = CHR ''*'' then c # collapse_globstars (dropWhile (\<lambda>d. d = CHR ''*'') cs)
      else c # collapse_globstars cs)"
  by pat_completeness auto
termination
  by (relation "measure length") (auto simp: length_dropWhile_le less_Suc_eq_le)

definition is_like_pattern :: "string \<Rightarrow> bool" where
  "is_like_pattern p \<longleftrightarrow>
     \<not> list_ex (\<lambda>c. c = CHR ''*'' \<or> c = CHR ''?'' \<or> c = CHR ''['') p
     \<and> list_ex (\<lambda>c. c = CHR ''%'' \<or> c = CHR ''_'') p"

definition locate_pattern_matches :: "string \<Rightarrow> string \<Rightarrow> string \<Rightarrow> bool option" where
  "locate_pattern_matches pattern fullpath name =
     (if pattern = [] then Some False
      else let glob = collapse_globstars pattern;
               use_like = is_like_pattern glob;
               full_path = (CHR ''/'' \<in> set glob);
               bound = (if full_path \<and> \<not> starts_with glob ''/'' then ''/'' @ glob else glob)
           in if full_path then
                (if use_like then sql_like_match fullpath bound else sql_glob_match fullpath bound)
              else if use_like then sql_like_match name bound
              else sql_glob_match name bound)"

section \<open>The pattern language\<close>

text \<open>
  A pattern is a sequence of tokens; the language of a token sequence is the least relation in which
  \<open>Many\<close> absorbs any stretch of the text and every other token absorbs one accepted character.
\<close>

datatype glob_token = Many | Any | Lit nat | Class bool "(nat \<times> nat) list"

fun tok_accepts :: "glob_token \<Rightarrow> nat \<Rightarrow> bool" where
  "tok_accepts Many c = True"
| "tok_accepts Any c = True"
| "tok_accepts (Lit d) c = (d = c)"
| "tok_accepts (Class neg items) c = (neg \<noteq> list_ex (\<lambda>(lo, hi). lo \<le> c \<and> c \<le> hi) items)"

inductive glob_sem :: "glob_token list \<Rightarrow> nat list \<Rightarrow> bool" where
  sem_nil: "glob_sem [] []"
| sem_one: "t \<noteq> Many \<Longrightarrow> tok_accepts t c \<Longrightarrow> glob_sem ts cs \<Longrightarrow> glob_sem (t # ts) (c # cs)"
| sem_many: "glob_sem ts cs \<Longrightarrow> glob_sem (Many # ts) (us @ cs)"

inductive_cases sem_nilE: "glob_sem [] cs"
inductive_cases sem_consE: "glob_sem (t # ts) cs"
inductive_simps sem_nil_simps [simp]: "glob_sem [] cs"
inductive_simps sem_cons_simps: "glob_sem (t # ts) cs"

lemma sem_one_iff:
  "t \<noteq> Many \<Longrightarrow>
   glob_sem (t # ts) cs \<longleftrightarrow> (\<exists>c cs'. cs = c # cs' \<and> tok_accepts t c \<and> glob_sem ts cs')"
  by (auto simp: sem_cons_simps)

lemma sem_many_iff: "glob_sem (Many # ts) cs \<longleftrightarrow> (\<exists>k \<le> length cs. glob_sem ts (drop k cs))"
proof
  assume "glob_sem (Many # ts) cs"
  then obtain us vs where "cs = us @ vs" "glob_sem ts vs"
    by (auto simp: sem_cons_simps)
  then show "\<exists>k \<le> length cs. glob_sem ts (drop k cs)"
    by (intro exI [of _ "length us"]) simp
next
  assume "\<exists>k \<le> length cs. glob_sem ts (drop k cs)"
  then obtain k where "glob_sem ts (drop k cs)"
    by blast
  then have "glob_sem (Many # ts) (take k cs @ drop k cs)"
    by (rule sem_many)
  then show "glob_sem (Many # ts) cs"
    by simp
qed

lemma sem_many_skip:
  assumes "glob_sem (Many # ts) (drop k cs)"
  shows "glob_sem (Many # ts) cs"
proof -
  from assms obtain us vs where "drop k cs = us @ vs" "glob_sem ts vs"
    by (auto simp: sem_cons_simps)
  then have "glob_sem (Many # ts) ((take k cs @ us) @ vs)" and "(take k cs @ us) @ vs = cs"
    by (simp_all add: sem_many flip: append_assoc) (metis append_take_drop_id append_assoc)
  then show ?thesis
    by simp
qed

lemma sem_many_step:
  "glob_sem (Many # ts) cs \<longleftrightarrow> glob_sem ts cs \<or> (cs \<noteq> [] \<and> glob_sem (Many # ts) (drop 1 cs))"
proof
  assume "glob_sem (Many # ts) cs"
  then obtain k where k: "k \<le> length cs" "glob_sem ts (drop k cs)"
    by (auto simp: sem_many_iff)
  show "glob_sem ts cs \<or> (cs \<noteq> [] \<and> glob_sem (Many # ts) (drop 1 cs))"
  proof (cases k)
    case (Suc j)
    then have "j \<le> length (drop 1 cs)" "glob_sem ts (drop j (drop 1 cs))" "cs \<noteq> []"
      using k by auto
    then show ?thesis
      unfolding sem_many_iff by blast
  qed (use k in simp)
next
  assume "glob_sem ts cs \<or> (cs \<noteq> [] \<and> glob_sem (Many # ts) (drop 1 cs))"
  then show "glob_sem (Many # ts) cs"
    using sem_many [of ts cs "[]"] sem_many_skip [of ts 1 cs] by auto
qed

lemma sem_ones:
  "\<forall>t \<in> set as. t \<noteq> Many \<Longrightarrow> glob_sem (as @ ts) cs \<Longrightarrow>
   length as \<le> length cs \<and> glob_sem ts (drop (length as) cs)"
  by (induction as arbitrary: cs) (auto simp: sem_one_iff)

lemma sem_empty: "glob_sem ts [] \<longleftrightarrow> (\<forall>t \<in> set ts. t = Many)"
  by (induction ts) (auto simp: sem_cons_simps)

section \<open>A loop that backtracks to the last wildcard\<close>

text \<open>
  The contract shared by both matchers: the loop equation, an atom step, and a tokenizer that
  agrees with the step. The position after an atom may depend on the pattern only, which is what
  makes it enough to remember the last wildcard.
\<close>

locale wildcard_loop =
  fixes star :: nat
    and step :: "nat \<Rightarrow> nat list \<Rightarrow> nat \<Rightarrow> bool \<times> nat"
    and toks :: "nat list \<Rightarrow> nat \<Rightarrow> glob_token list"
    and loop :: "nat list \<Rightarrow> nat list \<Rightarrow> nat \<Rightarrow> nat \<Rightarrow> nat option \<Rightarrow> nat \<Rightarrow> bool option"
  assumes toks_end: "length pat \<le> pi \<Longrightarrow> toks pat pi = []"
    and toks_star: "pi < length pat \<Longrightarrow> pat ! pi = star \<Longrightarrow> toks pat pi = Many # toks pat (pi + 1)"
    and toks_one: "pi < length pat \<Longrightarrow> pat ! pi \<noteq> star \<Longrightarrow>
      \<exists>t n. t \<noteq> Many \<and> pi < n \<and> n \<le> length pat \<and> toks pat pi = t # toks pat n
        \<and> (\<forall>c. fst (step c pat pi) = tok_accepts t c \<and> (tok_accepts t c \<longrightarrow> snd (step c pat pi) = n))"
    and loop_eq: "loop text pat ti pi sp st =
     (if ti < length text then
        if pi < length pat \<and> pat ! pi = star then loop text pat ti (pi + 1) (Some pi) ti
        else if pi < length pat \<and> fst (step (text ! ti) pat pi) then
          loop text pat (ti + 1) (snd (step (text ! ti) pat pi)) sp st
        else (case sp of
          Some s \<Rightarrow> loop text pat (st + 1) (s + 1) sp (st + 1)
        | None \<Rightarrow> Some False)
      else Some (skip_stars star pat pi = length pat))"
begin

text \<open>
  What the loop variables mean: the pattern between the last wildcard and the current position has
  been matched, one character per atom, against the text between the two text positions.
\<close>

definition loop_inv :: "nat list \<Rightarrow> nat list \<Rightarrow> nat \<Rightarrow> nat \<Rightarrow> nat option \<Rightarrow> nat \<Rightarrow> bool" where
  "loop_inv text pat ti pi sp st \<longleftrightarrow>
     st \<le> ti \<and> ti \<le> length text \<and> pi \<le> length pat
     \<and> (\<forall>s. sp = Some s \<longrightarrow> s < length pat \<and>
          (\<exists>as. toks pat (s + 1) = as @ toks pat pi \<and> (\<forall>t \<in> set as. t \<noteq> Many) \<and> length as = ti - st))"

definition retry :: "nat list \<Rightarrow> nat list \<Rightarrow> nat option \<Rightarrow> nat \<Rightarrow> bool" where
  "retry text pat sp st \<longleftrightarrow>
     (\<exists>s. sp = Some s \<and> glob_sem (Many # toks pat (s + 1)) (drop (st + 1) text))"

lemma skip_stars_sem: "pi \<le> length pat \<Longrightarrow> skip_stars star pat pi = length pat \<longleftrightarrow> glob_sem (toks pat pi) []"
proof (induction "length pat - pi" arbitrary: pi)
  case 0
  then show ?case
    by (subst skip_stars.simps) (simp add: toks_end)
next
  case (Suc m)
  then have pi: "pi < length pat" by simp
  show ?case
  proof (cases "pat ! pi = star")
    case True
    with pi Suc(1) [of "pi + 1"] Suc(2) show ?thesis
      by (subst skip_stars.simps) (simp add: toks_star sem_empty)
  next
    case False
    with pi toks_one [OF pi False] show ?thesis
      by (subst skip_stars.simps) (auto simp: sem_empty)
  qed
qed

lemma retry_tail:
  assumes inv: "loop_inv text pat ti pi sp st" and "retry text pat sp st"
  shows "\<exists>k. glob_sem (toks pat pi) (drop (k + 1) (drop ti text))"
proof -
  from assms(2) obtain s k where s: "sp = Some s" and k: "glob_sem (toks pat (s + 1)) (drop k (drop (st + 1) text))"
    unfolding retry_def sem_many_iff by blast
  from inv s obtain as where as: "toks pat (s + 1) = as @ toks pat pi" "\<forall>t \<in> set as. t \<noteq> Many"
      "length as = ti - st" and le: "st \<le> ti"
    unfolding loop_inv_def by blast
  from sem_ones [OF as(2) k [unfolded as(1)]]
  have "glob_sem (toks pat pi) (drop (ti - st + (k + (st + 1))) text)"
    by (simp add: as(3) add.commute)
  moreover have "ti - st + (k + (st + 1)) = (k + 1) + ti"
    using le by simp
  ultimately show ?thesis
    by (auto simp: add.commute)
qed

lemma loop_inv_star:
  "loop_inv text pat ti pi sp st \<Longrightarrow> pi < length pat \<Longrightarrow> loop_inv text pat ti (pi + 1) (Some pi) ti"
  by (simp add: loop_inv_def)

lemma loop_inv_retry:
  "loop_inv text pat ti pi (Some s) st \<Longrightarrow> ti < length text \<Longrightarrow>
   loop_inv text pat (st + 1) (s + 1) (Some s) (st + 1)"
  by (simp add: loop_inv_def)

lemma loop_inv_one:
  assumes inv: "loop_inv text pat ti pi sp st" and "ti < length text"
    and t: "toks pat pi = t # toks pat n" "t \<noteq> Many" "n \<le> length pat"
  shows "loop_inv text pat (ti + 1) n sp st"
  unfolding loop_inv_def
proof (intro conjI allI impI)
  fix s assume "sp = Some s"
  with inv obtain as where as: "s < length pat" "toks pat (s + 1) = as @ toks pat pi"
      "\<forall>t \<in> set as. t \<noteq> Many" "length as = ti - st" "st \<le> ti"
    unfolding loop_inv_def by blast
  then show "s < length pat" by simp
  show "\<exists>as. toks pat (s + 1) = as @ toks pat n \<and> (\<forall>t\<in>set as. t \<noteq> Many) \<and> length as = ti + 1 - st"
    using as t by (intro exI [of _ "as @ [t]"]) auto
qed (use assms in \<open>auto simp: loop_inv_def\<close>)

lemma retry_step:
  assumes "loop_inv text pat ti pi (Some s) st" "ti < length text"
  shows "glob_sem (toks pat (s + 1)) (drop (st + 1) text) \<or> retry text pat (Some s) (st + 1)
    \<longleftrightarrow> retry text pat (Some s) st"
proof (cases "st + 1 < length text")
  case True
  then show ?thesis
    unfolding retry_def using sem_many_step [of "toks pat (s + 1)" "drop (st + 1) text"] by simp
next
  case False
  with assms have "drop (st + 1) text = []" "drop (Suc (st + 1)) text = []"
    by (auto simp: loop_inv_def)
  then show ?thesis
    unfolding retry_def by (simp add: sem_empty)
qed

text \<open>
  Every iteration keeps the invariant and the verdict; the pattern position or the retry position
  grows, so the loop ends.
\<close>

lemma loop_correct:
  "loop_inv text pat ti pi sp st \<Longrightarrow>
   loop text pat ti pi sp st = Some (glob_sem (toks pat pi) (drop ti text) \<or> retry text pat sp st)"
proof (induction "(length text - st, length pat - pi)" arbitrary: ti pi sp st
    rule: wf_induct_rule [OF wf_lex_prod [OF wf_measure [of id] wf_measure [of id]]])
  case (1 pi st ti sp)
  note inv = 1(2)
  then have le: "st \<le> ti" "ti \<le> length text" "pi \<le> length pat"
    by (auto simp: loop_inv_def)
  show ?case
  proof (cases "ti < length text")
    case False
    with le have "ti = length text" by simp
    then show ?thesis
      using retry_tail [OF inv] by (subst loop_eq) (auto simp: skip_stars_sem le)
  next
    case more: True
    have again: "loop text pat (st + 1) (s + 1) sp (st + 1) = Some (retry text pat sp st)" if s: "sp = Some s" for s
      using 1(1) [of "st + 1" "s + 1" "st + 1" "Some s"] loop_inv_retry [OF inv [unfolded s] more]
        retry_step [OF inv [unfolded s] more] le more s
      by (simp add: diff_less_mono2)
    consider (star) "pi < length pat" "pat ! pi = star"
      | (one) "pi < length pat" "pat ! pi \<noteq> star" | (over) "pi = length pat"
      using le by linarith
    then show ?thesis
    proof cases
      case star
      have absorb: "retry text pat sp st \<Longrightarrow> glob_sem (Many # toks pat (pi + 1)) (drop ti text)"
        using retry_tail [OF inv] sem_many_skip by (metis toks_star [OF star])
      have "length text - ti < length text - st \<or> length text - ti = length text - st"
        using le by linarith
      then have "loop text pat ti (pi + 1) (Some pi) ti =
          Some (glob_sem (toks pat (pi + 1)) (drop ti text) \<or> retry text pat (Some pi) ti)"
        using star by (intro 1(1) loop_inv_star [OF inv]) auto
      also have "\<dots> = Some (glob_sem (toks pat pi) (drop ti text) \<or> retry text pat sp st)"
        using absorb sem_many_step [of "toks pat (pi + 1)" "drop ti text"] more
        by (simp add: toks_star [OF star] retry_def) blast
      finally show ?thesis
        using star more by (subst loop_eq) simp
    next
      case one
      from toks_one [OF one] obtain t n where t: "t \<noteq> Many" "pi < n" "n \<le> length pat"
          "toks pat pi = t # toks pat n"
          "\<And>c. fst (step c pat pi) = tok_accepts t c" "\<And>c. tok_accepts t c \<Longrightarrow> snd (step c pat pi) = n"
        by blast
      have sem: "glob_sem (toks pat pi) (drop ti text) \<longleftrightarrow>
          tok_accepts t (text ! ti) \<and> glob_sem (toks pat n) (drop (ti + 1) text)"
        using more t by (simp add: sem_one_iff flip: Cons_nth_drop_Suc)
      have "loop text pat (ti + 1) n sp st = Some (glob_sem (toks pat n) (drop (ti + 1) text) \<or> retry text pat sp st)"
        using t one by (intro 1(1) loop_inv_one [OF inv more t(4)]) auto
      with t one more sem again show ?thesis
        by (subst loop_eq) (auto simp: retry_def split: option.splits)
    next
      case over
      then have "\<not> glob_sem (toks pat pi) (drop ti text)"
        using more by (simp add: toks_end)
      with over more again show ?thesis
        by (subst loop_eq) (auto simp: retry_def split: option.splits)
    qed
  qed
qed

lemma loop_accepts: "loop text pat 0 0 None 0 = Some (glob_sem (toks pat 0) text)"
  using loop_correct [of _ _ 0 0 None 0] by (simp add: loop_inv_def retry_def)

end

section \<open>GLOB and LIKE patterns as token sequences\<close>

fun class_items :: "nat list \<Rightarrow> (nat \<times> nat) list" where
  "class_items (lo # d # hi # rest) =
     (if d = cp CHR ''-'' then (lo, hi) # class_items rest else (lo, lo) # class_items (d # hi # rest))"
| "class_items (c # rest) = (c, c) # class_items rest"
| "class_items [] = []"

definition class_token :: "nat list \<Rightarrow> glob_token" where
  "class_token inner =
     (let neg = (inner \<noteq> [] \<and> (hd inner = cp CHR ''!'' \<or> hd inner = cp CHR ''^''))
      in Class neg (class_items (if neg then tl inner else inner)))"

text \<open>The text after an opening bracket: the class, never empty, and what follows its bracket.\<close>

definition class_split :: "nat list \<Rightarrow> (nat list \<times> nat list) option" where
  "class_split p =
     (case p of [] \<Rightarrow> None
      | x # q \<Rightarrow> (case dropWhile (\<lambda>c. c \<noteq> cp CHR '']'') q of
          [] \<Rightarrow> None
        | _ # rest \<Rightarrow> Some (x # takeWhile (\<lambda>c. c \<noteq> cp CHR '']'') q, rest)))"

lemma class_split_shorter: "class_split p = Some (inner, rest) \<Longrightarrow> length rest < length p"
proof -
  assume a: "class_split p = Some (inner, rest)"
  then obtain x q c where "p = x # q" "dropWhile (\<lambda>c. c \<noteq> cp CHR '']'') q = c # rest"
    by (auto simp: class_split_def split: list.splits)
  then show ?thesis
    using length_dropWhile_le [of "\<lambda>c. c \<noteq> cp CHR '']''" q] by simp
qed

function glob_tokens :: "nat list \<Rightarrow> glob_token list" where
  "glob_tokens [] = []"
| "glob_tokens (c # p) =
     (if c = cp CHR ''*'' then Many # glob_tokens p
      else if c = cp CHR ''?'' then Any # glob_tokens p
      else if c = cp CHR ''['' then
        (case class_split p of
           None \<Rightarrow> Lit c # glob_tokens p
         | Some (inner, rest) \<Rightarrow> class_token inner # glob_tokens rest)
      else Lit c # glob_tokens p)"
  by pat_completeness auto
termination
  by (relation "measure length") (auto dest: class_split_shorter)

definition like_tokens :: "nat list \<Rightarrow> glob_token list" where
  "like_tokens = map (\<lambda>c. if c = cp CHR ''%'' then Many else if c = cp CHR ''_'' then Any else Lit c)"

lemma class_body_items:
  "class_body ch body k = list_ex (\<lambda>(lo, hi). lo \<le> ch \<and> ch \<le> hi) (class_items (drop k body))"
proof (induction ch body k rule: class_body.induct)
  case (1 ch body k)
  show ?case
  proof (cases "k + 2 < length body")
    case True
    then have "drop k body = body ! k # body ! (k + 1) # body ! (k + 2) # drop (k + 3) body"
      by (simp add: Cons_nth_drop_Suc numeral_3_eq_3)
    moreover have "drop (k + 1) body = body ! (k + 1) # body ! (k + 2) # drop (k + 3) body"
      using True by (simp add: Cons_nth_drop_Suc numeral_3_eq_3)
    ultimately show ?thesis
      using 1 True by (subst class_body.simps) auto
  next
    case False
    then consider "length body \<le> k" | "length body = k + 1" | "length body = k + 2"
      by linarith
    then show ?thesis
    proof cases
      case 2
      then have "drop k body = [body ! k]"
        by (simp add: Cons_nth_drop_Suc [symmetric])
      then show ?thesis using 1 2 by (subst class_body.simps) auto
    next
      case 3
      then have "drop k body = [body ! k, body ! (k + 1)]" "drop (k + 1) body = [body ! (k + 1)]"
        by (simp_all add: Cons_nth_drop_Suc [symmetric])
      then show ?thesis using 1 3 by (subst class_body.simps) auto
    qed (subst class_body.simps, simp)
  qed
qed

lemma find_close_after:
  "j > start \<Longrightarrow> find_close pat start j =
     (case dropWhile (\<lambda>c. c \<noteq> cp CHR '']'') (drop j pat) of
        [] \<Rightarrow> None
      | _ \<Rightarrow> Some (j + length (takeWhile (\<lambda>c. c \<noteq> cp CHR '']'') (drop j pat))))"
proof (induction pat start j rule: find_close.induct)
  case (1 pat start j)
  show ?case
  proof (cases "j < length pat")
    case True
    then have "drop j pat = pat ! j # drop (j + 1) pat"
      by (simp add: Cons_nth_drop_Suc)
    with 1 True show ?thesis
      by (subst find_close.simps) (auto split: list.splits simp del: dropWhile_eq_Nil_conv)
  qed (subst find_close.simps, simp)
qed


text \<open>An opening bracket is either the start of a class, or a literal.\<close>

lemma match_char_class_split:
  assumes "pi < length pat" "class_split (drop (pi + 1) pat) = Some (inner, rest)"
  shows "\<exists>n. pi < n \<and> n \<le> length pat \<and> drop n pat = rest
    \<and> (\<forall>c. match_char_class c pat pi = (tok_accepts (class_token inner) c, n))"
proof -
  define stop where "stop = (\<lambda>c. c \<noteq> cp CHR '']'')"
  from assms(2) obtain x q c where q: "drop (pi + 1) pat = x # q" "dropWhile stop q = c # rest"
      "inner = x # takeWhile stop q"
    by (auto simp: class_split_def stop_def split: list.splits)
  have "length (drop (pi + 1) pat) = Suc (length q)"
    using q(1) by simp
  then have len: "length pat = pi + 2 + length q"
    unfolding length_drop by linarith
  have "drop 1 (drop (pi + 1) pat) = q"
    by (simp only: q(1)) simp
  then have dq: "drop (pi + 2) pat = q"
    by (simp add: numeral_2_eq_2)
  define close where "close = pi + 2 + length (takeWhile stop q)"
  have lq: "length q = length (takeWhile stop q) + Suc (length rest)"
    using q(2) by (metis length_append length_Cons takeWhile_dropWhile_id)
  have f: "find_close pat (pi + 1) (pi + 1) = Some close"
    using len q(2) dq by (subst find_close.simps) (simp add: find_close_after close_def stop_def)
  have inner: "take (close - (pi + 1)) (drop (pi + 1) pat) = inner"
    using q by (simp add: close_def takeWhile_eq_take [symmetric])
  have "drop (close + 1) pat = drop 1 (drop (length (takeWhile stop q)) (drop (pi + 2) pat))"
    unfolding drop_drop close_def by (rule arg_cong [where f = "\<lambda>n. drop n pat"]) simp
  then have rest: "drop (close + 1) pat = rest"
    unfolding dq dropWhile_eq_drop [symmetric] by (simp add: q(2))
  show ?thesis
    using f inner rest lq len
    by (intro exI [of _ "close + 1"])
      (simp add: match_char_class_def class_token_def class_body_items Let_def close_def)
qed


lemma match_char_class_literal:
  assumes "pi < length pat" "class_split (drop (pi + 1) pat) = None"
  shows "match_char_class c pat pi = (pat ! pi = c, pi + 1)"
proof -
  have "find_close pat (pi + 1) (pi + 1) = None"
  proof (cases "pi + 1 < length pat")
    case True
    have "drop (pi + 1) pat = pat ! (pi + 1) # drop (pi + 2) pat"
      using True by (simp add: Cons_nth_drop_Suc)
    with assms(2) have "dropWhile (\<lambda>c. c \<noteq> cp CHR '']'') (drop (pi + 2) pat) = []"
      unfolding class_split_def by (simp del: dropWhile_eq_Nil_conv split: list.splits)
    with True show ?thesis
      by (subst find_close.simps) (simp add: find_close_after del: dropWhile_eq_Nil_conv)
  qed (subst find_close.simps, simp)
  then show ?thesis
    by (simp add: match_char_class_def)
qed

lemma glob_step_token:
  assumes pi: "pi < length pat" and "pat ! pi \<noteq> cp CHR ''*''"
  shows "\<exists>t n. t \<noteq> Many \<and> pi < n \<and> n \<le> length pat
    \<and> glob_tokens (drop pi pat) = t # glob_tokens (drop n pat)
    \<and> (\<forall>c. fst (char_class_or_q c pat pi) = tok_accepts t c
         \<and> (tok_accepts t c \<longrightarrow> snd (char_class_or_q c pat pi) = n))"
proof -
  have d: "drop pi pat = pat ! pi # drop (pi + 1) pat"
    using pi by (simp add: Cons_nth_drop_Suc)
  show ?thesis
  proof (cases "pat ! pi = cp CHR ''[''")
    case cls: True
    show ?thesis
    proof (cases "class_split (drop (pi + 1) pat)")
      case None
      then show ?thesis
        using pi cls match_char_class_literal [OF pi None]
        by (intro exI [of _ "Lit (pat ! pi)"] exI [of _ "pi + 1"]) (simp add: d char_class_or_q_def)
    next
      case (Some ir)
      obtain inner rest where ir: "ir = (inner, rest)" by fastforce
      have "class_token inner \<noteq> Many"
        by (simp add: class_token_def Let_def)
      moreover have "glob_tokens (drop pi pat) = class_token inner # glob_tokens rest"
        by (simp add: d cls Some [unfolded ir, simplified])
      moreover obtain n where "pi < n" "n \<le> length pat" "drop n pat = rest"
          "\<And>c. match_char_class c pat pi = (tok_accepts (class_token inner) c, n)"
        using match_char_class_split [OF pi Some [unfolded ir]] by blast
      ultimately show ?thesis
        using pi cls by (intro exI [of _ "class_token inner"] exI [of _ n]) (simp add: char_class_or_q_def)
    qed
  next
    case False
    with assms show ?thesis
      by (intro exI [of _ "if pat ! pi = cp CHR ''?'' then Any else Lit (pat ! pi)"] exI [of _ "pi + 1"])
        (simp add: d char_class_or_q_def)
  qed
qed

text \<open>Both loops of the code meet the contract.\<close>

interpretation glob: wildcard_loop "cp CHR ''*''" char_class_or_q "\<lambda>pat pi. glob_tokens (drop pi pat)" glob_loop
proof unfold_locales
  fix pat :: "nat list" and pi
  assume "pi < length pat" "pat ! pi = cp CHR ''*''"
  then show "glob_tokens (drop pi pat) = Many # glob_tokens (drop (pi + 1) pat)"
    using Cons_nth_drop_Suc [of pi pat] by (metis Suc_eq_plus1 glob_tokens.simps(2))
qed (simp, rule glob_step_token, assumption+, rule glob_loop.simps)

interpretation like: wildcard_loop "cp CHR ''%''"
  "\<lambda>c pat pi. (pat ! pi = cp CHR ''_'' \<or> pat ! pi = c, pi + 1)" "\<lambda>pat pi. like_tokens (drop pi pat)" like_loop
proof unfold_locales
  fix pat :: "nat list" and pi
  assume "pi < length pat" "pat ! pi = cp CHR ''%''"
  then show "like_tokens (drop pi pat) = Many # like_tokens (drop (pi + 1) pat)"
    by (simp add: like_tokens_def flip: Cons_nth_drop_Suc)
next
  fix pat :: "nat list" and pi
  assume "pi < length pat" "pat ! pi \<noteq> cp CHR ''%''"
  then show "\<exists>t n. t \<noteq> Many \<and> pi < n \<and> n \<le> length pat
    \<and> like_tokens (drop pi pat) = t # like_tokens (drop n pat)
    \<and> (\<forall>c. fst (pat ! pi = cp CHR ''_'' \<or> pat ! pi = c, pi + 1) = tok_accepts t c
         \<and> (tok_accepts t c \<longrightarrow> snd (pat ! pi = cp CHR ''_'' \<or> pat ! pi = c, pi + 1) = n))"
    by (intro exI [of _ "if pat ! pi = cp CHR ''_'' then Any else Lit (pat ! pi)"] exI [of _ "pi + 1"])
      (simp add: like_tokens_def flip: Cons_nth_drop_Suc)
qed (simp add: like_tokens_def, simp only: fst_conv snd_conv, rule like_loop.simps)

section \<open>Properties\<close>

text \<open>C7: The GLOB matcher ends on every text and pattern, although it only remembers the last
  wildcard, and accepts exactly the texts of the pattern's language: a star absorbs any stretch, a
  question mark one character, a bracketed class one character of its ranges (or outside them when
  negated), an unclosed bracket and every other character itself.\<close>

theorem glob_match_decides:
  "sql_glob_match text pattern = Some (glob_sem (glob_tokens (chars pattern)) (chars text))"
  using glob.loop_accepts by (simp add: sql_glob_match_def glob_match_slices_def)

text \<open>C30: The LIKE matcher ends on every text and pattern and accepts exactly the pattern's language
  after folding ASCII case: a percent sign absorbs any stretch, an underscore one character.\<close>

theorem like_match_decides:
  "sql_like_match text pattern =
     Some (glob_sem (like_tokens (map ascii_lower (chars pattern))) (map ascii_lower (chars text)))"
  using like.loop_accepts by (simp add: sql_like_match_def like_match_slices_def)

end
