(* ===== verification/Catalog_Search.thy ===== *)
theory Catalog_Search
  imports Mem_Export Glob_Match
begin

text \<open>
  Catalogue search over the in-memory index: \<open>MemIndex::scan_glob\<close> with \<open>for_each_dir\<close> and
  \<open>write_fullpath\<close> of \<open>ratarmount-index/src/mem.rs\<close>. A scan that did not return would be \<open>None\<close>; the properties
  show that it always returns and which rows it reports.
\<close>

section \<open>The code\<close>

definition DEFAULT_SEARCH_LIMIT :: nat where "DEFAULT_SEARCH_LIMIT = 10000"

definition DUMPDIR_DELETE_LINKNAME :: string where
  "DUMPDIR_DELETE_LINKNAME = CHR 0x00 # ''GNU.dumpdir.delete''"

definition write_fullpath :: "mem_index \<Rightarrow> u32 \<Rightarrow> string \<Rightarrow> string" where
  "write_fullpath m path_id name =
     (let ss = segs (mi_paths m) path_id in
      if ss = [] then ''/'' @ name
      else ''/'' @ join_with ''/'' (map (pool_get (mi_pool m)) ss) @ ''/'' @ name)"

definition for_each_dir :: "mem_index \<Rightarrow> (u32 \<times> dir_entries) list" where
  "for_each_dir m = (case mi_shards m of Some shards \<Rightarrow> concat shards | None \<Rightarrow> mi_dirs m)"

text \<open>The three nested loops of \<open>scan_glob\<close>, each with its check of the cap.\<close>

fun scan_versions ::
  "mem_index \<Rightarrow> string \<Rightarrow> u32 \<Rightarrow> string \<Rightarrow> cheap_search_hit list \<Rightarrow> u32 list \<Rightarrow> cheap_search_hit list option" where
  "scan_versions m pattern path_id name hits [] = Some hits"
| "scan_versions m pattern path_id name hits (soa_idx # rest) =
     (if length hits \<ge> DEFAULT_SEARCH_LIMIT then Some hits
      else let e = soa_entry (mi_soa m) (unat soa_idx) in
        if e_isgenerated e then scan_versions m pattern path_id name hits rest
        else if pool_get (mi_pool m) (e_linkname_id e) = DUMPDIR_DELETE_LINKNAME then
          scan_versions m pattern path_id name hits rest
        else let path_buf = write_fullpath m path_id name in
          case locate_pattern_matches pattern path_buf name of
            None \<Rightarrow> None
          | Some False \<Rightarrow> scan_versions m pattern path_id name hits rest
          | Some True \<Rightarrow>
              scan_versions m pattern path_id name
                (hits @ [\<lparr>h_path = path_buf, h_name = name, h_size = e_size e, h_mtime = e_mtime e,
                   h_offsetheader = (if sint (e_offsetheader e) < 0 then None else Some (e_offsetheader e))\<rparr>])
                rest)"

fun scan_names ::
  "mem_index \<Rightarrow> string \<Rightarrow> u32 \<Rightarrow> cheap_search_hit list \<Rightarrow> dir_entries \<Rightarrow> cheap_search_hit list option" where
  "scan_names m pattern path_id hits [] = Some hits"
| "scan_names m pattern path_id hits ((nid, versions) # rest) =
     (if length hits \<ge> DEFAULT_SEARCH_LIMIT then Some hits
      else let name = pool_get (mi_pool m) nid in
        if name = [] then scan_names m pattern path_id hits rest
        else Option.bind (scan_versions m pattern path_id name hits versions)
               (\<lambda>hits'. scan_names m pattern path_id hits' rest))"

fun scan_dirs ::
  "mem_index \<Rightarrow> string \<Rightarrow> cheap_search_hit list \<Rightarrow> (u32 \<times> dir_entries) list \<Rightarrow> cheap_search_hit list option" where
  "scan_dirs m pattern hits [] = Some hits"
| "scan_dirs m pattern hits ((path_id, de) # rest) =
     (if length hits \<ge> DEFAULT_SEARCH_LIMIT then scan_dirs m pattern hits rest
      else Option.bind (scan_names m pattern path_id hits de)
             (\<lambda>hits'. scan_dirs m pattern hits' rest))"

definition hit_key :: "cheap_search_hit \<Rightarrow> string \<times> int option" where
  "hit_key h = (h_path h, map_option sint (h_offsetheader h))"

definition scan_glob :: "mem_index \<Rightarrow> string \<Rightarrow> cheap_search_hit list option" where
  "scan_glob m pattern =
     (if pattern = [] \<or> starts_with pattern ''fts:'' then Some []
      else map_option (\<lambda>hits. take DEFAULT_SEARCH_LIMIT (sort_key hit_key hits))
             (scan_dirs m pattern [] (for_each_dir m)))"

section \<open>Which rows a scan reports\<close>

text \<open>A row is located when it is neither generated nor a tombstone and its path or name matches.\<close>

definition row_fullpath :: "file_row \<Rightarrow> string" where
  "row_fullpath r = r_path r @ ''/'' @ r_name r"

definition row_located :: "string \<Rightarrow> file_row \<Rightarrow> bool" where
  "row_located pattern r \<longleftrightarrow>
     r_name r \<noteq> [] \<and> \<not> r_isgenerated r \<and> r_linkname r \<noteq> DUMPDIR_DELETE_LINKNAME
     \<and> locate_pattern_matches pattern (row_fullpath r) (r_name r) = Some True"

definition row_hit :: "file_row \<Rightarrow> cheap_search_hit" where
  "row_hit r =
     \<lparr>h_path = row_fullpath r, h_name = r_name r, h_size = r_size r, h_mtime = r_mtime r,
      h_offsetheader = (if sint (r_offsetheader r) < 0 then None else Some (r_offsetheader r))\<rparr>"

definition located_hits :: "string \<Rightarrow> file_row list \<Rightarrow> cheap_search_hit list" where
  "located_hits pattern rows = map row_hit (filter (row_located pattern) rows)"

lemma located_hits_simps [simp]:
  "located_hits pattern [] = []"
  "located_hits pattern (rs @ rs') = located_hits pattern rs @ located_hits pattern rs'"
  "located_hits pattern (r # rs) = (if row_located pattern r then [row_hit r] else []) @ located_hits pattern rs"
  by (simp_all add: located_hits_def)

lemma locate_total: "\<exists>v. locate_pattern_matches pattern fullpath name = Some v"
  by (simp add: locate_pattern_matches_def sql_glob_match_def glob_match_slices_def
      sql_like_match_def like_match_slices_def Let_def glob.loop_accepts like.loop_accepts
      split: if_splits) auto

text \<open>The rows below one directory, in the order of the walk.\<close>

definition dir_export :: "mem_index \<Rightarrow> u32 \<times> dir_entries \<Rightarrow> file_row list" where
  "dir_export m pd =
     concat (map (\<lambda>(nid, vs). map (\<lambda>i. export_triple m (fst pd, nid, i)) vs) (snd pd))"

lemma write_fullpath_row:
  "write_fullpath m pid (pool_get (mi_pool m) nid) = row_fullpath (export_triple m (pid, nid, i))"
  by (simp add: write_fullpath_def row_fullpath_def export_triple_def export_row_def
      flat_string_for_export_def Let_def)

lemma scan_versions_eq:
  assumes "pool_get (mi_pool m) nid \<noteq> []"
  shows "length hits \<le> DEFAULT_SEARCH_LIMIT \<Longrightarrow>
    scan_versions m pattern pid (pool_get (mi_pool m) nid) hits is =
      Some (take DEFAULT_SEARCH_LIMIT (hits @ located_hits pattern (map (\<lambda>i. export_triple m (pid, nid, i)) is)))"
proof (induction "is" arbitrary: hits)
  case (Cons i "is")
  let ?r = "export_triple m (pid, nid, i)"
  let ?e = "soa_entry (mi_soa m) (unat i)"
  have r: "r_name ?r = pool_get (mi_pool m) nid" "r_isgenerated ?r = e_isgenerated ?e"
      "r_linkname ?r = pool_get (mi_pool m) (e_linkname_id ?e)"
      "r_size ?r = e_size ?e" "r_mtime ?r = e_mtime ?e" "r_offsetheader ?r = e_offsetheader ?e"
    by (simp_all add: export_triple_def export_row_def Let_def)
  have hit: "row_hit ?r = \<lparr>h_path = row_fullpath ?r, h_name = pool_get (mi_pool m) nid, h_size = e_size ?e,
      h_mtime = e_mtime ?e,
      h_offsetheader = (if sint (e_offsetheader ?e) < 0 then None else Some (e_offsetheader ?e))\<rparr>"
    by (simp only: row_hit_def r)
  obtain v where v: "locate_pattern_matches pattern (row_fullpath ?r) (r_name ?r) = Some v"
    using locate_total by blast
  show ?case
  proof (cases "length hits = DEFAULT_SEARCH_LIMIT")
    case False
    with Cons.prems have less: "length hits < DEFAULT_SEARCH_LIMIT" by simp
    note IH = Cons.IH [of hits] Cons.IH [of "hits @ [row_hit ?r]"]
    show ?thesis
      using less v IH assms
      by (simp add: write_fullpath_row [of m pid nid i] Let_def row_located_def r hit [symmetric] take_Cons'
          split: bool.splits)
  qed simp
qed simp


lemma take_take_append: "take n (take n xs @ ys) = take n (xs @ ys)"
  by (cases "n \<le> length xs") auto

lemma unlocated_names: "\<forall>r \<in> set rows. r_name r = [] \<Longrightarrow> located_hits pattern rows = []"
  by (induction rows) (auto simp: row_located_def)

lemma scan_names_eq:
  "length hits \<le> DEFAULT_SEARCH_LIMIT \<Longrightarrow>
   scan_names m pattern pid hits de =
     Some (take DEFAULT_SEARCH_LIMIT (hits @ located_hits pattern (dir_export m (pid, de))))"
proof (induction de arbitrary: hits)
  case (Cons nv de)
  obtain nid vs where nv: "nv = (nid, vs)" by force
  let ?rows = "map (\<lambda>i. export_triple m (pid, nid, i)) vs"
  have rows: "dir_export m (pid, nv # de) = ?rows @ dir_export m (pid, de)"
    by (simp add: dir_export_def nv)
  show ?case
  proof (cases "pool_get (mi_pool m) nid = []")
    case True
    then have "located_hits pattern ?rows = []"
      by (intro unlocated_names) (auto simp: export_triple_def export_row_def Let_def)
    with True Cons show ?thesis
      by (simp add: nv rows [unfolded nv])
  next
    case False
    show ?thesis
      unfolding nv rows [unfolded nv] scan_names.simps Let_def scan_versions_eq [OF False Cons.prems]
      using False Cons.IH [of "take DEFAULT_SEARCH_LIMIT (hits @ located_hits pattern ?rows)"] Cons.prems
      by (cases "length hits = DEFAULT_SEARCH_LIMIT") (simp, simp add: take_take_append del: take_append)
  qed
qed (simp add: dir_export_def)

lemma scan_dirs_eq:
  "length hits \<le> DEFAULT_SEARCH_LIMIT \<Longrightarrow>
   scan_dirs m pattern hits ds =
     Some (take DEFAULT_SEARCH_LIMIT (hits @ located_hits pattern (concat (map (dir_export m) ds))))"
proof (induction ds arbitrary: hits)
  case (Cons d ds)
  obtain pid de where d: "d = (pid, de)" by force
  show ?case
    using Cons.IH [of hits] Cons.prems
      Cons.IH [of "take DEFAULT_SEARCH_LIMIT (hits @ located_hits pattern (dir_export m d))"]
    by (cases "length hits = DEFAULT_SEARCH_LIMIT")
      (simp add: d, simp add: d scan_names_eq take_take_append del: take_append)
qed simp

text \<open>The walk visits every directory of a finished index once.\<close>

lemma finish_for_each_dir:
  assumes "distinct (map fst (mb_dirs b))"
  shows "mset (for_each_dir (finish b)) = mset (mb_dirs b)"
  using fill_shards_mset [OF assms, of "replicate 32 []"]
  by (simp add: for_each_dir_def finish_def Let_def DIR_SHARD_COUNT_def)

lemma finish_walk:
  assumes rep: "mb_rep b t"
  shows "mset (concat (map (dir_export (finish b)) (for_each_dir (finish b)))) =
    mset (map (\<lambda>kr. exported_row (snd kr)) t)"
proof -
  have d: "distinct (map fst (mb_dirs b))"
    using rep dirs_okD(1) mb_invD(10) by (auto simp: mb_rep_def)
  let ?f = "\<lambda>pd :: u32 \<times> dir_entries. dir_triples (mb_dirs b) (fst pd)"
  have e: "dir_export (finish b) pd = map (export_triple (finish b)) (?f pd)" if "pd \<in> set (mb_dirs b)" for pd
    using map_of_is_SomeI [OF d, of "fst pd" "snd pd"] that
    by (simp only: prod.collapse)
      (simp add: dir_export_def dir_triples_def map_concat o_def case_prod_unfold)
  have "mset (concat (map (dir_export (finish b)) (for_each_dir (finish b)))) =
      mset (concat (map (dir_export (finish b)) (mb_dirs b)))"
    by (simp add: mset_concat finish_for_each_dir [OF d] flip: sum_mset_sum_list)
  also have "\<dots> = mset (map (export_triple (finish b)) (concat (map ?f (mb_dirs b))))"
    using e by (simp add: map_concat o_def cong: map_cong)
  also have "\<dots> = mset (map (\<lambda>kr. exported_row (snd kr)) t)"
  proof (rule export_mset_triples [OF rep])
    have "mset (concat (map ?f (mb_dirs b))) =
        mset (concat (map (dir_triples (mb_dirs b)) (sort (map fst (mb_dirs b)))))"
      by (simp add: mset_concat image_mset.compositionality o_def flip: sum_mset_sum_list)
    then show "mset (concat (map ?f (mb_dirs b))) = mset (map (row_triple b t) [0..<length t])"
      by (simp only: triples_mset [OF rep])
  qed
  finally show ?thesis .
qed


section \<open>Properties\<close>

text \<open>C29: Catalogue search always returns, and reports the located rows of the table, one hit per row,
  in path order: all of them while there are at most ten thousand, and ten thousand of them beyond
  that. Which ones are cut then depends on the order in which the directories are walked, not on
  the order of the result.\<close>

theorem scan_glob_reports:
  assumes "rows_weight rs + 2 < 2 ^ 32" "push_rows mb_new rs = Some b"
    and "pattern \<noteq> []" "\<not> starts_with pattern ''fts:''"
  defines "expected \<equiv> located_hits pattern (map (\<lambda>kr. exported_row (snd kr)) (table_of rs))"
  shows "\<exists>hits. scan_glob (finish b) pattern = Some hits
    \<and> mset hits \<subseteq># mset expected
    \<and> length hits = min DEFAULT_SEARCH_LIMIT (length expected)
    \<and> sorted (map hit_key hits)"
proof -
  let ?all = "located_hits pattern (concat (map (dir_export (finish b)) (for_each_dir (finish b))))"
  let ?hits = "sort_key hit_key (take DEFAULT_SEARCH_LIMIT ?all)"
  have all: "mset ?all = mset expected"
    unfolding expected_def located_hits_def mset_map mset_filter
      finish_walk [OF push_rows_represents(1) [OF assms(1,2)]] ..
  then have len: "length ?all = length expected"
    by (rule mset_eq_length)
  have "scan_glob (finish b) pattern = Some (take DEFAULT_SEARCH_LIMIT ?hits)"
    using assms(3,4) by (simp add: scan_glob_def scan_dirs_eq)
  then have "scan_glob (finish b) pattern = Some ?hits"
    by simp
  moreover have "mset (take DEFAULT_SEARCH_LIMIT ?all) \<subseteq># mset ?all"
    by (metis append_take_drop_id mset_append mset_subset_eq_add_left)
  ultimately show ?thesis
    using all len by simp
qed

theorem scan_glob_reports_witness:
  "\<exists>b hits. push_rows mb_new [sample_row ''/d'' ''f.txt'' 0 7, sample_row '''' ''g'' 512 3, sample_row '''' ''a.txt'' 9 9] = Some b
    \<and> scan_glob (finish b) ''*.txt'' = Some hits \<and> length hits = 2"
proof -
  let ?rs = "[sample_row ''/d'' ''f.txt'' 0 7, sample_row '''' ''g'' 512 3, sample_row '''' ''a.txt'' 9 9]"
  have w: "rows_weight ?rs + 2 < 2 ^ 32" by code_simp
  obtain b where b: "push_rows mb_new ?rs = Some b" using push_rows_new [OF w] by blast
  have p: "''*.txt'' \<noteq> []" "\<not> starts_with ''*.txt'' ''fts:''" by code_simp+
  have "length (located_hits ''*.txt'' (map (\<lambda>kr. exported_row (snd kr)) (table_of ?rs))) = 2"
    by code_simp
  with scan_glob_reports [OF w b p] b show ?thesis
    by (auto simp: DEFAULT_SEARCH_LIMIT_def)
qed

end
