(* ===== verification/Union_Mount.thy ===== *)
theory Union_Mount
  imports Core_Types Path_Intern Catalog_Search
begin

text \<open>
  The union of mount sources (\<open>UnionMountSource\<close> in \<open>ratarmount-compositing/src/union.rs\<close>): the
  folder cache, symlink following, merged listings and versioned lookup.

  The code depends on two things of its host that are arguments here: \<open>timed_out\<close> answers the
  n-th check of the cache build's stopwatch, and \<open>iter\<close> is the order in which a hash map is walked.
  \<open>None\<close> as the result of the cache build stands for the panic of a full path interner.
\<close>

section \<open>Options and state\<close>

definition MAX_SYMLINK_RESOLVE_HOPS :: nat where "MAX_SYMLINK_RESOLVE_HOPS = 8"

record union_mount_options =
  uo_max_cache_depth :: nat
  uo_max_cache_entries :: nat
  uo_max_seconds_to_cache :: f64
  uo_resolve_symlinks :: bool

definition union_options_default :: union_mount_options where
  "union_options_default =
     \<lparr>uo_max_cache_depth = 1024, uo_max_cache_entries = 100000,
      uo_max_seconds_to_cache = 0x404E000000000000, uo_resolve_symlinks = False\<rparr>"

type_synonym folder_map = "(u32 \<times> nat list) list"

record ('r, 'f) union_mount =
  um_sources :: "('r, 'f) mount_source list"
  um_path_intern :: path_intern
  um_folder_cache :: folder_map
  um_folder_cache_depth :: nat
  um_resolve_symlinks :: bool

section \<open>Following symlinks inside one source\<close>

fun follow_hops :: "('r, 'f) mount_source \<Rightarrow> (string \<Rightarrow> 'a option) \<Rightarrow> nat \<Rightarrow> string list \<Rightarrow> string
    \<Rightarrow> file_info \<Rightarrow> 'a option" where
  "follow_hops src try_list 0 seen current_path current = None"
| "follow_hops src try_list (Suc n) seen current_path current =
     (if \<not> is_lnk_mode (fi_mode current) \<or> fi_linkname current = [] then None
      else let target = resolve_symlink_target current_path (fi_linkname current) in
        if target \<in> set seen then None
        else case try_list target of
          Some v \<Rightarrow> Some v
        | None \<Rightarrow>
            (case ms_lookup src target 0 of
               None \<Rightarrow> None
             | Some fi \<Rightarrow> follow_hops src try_list n (target # seen) target fi))"

definition follow_symlink_then ::
  "('r, 'f) mount_source \<Rightarrow> string \<Rightarrow> bool \<Rightarrow> (string \<Rightarrow> 'a option) \<Rightarrow> 'a option" where
  "follow_symlink_then src path resolve_symlinks try_list =
     (case try_list path of
        Some v \<Rightarrow> Some v
      | None \<Rightarrow>
          (case ms_lookup src path 0 of
             None \<Rightarrow> None
           | Some fi \<Rightarrow>
               (if \<not> is_lnk_mode (fi_mode fi) \<or> fi_linkname fi = [] then None
                else let max_hops = (if resolve_symlinks then MAX_SYMLINK_RESOLVE_HOPS else 1)
                     in follow_hops src try_list max_hops [path] path fi)))"

definition list_from_source :: "('r, 'f) mount_source \<Rightarrow> string \<Rightarrow> bool \<Rightarrow> list_result option" where
  "list_from_source src path resolve_symlinks =
     follow_symlink_then src path resolve_symlinks (ms_list src)"

definition list_dirents_from_source ::
  "('r, 'f) mount_source \<Rightarrow> string \<Rightarrow> bool \<Rightarrow> cheap_dirent list option" where
  "list_dirents_from_source src path resolve_symlinks =
     follow_symlink_then src path resolve_symlinks (ms_list_dirents src)"

fun chain_hops :: "('r, 'f) mount_source \<Rightarrow> nat \<Rightarrow> string list \<Rightarrow> string \<Rightarrow> file_info \<Rightarrow> file_info option" where
  "chain_hops src 0 seen current_path current =
     (if is_lnk_mode (fi_mode current) then None else Some current)"
| "chain_hops src (Suc n) seen current_path current =
     (if \<not> is_lnk_mode (fi_mode current) then Some current
      else if fi_linkname current = [] then None
      else let target = resolve_symlink_target current_path (fi_linkname current) in
        if target \<in> set seen then None
        else case ms_lookup src target 0 of
          None \<Rightarrow> None
        | Some fi \<Rightarrow> chain_hops src n (target # seen) target fi)"

definition resolve_symlink_chain :: "('r, 'f) mount_source \<Rightarrow> string \<Rightarrow> file_info \<Rightarrow> file_info option" where
  "resolve_symlink_chain src path fi = chain_hops src MAX_SYMLINK_RESOLVE_HOPS [path] path fi"

definition maybe_resolve_winner ::
  "('r, 'f) mount_source \<Rightarrow> string \<Rightarrow> file_info \<Rightarrow> bool \<Rightarrow> file_info option" where
  "maybe_resolve_winner src path fi resolve_symlinks =
     (if \<not> resolve_symlinks \<or> \<not> is_lnk_mode (fi_mode fi) then Some fi
      else resolve_symlink_chain src path fi)"

section \<open>The folder cache\<close>

definition folder_cache_should_include_child ::
  "('r, 'f) mount_source \<Rightarrow> string \<Rightarrow> u32 \<Rightarrow> bool \<Rightarrow> bool" where
  "folder_cache_should_include_child src child_path mode resolve_symlinks =
     (if is_dir_mode mode then True
      else if is_lnk_mode mode then list_dirents_from_source src child_path resolve_symlinks \<noteq> None
      else if mode = 0 then
        (let probe = list_dirents_from_source src child_path resolve_symlinks \<noteq> None
               \<or> list_from_source src child_path resolve_symlinks \<noteq> None
         in case ms_lookup src child_path 0 of
              Some fi \<Rightarrow>
                (if is_dir_mode (fi_mode fi) then True
                 else if \<not> is_lnk_mode (fi_mode fi) then False
                 else probe)
            | None \<Rightarrow> probe)
      else False)"

text \<open>The working state of the build: interner, remaining entries, the level being built, checks done.\<close>

record cache_work =
  cw_intern :: path_intern
  cw_left :: nat
  cw_new :: folder_map
  cw_ticks :: nat

definition cache_add :: "cache_work \<Rightarrow> string \<Rightarrow> nat \<Rightarrow> cache_work option" where
  "cache_add w full si =
     (case pi_intern (cw_intern w) full of
        None \<Rightarrow> None
      | Some (full_id, p) \<Rightarrow>
          Some (w\<lparr>cw_intern := p, cw_left := cw_left w - 1,
                  cw_new := AList.update full_id
                    ((case map_of (cw_new w) full_id of None \<Rightarrow> [] | Some v \<Rightarrow> v) @ [si]) (cw_new w)\<rparr>))"

text \<open>The loops over children, sources and folders of one level; \<open>True\<close> is the early stop.\<close>

fun cache_children :: "(nat \<Rightarrow> bool) \<Rightarrow> ('r, 'f) mount_source \<Rightarrow> bool \<Rightarrow> string \<Rightarrow> nat \<Rightarrow> cache_work
    \<Rightarrow> cheap_dirent list \<Rightarrow> (bool \<times> cache_work) option" where
  "cache_children timed_out src resolve folder si w [] = Some (False, w)"
| "cache_children timed_out src resolve folder si w (d # ds) =
     (let w1 = w\<lparr>cw_ticks := cw_ticks w + 1\<rparr> in
      if timed_out (cw_ticks w) \<or> cw_left w = 0 then Some (True, w1)
      else let full = join_path folder (cd_name d) in
        if \<not> folder_cache_should_include_child src full (cd_mode d) resolve then
          cache_children timed_out src resolve folder si w1 ds
        else Option.bind (cache_add w1 full si)
               (\<lambda>w2. cache_children timed_out src resolve folder si w2 ds))"

fun cache_sources :: "(nat \<Rightarrow> bool) \<Rightarrow> ('r, 'f) mount_source list \<Rightarrow> bool \<Rightarrow> string \<Rightarrow> cache_work
    \<Rightarrow> nat list \<Rightarrow> (bool \<times> cache_work) option" where
  "cache_sources timed_out sources resolve folder w [] = Some (False, w)"
| "cache_sources timed_out sources resolve folder w (si # sis) =
     (let w1 = w\<lparr>cw_ticks := cw_ticks w + 1\<rparr> in
      if timed_out (cw_ticks w) \<or> cw_left w = 0 then Some (True, w1)
      else case list_dirents_from_source (sources ! si) folder resolve of
        None \<Rightarrow> cache_sources timed_out sources resolve folder w1 sis
      | Some dents \<Rightarrow>
          Option.bind (cache_children timed_out (sources ! si) resolve folder si w1 dents)
            (\<lambda>(stop, w2). if stop then Some (True, w2)
               else cache_sources timed_out sources resolve folder w2 sis))"

fun cache_folders :: "(nat \<Rightarrow> bool) \<Rightarrow> ('r, 'f) mount_source list \<Rightarrow> bool \<Rightarrow> cache_work
    \<Rightarrow> folder_map \<Rightarrow> (bool \<times> cache_work) option" where
  "cache_folders timed_out sources resolve w [] = Some (False, w)"
| "cache_folders timed_out sources resolve w ((folder_id, idxs) # rest) =
     Option.bind (cache_sources timed_out sources resolve (pi_get (cw_intern w) folder_id) w idxs)
       (\<lambda>(stop, w1). if stop then Some (True, w1)
          else cache_folders timed_out sources resolve w1 rest)"

text \<open>\<open>HashMap::extend\<close>.\<close>

definition folder_extend :: "folder_map \<Rightarrow> folder_map \<Rightarrow> folder_map" where
  "folder_extend m new = foldl (\<lambda>m (k, v). AList.update k v m) m new"

text \<open>The loop over the depths \<open>1..max_cache_depth\<close>; the result is the interner, the cache and its depth.\<close>

fun cache_levels :: "(nat \<Rightarrow> bool) \<Rightarrow> (folder_map \<Rightarrow> folder_map) \<Rightarrow> ('r, 'f) mount_source list \<Rightarrow> bool
    \<Rightarrow> cache_work \<Rightarrow> folder_map \<Rightarrow> folder_map \<Rightarrow> nat \<Rightarrow> nat list
    \<Rightarrow> (path_intern \<times> folder_map \<times> nat) option" where
  "cache_levels timed_out iter sources resolve w folder_cache last_level depth_done [] =
     Some (cw_intern w, folder_cache, depth_done)"
| "cache_levels timed_out iter sources resolve w folder_cache last_level depth_done (depth # depths) =
     Option.bind (cache_folders timed_out sources resolve (w\<lparr>cw_new := []\<rparr>) (iter last_level))
       (\<lambda>(stop, w1).
          if stop \<or> cw_new w1 = [] then Some (cw_intern w1, folder_cache, depth_done)
          else cache_levels timed_out iter sources resolve w1
                 (folder_extend folder_cache (cw_new w1)) (cw_new w1) depth depths)"

definition build_folder_cache :: "(nat \<Rightarrow> bool) \<Rightarrow> (folder_map \<Rightarrow> folder_map) \<Rightarrow> ('r, 'f) union_mount
    \<Rightarrow> nat \<Rightarrow> nat \<Rightarrow> ('r, 'f) union_mount option" where
  "build_folder_cache timed_out iter u max_cache_depth max_cache_entries =
     (let root_idxs = filter (\<lambda>i. ms_is_immutable (um_sources u ! i)) [0..<length (um_sources u)] in
      case pi_intern (um_path_intern u) ''/'' of
        None \<Rightarrow> None
      | Some (root_id, p) \<Rightarrow>
          map_option (\<lambda>(p', cache, depth).
              u\<lparr>um_path_intern := p', um_folder_cache := cache, um_folder_cache_depth := depth\<rparr>)
            (cache_levels timed_out iter (um_sources u) (um_resolve_symlinks u)
               \<lparr>cw_intern = p, cw_left = max_cache_entries, cw_new = [], cw_ticks = 0\<rparr>
               [(root_id, root_idxs)] [(root_id, root_idxs)] 0 [1..<max_cache_depth]))"

definition new_with_options :: "(f64 \<Rightarrow> nat \<Rightarrow> bool) \<Rightarrow> (folder_map \<Rightarrow> folder_map)
    \<Rightarrow> ('r, 'f) mount_source list \<Rightarrow> union_mount_options \<Rightarrow> ('r, 'f) union_mount option" where
  "new_with_options timed_out iter sources opts =
     (let u = \<lparr>um_sources = sources, um_path_intern = pi_new, um_folder_cache = [],
               um_folder_cache_depth = 0, um_resolve_symlinks = uo_resolve_symlinks opts\<rparr>
      in if length sources > 1 then
           build_folder_cache (timed_out (uo_max_seconds_to_cache opts)) iter u
             (max (uo_max_cache_depth opts) 1) (uo_max_cache_entries opts)
         else Some u)"

definition cached_sources :: "('r, 'f) union_mount \<Rightarrow> string \<Rightarrow> nat list option" where
  "cached_sources u path =
     (case Option.bind (pi_lookup (um_path_intern u) path) (map_of (um_folder_cache u)) of
        Some c \<Rightarrow> Some c
      | None \<Rightarrow>
          (if um_folder_cache_depth u > 0 \<and> starts_with path ''/'' then
             Option.bind (pi_lookup (um_path_intern u) (parent_at_depth path (um_folder_cache_depth u)))
               (map_of (um_folder_cache u))
           else None))"

definition sources_for_path :: "('r, 'f) union_mount \<Rightarrow> string \<Rightarrow> nat list" where
  "sources_for_path u path =
     (if length (um_sources u) \<le> 1 \<or> um_folder_cache u = [] then [0..<length (um_sources u)]
      else
        let cached = cached_sources u path;
            out = filter (\<lambda>i. \<not> ms_is_immutable (um_sources u ! i)
                    \<or> (case cached of Some c \<Rightarrow> i \<in> set c | None \<Rightarrow> True))
                  [0..<length (um_sources u)]
        in if out = [] then [0..<length (um_sources u)] else out)"

section \<open>Tagging results with their source\<close>

definition tag_source :: "file_info \<Rightarrow> nat \<Rightarrow> file_info" where
  "tag_source fi source_index =
     fi\<lparr>fi_userdata := fi_userdata fi @ [Other (''union:'' @ show_nat source_index)]\<rparr>"

fun union_tag :: "user_data \<Rightarrow> nat option" where
  "union_tag (Other s) = (if starts_with s ''union:'' then parse_usize (drop 6 s) else None)"
| "union_tag (Tar t) = None"

text \<open>\<open>iter().find_map(f)\<close>.\<close>

fun find_map :: "('a \<Rightarrow> 'b option) \<Rightarrow> 'a list \<Rightarrow> 'b option" where
  "find_map f [] = None"
| "find_map f (x # xs) = (case f x of Some y \<Rightarrow> Some y | None \<Rightarrow> find_map f xs)"

definition source_from_info :: "file_info \<Rightarrow> nat option" where
  "source_from_info fi = find_map union_tag (rev (fi_userdata fi))"

text \<open>The tag is popped again before the source sees the file info.\<close>

definition strip_union_tag :: "file_info \<Rightarrow> file_info" where
  "strip_union_tag fi =
     (if fi_userdata fi = [] then fi
      else case last (fi_userdata fi) of
        Other s \<Rightarrow>
          (if starts_with s ''union:'' then fi\<lparr>fi_userdata := butlast (fi_userdata fi)\<rparr> else fi)
      | Tar t \<Rightarrow> fi)"

fun path_tag :: "user_data \<Rightarrow> string option" where
  "path_tag (Other s) = (if \<not> starts_with s ''union:'' then Some s else None)"
| "path_tag (Tar t) = None"

definition path_from_file_info :: "file_info \<Rightarrow> string option" where
  "path_from_file_info fi = find_map path_tag (rev (fi_userdata fi))"

section \<open>Merged listings\<close>

definition merge_list_entry ::
  "(string \<times> file_info) list \<Rightarrow> string \<Rightarrow> file_info \<Rightarrow> (string \<times> file_info) list" where
  "merge_list_entry m name fi =
     (case map_of m name of
        Some existing \<Rightarrow>
          (if is_dir_mode (fi_mode existing) \<and> is_lnk_mode (fi_mode fi) then m else bt_insert name fi m)
      | None \<Rightarrow> bt_insert name fi m)"

definition dirent_is_dir :: "('r, 'f) union_mount \<Rightarrow> u32 \<Rightarrow> nat \<Rightarrow> string \<Rightarrow> string \<Rightarrow> bool" where
  "dirent_is_dir u mode si parent name =
     (if is_dir_mode mode then True
      else if mode \<noteq> 0 then False
      else if si < length (um_sources u) then
        (case ms_lookup (um_sources u ! si) (join_path parent name) 0 of
           Some fi \<Rightarrow> is_dir_mode (fi_mode fi)
         | None \<Rightarrow> False)
      else False)"

definition dirent_is_lnk :: "('r, 'f) union_mount \<Rightarrow> u32 \<Rightarrow> nat \<Rightarrow> string \<Rightarrow> string \<Rightarrow> bool" where
  "dirent_is_lnk u mode si parent name =
     (if is_lnk_mode mode then True
      else if mode \<noteq> 0 then False
      else if si < length (um_sources u) then
        (case ms_lookup (um_sources u ! si) (join_path parent name) 0 of
           Some fi \<Rightarrow> is_lnk_mode (fi_mode fi)
         | None \<Rightarrow> False)
      else False)"

type_synonym dirent_map = "(string \<times> (cheap_dirent \<times> nat)) list"

definition merge_dirent ::
  "('r, 'f) union_mount \<Rightarrow> dirent_map \<Rightarrow> string \<Rightarrow> cheap_dirent \<Rightarrow> nat \<Rightarrow> dirent_map" where
  "merge_dirent u m parent d si =
     (case map_of m (cd_name d) of
        Some (existing, existing_si) \<Rightarrow>
          (if dirent_is_dir u (cd_mode existing) existing_si parent (cd_name d)
              \<and> dirent_is_lnk u (cd_mode d) si parent (cd_name d)
           then m else bt_insert (cd_name d) (d, si) m)
      | None \<Rightarrow> bt_insert (cd_name d) (d, si) m)"

text \<open>The loop over the sources: \<open>None\<close> while no source has listed the path.\<close>

definition dirents_step :: "('r, 'f) union_mount \<Rightarrow> string \<Rightarrow> dirent_map option \<Rightarrow> nat \<Rightarrow> dirent_map option" where
  "dirents_step u path acc si =
     (case list_dirents_from_source (um_sources u ! si) path (um_resolve_symlinks u) of
        None \<Rightarrow> acc
      | Some dents \<Rightarrow>
          Some (foldl (\<lambda>m d. merge_dirent u m path d si) (case acc of None \<Rightarrow> [] | Some m \<Rightarrow> m) dents))"

definition list_dirents_b4_merged :: "('r, 'f) union_mount \<Rightarrow> string \<Rightarrow> dirent_map option" where
  "list_dirents_b4_merged u path0 =
     (let path = normpath path0
      in foldl (dirents_step u path) None [0..<length (um_sources u)])"

fun listed_infos :: "('r, 'f) mount_source \<Rightarrow> string \<Rightarrow> list_result \<Rightarrow> (string \<times> file_info) list" where
  "listed_infos src path (Infos m) = m"
| "listed_infos src path (Names names) =
     concat (map (\<lambda>name. case ms_lookup src (join_path path name) 0 of
       Some fi \<Rightarrow> [(name, fi)] | None \<Rightarrow> []) names)"

definition list_step :: "('r, 'f) union_mount \<Rightarrow> string \<Rightarrow> (string \<times> file_info) list option \<Rightarrow> nat
    \<Rightarrow> (string \<times> file_info) list option" where
  "list_step u path acc si =
     (case list_from_source (um_sources u ! si) path (um_resolve_symlinks u) of
        None \<Rightarrow> acc
      | Some listing \<Rightarrow>
          Some (foldl (\<lambda>m (k, v). merge_list_entry m k (tag_source v si))
            (case acc of None \<Rightarrow> [] | Some m \<Rightarrow> m) (listed_infos (um_sources u ! si) path listing)))"

definition resolve_child :: "('r, 'f) union_mount \<Rightarrow> string \<Rightarrow> (string \<times> file_info) list \<Rightarrow> string
    \<Rightarrow> (string \<times> file_info) list" where
  "resolve_child u path m name =
     (case map_of m name of
        None \<Rightarrow> m
      | Some fi \<Rightarrow>
          (if \<not> is_lnk_mode (fi_mode fi) then m
           else case source_from_info fi of
             None \<Rightarrow> m
           | Some si \<Rightarrow>
               (if si < length (um_sources u) then
                  (case resolve_symlink_chain (um_sources u ! si) (join_path path name) (strip_union_tag fi) of
                     Some resolved \<Rightarrow> bt_insert name (tag_source resolved si) m
                   | None \<Rightarrow> m)
                else m)))"

definition union_list :: "('r, 'f) union_mount \<Rightarrow> string \<Rightarrow> list_result option" where
  "union_list u path0 =
     (let path = normpath path0 in
      case foldl (list_step u path) None [0..<length (um_sources u)] of
        None \<Rightarrow> None
      | Some m \<Rightarrow>
          Some (Infos (if um_resolve_symlinks u then foldl (resolve_child u path) m (map fst m) else m)))"

definition resolve_dirent :: "('r, 'f) union_mount \<Rightarrow> string \<Rightarrow> cheap_dirent \<Rightarrow> nat \<Rightarrow> cheap_dirent" where
  "resolve_dirent u path d si =
     (if (is_lnk_mode (cd_mode d) \<or> cd_mode d = 0) \<and> si < length (um_sources u) then
        (let src = um_sources u ! si; child = join_path path (cd_name d) in
         case ms_lookup src child 0 of
           None \<Rightarrow> d
         | Some fi \<Rightarrow>
             (if is_lnk_mode (fi_mode fi) then
                (case resolve_symlink_chain src child fi of
                   Some resolved \<Rightarrow> d\<lparr>cd_mode := fi_mode resolved, cd_size := fi_size resolved\<rparr>
                 | None \<Rightarrow> d\<lparr>cd_mode := fi_mode fi, cd_size := fi_size fi\<rparr>)
              else d\<lparr>cd_mode := fi_mode fi, cd_size := fi_size fi\<rparr>))
      else d)"

definition union_list_dirents :: "('r, 'f) union_mount \<Rightarrow> string \<Rightarrow> cheap_dirent list option" where
  "union_list_dirents u path0 =
     (let path = normpath path0 in
      case list_dirents_b4_merged u path of
        None \<Rightarrow> None
      | Some m \<Rightarrow>
          (if \<not> um_resolve_symlinks u then Some (map (\<lambda>(_, d, _). d) m)
           else Some (map (\<lambda>(_, d, si). resolve_dirent u path d si) m)))"

definition union_list_mode :: "('r, 'f) union_mount \<Rightarrow> string \<Rightarrow> list_mode_result option" where
  "union_list_mode u path =
     map_option (\<lambda>dents. Modes (bt_collect cd_name cd_mode dents)) (union_list_dirents u path)"


section \<open>Search, lookup and open\<close>

fun merge_hits :: "string \<Rightarrow> ((string \<times> int option) \<times> cheap_search_hit) list
    \<Rightarrow> ('r, 'f) mount_source list \<Rightarrow> ((string \<times> int option) \<times> cheap_search_hit) list option" where
  "merge_hits pattern merged [] = Some merged"
| "merge_hits pattern merged (src # srcs) =
     (case ms_search_cheap src pattern of
        None \<Rightarrow> None
      | Some hits \<Rightarrow> merge_hits pattern (foldl (\<lambda>m h. bt_insert (hit_key h) h m) merged hits) srcs)"

definition union_search_cheap :: "('r, 'f) union_mount \<Rightarrow> string \<Rightarrow> cheap_search_hit list option" where
  "union_search_cheap u pattern =
     (if starts_with pattern ''fts:'' then None
      else map_option (\<lambda>merged. take DEFAULT_SEARCH_LIMIT (map snd merged))
             (merge_hits pattern [] (um_sources u)))"

text \<open>Version 0: from the rightmost source on, the first hit of any kind and the first directory.\<close>

fun newest_walk :: "('r, 'f) mount_source list \<Rightarrow> string \<Rightarrow> (nat \<times> file_info) option \<Rightarrow> nat list
    \<Rightarrow> (nat \<times> file_info) option \<times> (nat \<times> file_info) option" where
  "newest_walk sources path any [] = (any, None)"
| "newest_walk sources path any (si # sis) =
     (case ms_lookup (sources ! si) path 0 of
        None \<Rightarrow> newest_walk sources path any sis
      | Some fi \<Rightarrow>
          let any' = (if any = None then Some (si, fi) else any)
          in if is_dir_mode (fi_mode fi) then (any', Some (si, fi))
             else newest_walk sources path any' sis)"

definition tag_resolved ::
  "('r, 'f) union_mount \<Rightarrow> string \<Rightarrow> nat \<Rightarrow> file_info \<Rightarrow> file_info option" where
  "tag_resolved u path si fi =
     map_option (\<lambda>fi. tag_source fi si)
       (maybe_resolve_winner (um_sources u ! si) path fi (um_resolve_symlinks u))"

fun negative_walk :: "('r, 'f) union_mount \<Rightarrow> string \<Rightarrow> i32 \<Rightarrow> nat list \<Rightarrow> file_info option" where
  "negative_walk u path ver [] = None"
| "negative_walk u path ver (si # sis) =
     (let src = um_sources u ! si in
      case ms_lookup src path ver of
        Some fi \<Rightarrow> tag_resolved u path si fi
      | None \<Rightarrow>
          let ver' = ver + ms_versions src path
          in if 0 < sint ver' then None else negative_walk u path ver' sis)"

fun positive_walk :: "('r, 'f) union_mount \<Rightarrow> string \<Rightarrow> i32 \<Rightarrow> nat list \<Rightarrow> file_info option" where
  "positive_walk u path ver [] = None"
| "positive_walk u path ver (si # sis) =
     (let src = um_sources u ! si in
      case ms_lookup src path ver of
        Some fi \<Rightarrow> tag_resolved u path si fi
      | None \<Rightarrow>
          let ver' = ver - ms_versions src path
          in if sint ver' < 1 then None else positive_walk u path ver' sis)"

definition lookup_in :: "('r, 'f) union_mount \<Rightarrow> nat list \<Rightarrow> string \<Rightarrow> i32 \<Rightarrow> file_info option" where
  "lookup_in u idxs path file_version =
     (if file_version = 0 then
        (let (any, dir) = newest_walk (um_sources u) path None (rev idxs) in
         case (if dir \<noteq> None then dir else any) of
           None \<Rightarrow> None
         | Some (si, fi) \<Rightarrow> tag_resolved u path si fi)
      else if sint file_version < 0 then negative_walk u path file_version (rev idxs)
      else positive_walk u path file_version idxs)"

definition union_lookup :: "host_env \<Rightarrow> ('r, 'f) union_mount \<Rightarrow> string \<Rightarrow> i32 \<Rightarrow> file_info option" where
  "union_lookup env u path0 file_version =
     (let path = normpath path0 in
      if path = ''/'' then Some (create_root_file_info env)
      else lookup_in u (sources_for_path u path) path file_version)"

definition union_versions :: "('r, 'f) union_mount \<Rightarrow> string \<Rightarrow> u32" where
  "union_versions u path0 =
     (let path = normpath path0 in sum_list (map (\<lambda>s. ms_versions s path) (um_sources u)))"

text \<open>The fallback loop of \<open>open\<close>: the last error wins.\<close>

fun open_any :: "file_info \<Rightarrow> i32 \<Rightarrow> io_error \<Rightarrow> ('r, 'f) mount_source list \<Rightarrow> io_error + 'r" where
  "open_any fi buffering last_err [] = Inl last_err"
| "open_any fi buffering last_err (src # srcs) =
     (case ms_open src fi buffering of
        Inr r \<Rightarrow> Inr r
      | Inl e \<Rightarrow> open_any fi buffering e srcs)"

definition tagged_source :: "('r, 'f) union_mount \<Rightarrow> file_info \<Rightarrow> ('r, 'f) mount_source option" where
  "tagged_source u fi =
     (case source_from_info fi of
        None \<Rightarrow> None
      | Some si \<Rightarrow> (if si < length (um_sources u) then Some (um_sources u ! si) else None))"

definition union_open :: "('r, 'f) union_mount \<Rightarrow> file_info \<Rightarrow> i32 \<Rightarrow> io_error + 'r" where
  "union_open u file_info buffering =
     (case tagged_source u file_info of
        Some src \<Rightarrow>
          let fi = strip_union_tag file_info in
          (if um_resolve_symlinks u \<and> is_lnk_mode (fi_mode fi) then
             (case path_from_file_info fi of
                None \<Rightarrow> ms_open src fi buffering
              | Some path \<Rightarrow>
                  (case resolve_symlink_chain src path fi of
                     Some resolved \<Rightarrow> ms_open src resolved buffering
                   | None \<Rightarrow> Inl (IoError InvalidData ''union symlink resolve failed (cycle or hop limit)'')))
           else ms_open src fi buffering)
      | None \<Rightarrow>
          open_any file_info buffering (IoError NotFound ''no union source could open'') (rev (um_sources u)))"

definition union_is_immutable :: "('r, 'f) union_mount \<Rightarrow> bool" where
  "union_is_immutable u = list_all ms_is_immutable (um_sources u)"

definition union_content_generation :: "('r, 'f) union_mount \<Rightarrow> u64" where
  "union_content_generation u =
     foldl (\<lambda>acc s. saturating_add acc (ms_content_generation s)) 0 (um_sources u)"

definition union_supports_backing_extents :: "('r, 'f) union_mount \<Rightarrow> bool" where
  "union_supports_backing_extents u = list_ex ms_supports_backing_extents (um_sources u)"

definition union_backing_extent :: "('r, 'f) union_mount \<Rightarrow> file_info \<Rightarrow> 'f backing_extent option" where
  "union_backing_extent u fi =
     (case tagged_source u fi of
        Some src \<Rightarrow> ms_backing_extent src (strip_union_tag fi)
      | None \<Rightarrow> None)"

definition union_member_seek_is_cheap :: "('r, 'f) union_mount \<Rightarrow> file_info \<Rightarrow> bool" where
  "union_member_seek_is_cheap u fi =
     (case tagged_source u fi of
        Some src \<Rightarrow> ms_member_seek_is_cheap src (strip_union_tag fi)
      | None \<Rightarrow> True)"

definition union_list_xattr :: "('r, 'f) union_mount \<Rightarrow> file_info \<Rightarrow> string list" where
  "union_list_xattr u fi =
     (case tagged_source u fi of
        Some src \<Rightarrow> ms_list_xattr src (strip_union_tag fi)
      | None \<Rightarrow> [])"

definition union_get_xattr :: "('r, 'f) union_mount \<Rightarrow> file_info \<Rightarrow> string \<Rightarrow> u8 list option" where
  "union_get_xattr u fi key =
     (case tagged_source u fi of
        Some src \<Rightarrow> ms_get_xattr src (strip_union_tag fi) key
      | None \<Rightarrow> None)"

text \<open>The union as a mount source again, so that unions nest.\<close>

definition union_source :: "host_env \<Rightarrow> ('r, 'f) union_mount \<Rightarrow> ('r, 'f) mount_source" where
  "union_source env u =
     \<lparr>ms_list = union_list u, ms_list_mode = union_list_mode u, ms_list_dirents = union_list_dirents u,
      ms_lookup = union_lookup env u, ms_search_cheap = union_search_cheap u, ms_open = union_open u,
      ms_supports_backing_extents = union_supports_backing_extents u,
      ms_backing_extent = union_backing_extent u,
      ms_member_seek_is_cheap = union_member_seek_is_cheap u,
      ms_content_generation = union_content_generation u, ms_versions = union_versions u,
      ms_statfs = statfs_default, ms_is_immutable = union_is_immutable u,
      ms_list_xattr = union_list_xattr u, ms_get_xattr = union_get_xattr u\<rparr>"


section \<open>Tags\<close>

lemma parse_show_tag [simp]: "si < 2 ^ 64 \<Longrightarrow> union_tag (Other (''union:'' @ show_nat si)) = Some si"
  by simp

lemma source_from_tagged [simp]: "si < 2 ^ 64 \<Longrightarrow> source_from_info (tag_source fi si) = Some si"
  by (simp add: source_from_info_def tag_source_def)

lemma strip_tagged [simp]: "strip_union_tag (tag_source fi si) = fi"
  by (simp add: strip_union_tag_def tag_source_def)

lemma tag_source_mode [simp]: "fi_mode (tag_source fi si) = fi_mode fi" "fi_size (tag_source fi si) = fi_size fi"
  by (simp_all add: tag_source_def)

section \<open>Symlink chains\<close>

text \<open>One hop of a chain, and a number of hops, without the bookkeeping of the code.\<close>

definition link_step :: "('r, 'f) mount_source \<Rightarrow> string \<times> file_info \<Rightarrow> (string \<times> file_info) option" where
  "link_step src x =
     (if is_lnk_mode (fi_mode (snd x)) \<and> fi_linkname (snd x) \<noteq> [] then
        (let target = resolve_symlink_target (fst x) (fi_linkname (snd x))
         in map_option (Pair target) (ms_lookup src target 0))
      else None)"

fun link_steps :: "('r, 'f) mount_source \<Rightarrow> nat \<Rightarrow> string \<times> file_info \<Rightarrow> (string \<times> file_info) option" where
  "link_steps src 0 x = Some x"
| "link_steps src (Suc n) x = Option.bind (link_step src x) (link_steps src n)"

definition ends_after :: "('r, 'f) mount_source \<Rightarrow> string \<times> file_info \<Rightarrow> nat \<Rightarrow> file_info \<Rightarrow> bool" where
  "ends_after src x n g \<longleftrightarrow> (\<exists>q. link_steps src n x = Some (q, g)) \<and> \<not> is_lnk_mode (fi_mode g)"

lemma link_steps_add:
  "link_steps src k x = Some y \<Longrightarrow> link_steps src (k + n) x = link_steps src n y"
  by (induction k arbitrary: x) (auto split: bind_splits)

lemma ends_after_0: "ends_after src x 0 g \<longleftrightarrow> snd x = g \<and> \<not> is_lnk_mode (fi_mode g)"
  by (cases x) (auto simp: ends_after_def)

lemma ends_after_Suc:
  "ends_after src x (Suc n) g \<longleftrightarrow> (\<exists>y. link_step src x = Some y \<and> ends_after src y n g)"
  by (auto simp: ends_after_def split: bind_splits)

lemma ends_after_add: "link_steps src k x = Some y \<Longrightarrow> ends_after src y n g \<Longrightarrow> ends_after src x (k + n) g"
  by (simp add: ends_after_def link_steps_add)

lemma ends_after_unique: "ends_after src x n g \<Longrightarrow> ends_after src x m h \<Longrightarrow> n = m"
proof (induction n arbitrary: x m)
  case 0
  then show ?case
    by (cases m) (auto simp: ends_after_0 ends_after_Suc link_step_def)
next
  case (Suc n)
  then show ?case
    by (cases m) (auto simp: ends_after_0 ends_after_Suc link_step_def)
qed

text \<open>
  The code's list of seen paths only rejects targets the chain has already visited, and a chain
  that comes back to a path never ends.
\<close>

definition seen_ok :: "('r, 'f) mount_source \<Rightarrow> string list \<Rightarrow> string \<times> file_info \<Rightarrow> bool" where
  "seen_ok src seen x \<longleftrightarrow>
     (\<forall>p \<in> set seen. \<exists>fp k. ms_lookup src p 0 = Some fp \<and> link_steps src k (p, fp) = Some x)"

lemma seen_ok_step:
  assumes "seen_ok src seen x" "link_step src x = Some (q, g)" "ms_lookup src q 0 = Some g"
  shows "seen_ok src (q # seen) (q, g)"
  unfolding seen_ok_def
proof
  fix p assume "p \<in> set (q # seen)"
  then consider "p = q" | "p \<in> set seen" by auto
  then show "\<exists>fp k. ms_lookup src p 0 = Some fp \<and> link_steps src k (p, fp) = Some (q, g)"
  proof cases
    case 1
    with assms(3) show ?thesis by (intro exI [of _ g] exI [of _ 0]) simp
  next
    case 2
    with assms(1) obtain fp k where "ms_lookup src p 0 = Some fp" "link_steps src k (p, fp) = Some x"
      unfolding seen_ok_def by blast
    with link_steps_add [of src k "(p, fp)" x 1] assms(2) show ?thesis
      by (intro exI [of _ fp] exI [of _ "k + 1"]) simp
  qed
qed

lemma seen_never_ends:
  assumes "seen_ok src seen x" "link_step src x = Some (q, g')" "q \<in> set seen"
  shows "\<not> ends_after src x n g"
proof
  assume e: "ends_after src x n g"
  from assms(2) have "ms_lookup src q 0 = Some g'"
    by (auto simp: link_step_def Let_def split: if_splits)
  with assms(1,3) obtain k where k: "link_steps src k (q, g') = Some x"
    unfolding seen_ok_def by fastforce
  then have "link_steps src (k + 1) (q, g') = Some (q, g')"
    using assms(2) by (subst link_steps_add [OF k]) simp
  moreover from k e have "ends_after src (q, g') (k + n) g"
    by (rule ends_after_add)
  ultimately have "ends_after src (q, g') (k + 1 + (k + n)) g"
    by (rule ends_after_add)
  with \<open>ends_after src (q, g') (k + n) g\<close> show False
    using ends_after_unique by fastforce
qed

lemma chain_hops_iff:
  "seen_ok src seen (p, fi) \<Longrightarrow>
   chain_hops src n seen p fi = Some g \<longleftrightarrow> (\<exists>m \<le> n. ends_after src (p, fi) m g)"
proof (induction n arbitrary: seen p fi)
  case 0
  then show ?case
    by (auto simp: ends_after_0)
next
  case (Suc n)
  have split: "(\<exists>m \<le> Suc n. ends_after src (p, fi) m g) \<longleftrightarrow>
      (fi = g \<and> \<not> is_lnk_mode (fi_mode g)) \<or>
      (\<exists>y. link_step src (p, fi) = Some y \<and> (\<exists>m \<le> n. ends_after src y m g))"
    (is "?L \<longleftrightarrow> ?R")
  proof
    assume ?L
    then obtain m where "m \<le> Suc n" "ends_after src (p, fi) m g" by blast
    then show ?R by (cases m) (auto simp: ends_after_0 ends_after_Suc)
  next
    assume ?R
    then show ?L
      using ends_after_0 [of src "(p, fi)" g] ends_after_Suc [of src "(p, fi)" _ g] Suc_le_mono by auto
  qed
  let ?t = "resolve_symlink_target p (fi_linkname fi)"
  show ?case
  proof (cases "link_step src (p, fi)")
    case None
    then show ?thesis
      unfolding split by (auto simp: link_step_def Let_def split: if_splits)
  next
    case (Some y)
    then obtain gt where y: "y = (?t, gt)" "ms_lookup src ?t 0 = Some gt"
        "is_lnk_mode (fi_mode fi)" "fi_linkname fi \<noteq> []"
      by (auto simp: link_step_def Let_def split: if_splits)
    show ?thesis
    proof (cases "?t \<in> set seen")
      case True
      then show ?thesis
        using seen_never_ends [OF Suc.prems Some [unfolded y(1)]] y by simp
    next
      case False
      with Suc.IH [OF seen_ok_step [OF Suc.prems Some [unfolded y(1)] y(2)]] y Some show ?thesis
        unfolding split by (auto simp: Let_def)
    qed
  qed
qed

lemma resolve_chain_not_link: "resolve_symlink_chain src path fi = Some g \<Longrightarrow> \<not> is_lnk_mode (fi_mode g)"
proof -
  have "chain_hops src n seen p f = Some g \<Longrightarrow> \<not> is_lnk_mode (fi_mode g)" for n seen p f
    by (induction n arbitrary: seen p f) (auto simp: Let_def split: if_splits option.splits)
  then show "resolve_symlink_chain src path fi = Some g \<Longrightarrow> ?thesis"
    unfolding resolve_symlink_chain_def by blast
qed


section \<open>Where a looked-up file info comes from\<close>

definition answered_by :: "('r, 'f) union_mount \<Rightarrow> string \<Rightarrow> file_info \<Rightarrow> nat \<Rightarrow> file_info \<Rightarrow> bool" where
  "answered_by u path fi si fi0 \<longleftrightarrow>
     fi = tag_source fi0 si
     \<and> (\<exists>w g. ms_lookup (um_sources u ! si) path w = Some g
          \<and> maybe_resolve_winner (um_sources u ! si) path g (um_resolve_symlinks u) = Some fi0)"

lemma tag_resolved_answered:
  "tag_resolved u path si g = Some fi \<Longrightarrow> ms_lookup (um_sources u ! si) path w = Some g \<Longrightarrow>
   \<exists>fi0. answered_by u path fi si fi0"
  by (auto simp: tag_resolved_def answered_by_def)

text \<open>The newest version: the first directory of the walk, or else its first hit.\<close>

definition newest_hits :: "('r, 'f) mount_source list \<Rightarrow> string \<Rightarrow> nat list \<Rightarrow> (nat \<times> file_info) list" where
  "newest_hits sources path sis =
     concat (map (\<lambda>si. case ms_lookup (sources ! si) path 0 of None \<Rightarrow> [] | Some fi \<Rightarrow> [(si, fi)]) sis)"

definition pick_newest :: "(nat \<times> file_info) list \<Rightarrow> (nat \<times> file_info) option" where
  "pick_newest hits =
     (case find (\<lambda>(si, fi). is_dir_mode (fi_mode fi)) hits of
        Some x \<Rightarrow> Some x
      | None \<Rightarrow> (case hits of [] \<Rightarrow> None | x # _ \<Rightarrow> Some x))"

lemma newest_hits_simps [simp]:
  "newest_hits sources path [] = []"
  "newest_hits sources path (si # sis) =
     (case ms_lookup (sources ! si) path 0 of None \<Rightarrow> [] | Some fi \<Rightarrow> [(si, fi)]) @ newest_hits sources path sis"
  "newest_hits sources path (sis @ tis) = newest_hits sources path sis @ newest_hits sources path tis"
  by (simp_all add: newest_hits_def)

lemma newest_hits_set:
  "(si, fi) \<in> set (newest_hits sources path sis) \<longleftrightarrow> si \<in> set sis \<and> ms_lookup (sources ! si) path 0 = Some fi"
  by (induction sis) (auto split: option.splits)

lemma newest_walk_pick:
  assumes "newest_walk sources path any sis = (a, d)"
  shows "(if d \<noteq> None then d else a) =
    (case find (\<lambda>(si, fi). is_dir_mode (fi_mode fi)) (newest_hits sources path sis) of
       Some x \<Rightarrow> Some x
     | None \<Rightarrow> (if any \<noteq> None then any
         else case newest_hits sources path sis of [] \<Rightarrow> None | x # _ \<Rightarrow> Some x))"
  using assms
proof (induction sis arbitrary: any)
  case (Cons si sis)
  show ?case
  proof (cases "ms_lookup (sources ! si) path 0")
    case None
    then have h: "newest_hits sources path (si # sis) = newest_hits sources path sis" by simp
    from None Cons.prems have "newest_walk sources path any sis = (a, d)" by simp
    from Cons.IH [OF this] show ?thesis unfolding h .
  next
    case (Some fi)
    show ?thesis
    proof (cases "is_dir_mode (fi_mode fi)")
      case True
      with Cons.prems Some show ?thesis by (auto simp: Let_def)
    next
      case False
      with Cons.prems Some have "newest_walk sources path (if any = None then Some (si, fi) else any) sis = (a, d)"
        by (simp add: Let_def)
      from Cons.IH [OF this] Some False show ?thesis by (auto split: option.splits)
    qed
  qed
qed (cases a; auto)

lemma lookup_in_newest:
  "lookup_in u idxs path 0 =
     (case pick_newest (newest_hits (um_sources u) path (rev idxs)) of
        None \<Rightarrow> None
      | Some (si, fi) \<Rightarrow> tag_resolved u path si fi)"
proof -
  obtain a d where ad: "newest_walk (um_sources u) path None (rev idxs) = (a, d)" by fastforce
  show ?thesis
    using newest_walk_pick [OF ad] unfolding lookup_in_def ad pick_newest_def by simp
qed

lemma find_in: "find P xs = Some x \<Longrightarrow> x \<in> set xs \<and> P x"
  by (induction xs) (auto split: if_splits)

lemma pick_newest_in: "pick_newest hits = Some x \<Longrightarrow> x \<in> set hits"
  by (auto simp: pick_newest_def dest: find_in split: option.splits list.splits)

lemma negative_walk_answered:
  "negative_walk u path ver sis = Some fi \<Longrightarrow> \<exists>si \<in> set sis. \<exists>fi0. answered_by u path fi si fi0"
  by (induction sis arbitrary: ver)
    (auto simp: Let_def dest: tag_resolved_answered split: option.splits if_splits)

lemma positive_walk_answered:
  "positive_walk u path ver sis = Some fi \<Longrightarrow> \<exists>si \<in> set sis. \<exists>fi0. answered_by u path fi si fi0"
  by (induction sis arbitrary: ver)
    (auto simp: Let_def dest: tag_resolved_answered split: option.splits if_splits)

lemma lookup_in_answered:
  assumes "lookup_in u idxs path v = Some fi"
  shows "\<exists>si \<in> set idxs. \<exists>fi0. answered_by u path fi si fi0"
proof (cases "v = 0")
  case True
  with assms obtain si g where si: "pick_newest (newest_hits (um_sources u) path (rev idxs)) = Some (si, g)"
      "tag_resolved u path si g = Some fi"
    by (auto simp: lookup_in_newest split: option.splits)
  then have "si \<in> set idxs" "ms_lookup (um_sources u ! si) path 0 = Some g"
    using pick_newest_in [OF si(1)] by (simp_all add: newest_hits_set)
  with tag_resolved_answered [OF si(2)] show ?thesis by blast
next
  case False
  with assms negative_walk_answered [of u path v "rev idxs" fi] positive_walk_answered [of u path v idxs fi]
  show ?thesis
    by (auto simp: lookup_in_def split: if_splits)
qed

lemma sources_for_path_less: "i \<in> set (sources_for_path u path) \<Longrightarrow> i < length (um_sources u)"
  by (auto simp: sources_for_path_def Let_def split: if_splits)

lemma maybe_resolve_not_link:
  "maybe_resolve_winner src path g True = Some fi \<Longrightarrow> \<not> is_lnk_mode (fi_mode fi)"
  by (auto simp: maybe_resolve_winner_def dest: resolve_chain_not_link split: if_splits)

section \<open>Properties\<close>

text \<open>C23: Following a symlink inside its source gives exactly the end of the chain of links when the
  chain ends within eight hops, and nothing otherwise: the list of visited paths never cuts a
  chain that would have ended, and the result is never a symlink.\<close>

theorem symlink_chain_exact:
  assumes "ms_lookup src path 0 = Some fi"
  shows "resolve_symlink_chain src path fi = Some g \<longleftrightarrow>
    (\<exists>n \<le> 8. ends_after src (path, fi) n g)"
  unfolding resolve_symlink_chain_def MAX_SYMLINK_RESOLVE_HOPS_def
  by (rule chain_hops_iff) (use assms in \<open>auto simp: seen_ok_def intro: exI [of _ 0]\<close>)

text \<open>
  A small source to evaluate properties on: the named paths and their infos, and the directory
  listings that follow from them.
\<close>

definition flat_source :: "(string \<times> file_info) list \<Rightarrow> (string \<Rightarrow> cheap_dirent list option)
    \<Rightarrow> (string, unit) mount_source" where
  "flat_source entries dirents =
     \<lparr>ms_list = (\<lambda>p. None), ms_list_mode = (\<lambda>p. None), ms_list_dirents = dirents,
      ms_lookup = (\<lambda>p v. if v = 0 then map_of entries p else None), ms_search_cheap = (\<lambda>p. None),
      ms_open = (\<lambda>fi b. Inr (fi_linkname fi)), ms_supports_backing_extents = False,
      ms_backing_extent = (\<lambda>fi. None), ms_member_seek_is_cheap = (\<lambda>fi. True),
      ms_content_generation = 0, ms_versions = versions_default (\<lambda>p v. map_of entries p),
      ms_statfs = statfs_default, ms_is_immutable = True, ms_list_xattr = (\<lambda>fi. []),
      ms_get_xattr = (\<lambda>fi k. None)\<rparr>"

definition plain_info :: "u32 \<Rightarrow> string \<Rightarrow> file_info" where
  "plain_info mode link =
     \<lparr>fi_size = 0, fi_mtime = 0, fi_mode = mode, fi_linkname = link, fi_uid = 0, fi_gid = 0, fi_userdata = []\<rparr>"

theorem symlink_chain_exact_witness:
  "resolve_symlink_chain
     (flat_source [(''/a'', plain_info S_IFLNK ''d/b''), (''/d/b'', plain_info S_IFLNK ''../c''),
        (''/c'', plain_info S_IFREG [])] (\<lambda>p. None))
     ''/a'' (plain_info S_IFLNK ''d/b'') = Some (plain_info S_IFREG [])"
proof -
  let ?s = "flat_source [(''/a'', plain_info S_IFLNK ''d/b''), (''/d/b'', plain_info S_IFLNK ''../c''),
        (''/c'', plain_info S_IFREG [])] (\<lambda>p. None)"
  have l: "ms_lookup ?s ''/a'' 0 = Some (plain_info S_IFLNK ''d/b'')"
    by code_simp
  have "link_steps ?s 2 (''/a'', plain_info S_IFLNK ''d/b'') = Some (''/c'', plain_info S_IFREG [])"
       "\<not> is_lnk_mode (fi_mode (plain_info S_IFREG []))"
    by code_simp+
  then have "ends_after ?s (''/a'', plain_info S_IFLNK ''d/b'') 2 (plain_info S_IFREG [])"
    unfolding ends_after_def by blast
  then have "\<exists>n \<le> 8. ends_after ?s (''/a'', plain_info S_IFLNK ''d/b'') n (plain_info S_IFREG [])"
    by (intro exI [of _ 2]) simp
  then show ?thesis
    by (simp only: symlink_chain_exact [OF l])
qed

text \<open>C22: Whatever the union hands out for a path goes back to the source it came from: the tag on the
  file info names that source, and opening, backing extent and extended attributes ask that
  source, with the file info it had produced itself.\<close>

theorem union_routes_to_source:
  assumes "length (um_sources u) \<le> 2 ^ 64" "normpath path \<noteq> ''/''"
    and "union_lookup env u path v = Some fi"
  shows "\<exists>si < length (um_sources u). \<exists>fi0. answered_by u (normpath path) fi si fi0
    \<and> union_open u fi b = ms_open (um_sources u ! si) fi0 b
    \<and> union_backing_extent u fi = ms_backing_extent (um_sources u ! si) fi0
    \<and> union_member_seek_is_cheap u fi = ms_member_seek_is_cheap (um_sources u ! si) fi0
    \<and> union_list_xattr u fi = ms_list_xattr (um_sources u ! si) fi0
    \<and> union_get_xattr u fi key = ms_get_xattr (um_sources u ! si) fi0 key"
proof -
  have "lookup_in u (sources_for_path u (normpath path)) (normpath path) v = Some fi"
    using assms(2,3) by (simp add: union_lookup_def Let_def)
  from lookup_in_answered [OF this] obtain si fi0
    where si: "si < length (um_sources u)" and a: "answered_by u (normpath path) fi si fi0"
    using sources_for_path_less by blast
  have fi: "fi = tag_source fi0 si"
    using a by (simp add: answered_by_def)
  have t: "tagged_source u fi = Some (um_sources u ! si)"
    using si assms(1) by (simp add: tagged_source_def fi)
  have "\<not> (um_resolve_symlinks u \<and> is_lnk_mode (fi_mode fi0))"
    using a by (auto simp: answered_by_def dest: maybe_resolve_not_link)
  then have "union_open u fi b = ms_open (um_sources u ! si) fi0 b"
    unfolding union_open_def t by (auto simp: fi Let_def)
  then show ?thesis
    using si a t
    by (intro exI [of _ si] exI [of _ fi0] conjI)
      (simp_all add: union_backing_extent_def union_member_seek_is_cheap_def union_list_xattr_def
        union_get_xattr_def fi)
qed


theorem union_routes_to_source_witness:
  "\<exists>fi. union_lookup \<lparr>euid = 0, egid = 0\<rparr>
      \<lparr>um_sources = [flat_source [(''/a'', plain_info S_IFREG ''x'')] (\<lambda>p. None)], um_path_intern = pi_new,
       um_folder_cache = [], um_folder_cache_depth = 0, um_resolve_symlinks = False\<rparr> ''a'' 0 = Some fi
    \<and> union_open
      \<lparr>um_sources = [flat_source [(''/a'', plain_info S_IFREG ''x'')] (\<lambda>p. None)], um_path_intern = pi_new,
       um_folder_cache = [], um_folder_cache_depth = 0, um_resolve_symlinks = False\<rparr> fi 0 = Inr ''x''"
proof -
  let ?u = "\<lparr>um_sources = [flat_source [(''/a'', plain_info S_IFREG ''x'')] (\<lambda>p. None)], um_path_intern = pi_new,
       um_folder_cache = [], um_folder_cache_depth = 0, um_resolve_symlinks = False\<rparr>"
  have len: "length (um_sources ?u) \<le> 2 ^ 64" and n: "normpath ''a'' \<noteq> ''/''"
    by (simp, code_simp)
  have l: "union_lookup \<lparr>euid = 0, egid = 0\<rparr> ?u ''a'' 0 = Some (tag_source (plain_info S_IFREG ''x'') 0)"
    by code_simp
  from union_routes_to_source [OF len n l, of 0] obtain si fi0
    where "si < length (um_sources ?u)" "answered_by ?u (normpath ''a'') (tag_source (plain_info S_IFREG ''x'') 0) si fi0"
      and o: "union_open ?u (tag_source (plain_info S_IFREG ''x'') 0) 0 = ms_open (um_sources ?u ! si) fi0 0"
    by blast
  then have "si = 0" "tag_source (plain_info S_IFREG ''x'') 0 = tag_source fi0 si"
    by (simp_all add: answered_by_def)
  then have "fi0 = plain_info S_IFREG ''x''"
    by (metis strip_tagged)
  with o \<open>si = 0\<close> have "union_open ?u (tag_source (plain_info S_IFREG ''x'') 0) 0 = Inr ''x''"
    by (simp add: flat_source_def plain_info_def)
  with l show ?thesis by blast
qed

end
