(* ===== verification/Union_Versions.thy ===== *)
theory Union_Versions
  imports Union_Mount
begin

text \<open>
  Version numbers across a union. A source that keeps the history of a path answers version
  \<open>n > 0\<close> with its \<open>n\<close>-th oldest entry and version \<open>-n\<close> with its \<open>n\<close>-th newest after the newest one.
  The walks of the union's lookup add these histories up from left to right.
\<close>

section \<open>Histories\<close>

text \<open>Entry \<open>v\<close> of a history, oldest first.\<close>

definition version_at :: "'a list \<Rightarrow> int \<Rightarrow> 'a option" where
  "version_at hs v =
     (let k = (if 1 \<le> v then v - 1 else int (length hs) - 1 + v)
      in if 0 \<le> k \<and> k < int (length hs) then Some (hs ! nat k) else None)"

lemma version_at_append_pos:
  assumes "1 \<le> v"
  shows "version_at (xs @ ys) v =
    (if v \<le> int (length xs) then version_at xs v else version_at ys (v - int (length xs)))"
proof -
  have "nat (v - 1) - length xs = nat (v - int (length xs) - 1)" by linarith
  then show ?thesis
    using assms by (auto simp: version_at_def Let_def nth_append nat_less_iff)
qed

lemma version_at_append_neg:
  assumes "v \<le> 0"
  shows "version_at (xs @ ys) v =
    (if - v < int (length ys) then version_at ys v else version_at xs (v + int (length ys)))"
proof (cases "- v < int (length ys)")
  case True
  then have "nat (int (length xs) + int (length ys) - 1 + v) - length xs = nat (int (length ys) - 1 + v)"
      "\<not> nat (int (length xs) + int (length ys) - 1 + v) < length xs"
    by linarith+
  with assms True show ?thesis
    by (simp add: version_at_def Let_def nth_append)
next
  case False
  then have "int (length xs) + int (length ys) - 1 + v = int (length xs) - 1 + (v + int (length ys))"
      "v + int (length ys) \<le> 0"
    by linarith+
  with assms False show ?thesis
    by (auto simp: version_at_def Let_def nth_append nat_less_iff algebra_simps)
qed

lemma version_at_range: "version_at hs v \<noteq> None \<longleftrightarrow> (1 \<le> v \<and> v \<le> int (length hs)) \<or> (v \<le> 0 \<and> - v < int (length hs))"
  by (auto simp: version_at_def Let_def)

text \<open>What a source with a history promises.\<close>

locale versioned =
  fixes lk :: "i32 \<Rightarrow> 'a option" and count :: u32 and hist :: "'a list"
  assumes count_hist: "count = of_nat (length hist)"
    and lk_hist: "- (2 ^ 31) < sint v \<Longrightarrow> lk v = version_at hist (sint v)"
begin

lemma lk_range:
  "- (2 ^ 31) < sint v \<Longrightarrow> lk v \<noteq> None \<longleftrightarrow>
   (1 \<le> sint v \<and> sint v \<le> int (length hist)) \<or> (sint v \<le> 0 \<and> - sint v < int (length hist))"
  by (simp only: lk_hist version_at_range)

end

section \<open>Unions of sources with histories\<close>

lemma sint_small: "k < 2 ^ 31 \<Longrightarrow> sint (of_nat k :: i32) = int k"
  by (simp add: signed_of_nat signed_take_bit_int_eq_self)

lemma sint_diff_small:
  assumes "1 \<le> sint (v :: i32)" "k < 2 ^ 31"
  shows "sint (v - of_nat k) = sint v - int k"
proof -
  have "sint v < 2 ^ 31" using sint_lt [of v] by simp
  then show ?thesis
    using assms by (simp add: sint_word_ariths sint_small signed_take_bit_int_eq_self)
qed

lemma sint_add_small:
  assumes "sint (v :: i32) \<le> 0" "k < 2 ^ 31" "- (2 ^ 31) \<le> sint v"
  shows "sint (v + of_nat k) = sint v + int k"
  using assms by (simp add: sint_word_ariths sint_small signed_take_bit_int_eq_self)

locale versioned_union =
  fixes u :: "('r, 'f) union_mount" and path :: string and idxs :: "nat list" and hist :: "nat \<Rightarrow> file_info list"
  assumes source_hist: "i \<in> set idxs \<Longrightarrow>
      versioned (ms_lookup (um_sources u ! i) path) (ms_versions (um_sources u ! i) path) (hist i)"
    and few: "(\<Sum>i \<leftarrow> idxs. length (hist i)) < 2 ^ 31"
    and plain: "\<not> um_resolve_symlinks u"
begin

text \<open>The union's history: every entry of every source, tagged with the source.\<close>

definition joined :: "nat list \<Rightarrow> file_info list" where
  "joined is = concat (map (\<lambda>i. map (\<lambda>fi. tag_source fi i) (hist i)) is)"

lemma joined_simps [simp]:
  "joined [] = []" "joined (i # is) = map (\<lambda>fi. tag_source fi i) (hist i) @ joined is"
  "joined (is @ js) = joined is @ joined js"
  by (simp_all add: joined_def)

lemma versioned_member:
  assumes "set (i # is) \<subseteq> set idxs" "(\<Sum>i \<leftarrow> i # is. length (hist i)) < 2 ^ 31"
  shows "ms_versions (um_sources u ! i) path = of_nat (length (hist i))"
    and "- (2 ^ 31) < sint v \<Longrightarrow> ms_lookup (um_sources u ! i) path v = version_at (hist i) (sint v)"
    and "length (hist i) < 2 ^ 31" "(\<Sum>i \<leftarrow> is. length (hist i)) < 2 ^ 31" "set is \<subseteq> set idxs"
  using assms versioned.count_hist [OF source_hist, of i] versioned.lk_hist [OF source_hist, of i] by auto

lemma tag_plain: "tag_resolved u path i fi = Some (tag_source fi i)"
  by (simp add: tag_resolved_def maybe_resolve_winner_def plain)

lemma version_at_map: "version_at (map f hs) v = map_option f (version_at hs v)"
  by (simp add: version_at_def Let_def)

lemma positive_walk_joined:
  "set is \<subseteq> set idxs \<Longrightarrow> (\<Sum>i \<leftarrow> is. length (hist i)) < 2 ^ 31 \<Longrightarrow> 1 \<le> sint v \<Longrightarrow>
   positive_walk u path v is = version_at (joined is) (sint v)"
proof (induction "is" arbitrary: v)
  case (Cons i "is")
  note m = versioned_member [OF Cons.prems(1,2)]
  have lk: "ms_lookup (um_sources u ! i) path v = version_at (hist i) (sint v)"
    using Cons.prems(3) by (intro m(2)) simp
  show ?case
  proof (cases "sint v \<le> int (length (hist i))")
    case True
    then obtain fi where "version_at (hist i) (sint v) = Some fi"
      using Cons.prems(3) version_at_range [of "hist i" "sint v"] by auto
    with True Cons.prems(3) lk show ?thesis
      by (simp add: version_at_append_pos version_at_map tag_plain Let_def)
  next
    case False
    then have none: "version_at (hist i) (sint v) = None"
      using Cons.prems(3) version_at_range [of "hist i" "sint v"] by auto
    have s: "sint (v - of_nat (length (hist i))) = sint v - int (length (hist i))"
      using sint_diff_small [OF Cons.prems(3) m(3)] .
    show ?thesis
      using False none Cons.prems(3) lk s Cons.IH [OF m(5,4), of "v - of_nat (length (hist i))"]
      by (simp add: version_at_append_pos Let_def m(1))
  qed
qed (simp add: version_at_def Let_def)

lemma negative_walk_joined:
  "set is \<subseteq> set idxs \<Longrightarrow> (\<Sum>i \<leftarrow> is. length (hist i)) < 2 ^ 31 \<Longrightarrow> - (2 ^ 31) < sint v \<Longrightarrow> sint v \<le> 0 \<Longrightarrow>
   negative_walk u path v is = version_at (joined (rev is)) (sint v)"
proof (induction "is" arbitrary: v)
  case (Cons i "is")
  note m = versioned_member [OF Cons.prems(1,2)]
  have lk: "ms_lookup (um_sources u ! i) path v = version_at (hist i) (sint v)"
    by (rule m(2) [OF Cons.prems(3)])
  show ?case
  proof (cases "- sint v < int (length (hist i))")
    case True
    then obtain fi where "version_at (hist i) (sint v) = Some fi"
      using Cons.prems(4) version_at_range [of "hist i" "sint v"] by auto
    with True Cons.prems(4) lk show ?thesis
      by (simp add: version_at_append_neg version_at_map tag_plain Let_def)
  next
    case False
    then have none: "version_at (hist i) (sint v) = None"
      using Cons.prems(4) version_at_range [of "hist i" "sint v"] by auto
    have s: "sint (v + of_nat (length (hist i))) = sint v + int (length (hist i))"
      using sint_add_small [OF Cons.prems(4) m(3)] Cons.prems(3) by simp
    show ?thesis
      using False none Cons.prems(3,4) lk s Cons.IH [OF m(5,4), of "v + of_nat (length (hist i))"]
      by (simp add: version_at_append_neg Let_def m(1))
  qed
qed (simp add: version_at_def Let_def)

lemma lookup_in_joined:
  assumes "v \<noteq> 0" "- (2 ^ 31) < sint v"
  shows "lookup_in u idxs path v = version_at (joined idxs) (sint v)"
proof -
  have "sint v \<noteq> 0" using assms(1) by (simp add: signed_eq_0_iff)
  then show ?thesis
    using assms positive_walk_joined [of idxs v] negative_walk_joined [of "rev idxs" v] few
    by (auto simp: lookup_in_def rev_map [symmetric])
qed

end


lemma of_nat_concat_length: "(of_nat (\<Sum>i \<leftarrow> is. f i) :: u32) = (\<Sum>i \<leftarrow> is. of_nat (f i))"
  by (induction "is") simp_all

end
