(* ===== verification/Tar_Source.thy ===== *)
theory Tar_Source
  imports Sqlite_Index Union_Versions
begin

text \<open>
  The catalogue methods of \<open>SqliteIndexedTar\<close> (\<open>ratarmount-formats-tar/src/lib.rs\<close>) over the index:
  lookup, version count and listings, with the deletion markers of incremental archives hidden.
  The methods that read member bytes are not part of this theory; \<open>tar_source\<close> overrides the
  catalogue methods of a source that has them.
\<close>

section \<open>The code\<close>

definition is_dumpdir_tombstone :: "file_info \<Rightarrow> bool" where
  "is_dumpdir_tombstone fi = (fi_linkname fi = DUMPDIR_DELETE_LINKNAME)"

text \<open>\<open>Result::ok\<close> followed by \<open>flatten\<close>.\<close>

definition ok_flatten :: "'e + 'a option \<Rightarrow> 'a option" where
  "ok_flatten r = (case r of Inr x \<Rightarrow> x | Inl e \<Rightarrow> None)"

definition newest_deleted :: "'db sql_engine \<Rightarrow> host_env \<Rightarrow> 'db sqlite_index \<Rightarrow> string \<Rightarrow> bool" where
  "newest_deleted eng env ix path =
     (case ix_lookup eng env ix path 0 of
        Inr (Some newest) \<Rightarrow> is_dumpdir_tombstone newest
      | _ \<Rightarrow> False)"

definition tar_lookup ::
  "'db sql_engine \<Rightarrow> host_env \<Rightarrow> 'db sqlite_index \<Rightarrow> string \<Rightarrow> i32 \<Rightarrow> file_info option" where
  "tar_lookup eng env ix path file_version =
     (if newest_deleted eng env ix path then None
      else case ok_flatten (ix_lookup eng env ix path file_version) of
        None \<Rightarrow> None
      | Some fi \<Rightarrow> (if is_dumpdir_tombstone fi then None else Some fi))"

definition tar_versions :: "'db sql_engine \<Rightarrow> host_env \<Rightarrow> 'db sqlite_index \<Rightarrow> string \<Rightarrow> u32" where
  "tar_versions eng env ix path =
     (if newest_deleted eng env ix path then 0
      else case ix_version_count eng ix path of Inr n \<Rightarrow> n | Inl e \<Rightarrow> 0)"

definition tar_list :: "'db sql_engine \<Rightarrow> host_env \<Rightarrow> 'db sqlite_index \<Rightarrow> string \<Rightarrow> list_result option" where
  "tar_list eng env ix path =
     (case ix_list eng ix path of
        Inl e \<Rightarrow> None
      | Inr r \<Rightarrow>
          (case (case r of
                   Some m \<Rightarrow> Some m
                 | None \<Rightarrow> (if is_dir_default (tar_lookup eng env ix) path then Some [] else None)) of
             None \<Rightarrow> None
           | Some m \<Rightarrow> Some (Infos (filter (\<lambda>(_, fi). \<not> is_dumpdir_tombstone fi) m))))"

definition tar_list_dirents ::
  "'db sql_engine \<Rightarrow> host_env \<Rightarrow> 'db sqlite_index \<Rightarrow> string \<Rightarrow> cheap_dirent list option" where
  "tar_list_dirents eng env ix path =
     (case ix_list_dirents eng ix path of
        Inl e \<Rightarrow> None
      | Inr r \<Rightarrow>
          (case (case r of
                   Some rows \<Rightarrow> Some rows
                 | None \<Rightarrow> (if is_dir_default (tar_lookup eng env ix) path then Some [] else None)) of
             None \<Rightarrow> None
           | Some rows \<Rightarrow>
               Some (map (\<lambda>d. \<lparr>cd_name = id_name d, cd_mode = id_mode d, cd_size = id_size d\<rparr>)
                 (filter (\<lambda>d. id_linkname d \<noteq> DUMPDIR_DELETE_LINKNAME) rows))))"

definition tar_list_mode ::
  "'db sql_engine \<Rightarrow> host_env \<Rightarrow> 'db sqlite_index \<Rightarrow> string \<Rightarrow> list_mode_result option" where
  "tar_list_mode eng env ix path =
     map_option (\<lambda>dents. Modes (bt_collect cd_name cd_mode dents)) (tar_list_dirents eng env ix path)"

definition tar_source :: "'db sql_engine \<Rightarrow> host_env \<Rightarrow> 'db sqlite_index
    \<Rightarrow> ('r, 'f) mount_source \<Rightarrow> ('r, 'f) mount_source" where
  "tar_source eng env ix rest =
     rest\<lparr>ms_list := tar_list eng env ix, ms_list_mode := tar_list_mode eng env ix,
       ms_list_dirents := tar_list_dirents eng env ix, ms_lookup := tar_lookup eng env ix,
       ms_versions := tar_versions eng env ix, ms_is_immutable := True\<rparr>"

lemma tar_source_simps [simp]:
  "ms_list (tar_source eng env ix rest) = tar_list eng env ix"
  "ms_list_dirents (tar_source eng env ix rest) = tar_list_dirents eng env ix"
  "ms_lookup (tar_source eng env ix rest) = tar_lookup eng env ix"
  "ms_versions (tar_source eng env ix rest) = tar_versions eng env ix"
  "ms_is_immutable (tar_source eng env ix rest)"
  by (simp_all add: tar_source_def)

section \<open>Deleted names\<close>

lemma tar_lookup_live: "tar_lookup eng env ix p v = Some fi \<Longrightarrow> \<not> is_dumpdir_tombstone fi"
  by (auto simp: tar_lookup_def split: if_splits option.splits)

lemma tar_deleted:
  "newest_deleted eng env ix p \<Longrightarrow> tar_lookup eng env ix p v = None \<and> tar_versions eng env ix p = 0"
  by (simp add: tar_lookup_def tar_versions_def)

section \<open>The history of a path\<close>

text \<open>
  A path of an index served from SQL whose rows hold no deletion marker: the source keeps the history
  of the path's rows.
\<close>

locale sql_path =
  fixes eng :: "'db sql_engine" and content :: "'db \<Rightarrow> sql_row list" and env :: host_env
    and ix :: "'db sqlite_index" and rs :: "file_row list" and p :: string
  assumes spec: "sql_spec eng content" and rep: "ix_rep content ix rs"
    and not_root: "query_normpath p \<noteq> ''/''"
    and live: "r \<in> set rs \<Longrightarrow> r_linkname r \<noteq> DUMPDIR_DELETE_LINKNAME"
begin

definition rows :: "file_row list" where
  "rows = (case split_path (query_normpath p) of (d, n) \<Rightarrow> table_versions (table_of rs) d n)"

lemma sql_lookup_rows:
  assumes "- (2 ^ 31) < sint v"
  shows "ix_lookup eng env (sql_only ix) p v = Inr (version_at (map row_info rows) (sint v))"
proof -
  obtain d n where dn: "split_path (query_normpath p) = (d, n)" by fastforce
  then have rows: "rows = table_versions (table_of rs) d n" by (simp add: rows_def)
  have neg: "sint (scast (- v) :: i64) = - sint v"
    using assms by (simp add: sint_scast_i32 sint_minus_i32)
  have dec: "sint (scast (v - 1) :: i64) = sint v - 1" if "\<not> sint v \<le> 0"
    using that sint_lt [of v] by (simp add: sint_scast_i32 sint_word_ariths signed_take_bit_int_eq_self)
  have "nat (int (length rows) - 1 + sint v) = length rows - Suc (nat (- sint v))"
    if "sint v \<le> 0" "nat (- sint v) < length rows"
    using that by linarith
  then show ?thesis
    unfolding ix_rep_sql_lookup [OF spec rep not_root dn] rows [symmetric] Let_def
    using neg dec
    by (cases "sint v \<le> 0") (auto simp: version_at_def Let_def rev_nth nat_less_iff)
qed

lemma rows_live: "r \<in> set rows \<Longrightarrow> \<not> is_dumpdir_tombstone (row_info r)"
proof -
  assume r: "r \<in> set rows"
  obtain d n where "split_path (query_normpath p) = (d, n)" by fastforce
  with r obtain x where "x \<in> set (table_of rs)" "r = snd x"
    by (auto simp: rows_def table_versions_def)
  with table_of_rows [of x rs] live show ?thesis
    by (auto simp: is_dumpdir_tombstone_def row_info_def)
qed

lemma version_live: "version_at (map row_info rows) k = Some fi \<Longrightarrow> \<not> is_dumpdir_tombstone fi"
  using rows_live by (auto simp: version_at_def Let_def nat_less_iff split: if_splits)

lemma not_deleted: "\<not> newest_deleted eng env (sql_only ix) p"
  using sql_lookup_rows [of 0] version_live by (auto simp: newest_deleted_def split: option.splits)

lemma tar_lookup_rows:
  "- (2 ^ 31) < sint v \<Longrightarrow> tar_lookup eng env (sql_only ix) p v = version_at (map row_info rows) (sint v)"
  using sql_lookup_rows [of v] version_live not_deleted
  by (auto simp: tar_lookup_def ok_flatten_def split: option.splits)

lemma tar_versions_rows: "tar_versions eng env (sql_only ix) p = of_nat (length (map row_info rows))"
proof -
  obtain d n where dn: "split_path (query_normpath p) = (d, n)" and d: "canonical_dir d"
    using split_query_path [OF not_root] by blast
  have "ix_version_count eng (sql_only ix) p = Inr (of_nat (length rows))"
    using not_root dn ix_rep_sql_version(1) [OF spec rep d]
    by (simp add: ix_version_count_def sql_only_def res_bind_def ucast_of_nat_i64 rows_def)
  then show ?thesis
    using not_deleted by (simp add: tar_versions_def)
qed

text \<open>Served from memory, the same index clamps a version before the oldest to the oldest.\<close>

lemma mem_lookup_rows: "ix_lookup eng env ix p v = Inr (map_option row_info (pick_version (sint v) rows))"
proof -
  obtain d n where dn: "split_path (query_normpath p) = (d, n)" and d: "canonical_dir d"
    using split_query_path [OF not_root] by blast
  obtain m where m: "ix_mem ix = Some m" using rep by (auto simp: ix_rep_def)
  show ?thesis
    using not_root dn m ix_rep_mem_lookup(1) [OF rep d m] by (simp add: ix_lookup_def rows_def)
qed

lemma tar_mem_lookup_rows: "tar_lookup eng env ix p v = map_option row_info (pick_version (sint v) rows)"
  using mem_lookup_rows rows_live pick_version_in
  by (auto simp: tar_lookup_def newest_deleted_def ok_flatten_def split: option.splits dest!: pick_version_in)

lemma tar_mem_versions_rows: "tar_versions eng env ix p = of_nat (length rows)"
proof -
  obtain d n where dn: "split_path (query_normpath p) = (d, n)" and d: "canonical_dir d"
    using split_query_path [OF not_root] by blast
  obtain m where m: "ix_mem ix = Some m" using rep by (auto simp: ix_rep_def)
  have "mi_version_count m d n = of_nat (length rows)"
    using ix_rep_mem_lookup(2) [OF rep d m, of n] dn by (simp add: rows_def flip: word_unat_eq_iff)
      (metis of_nat_unat ucast_id)
  moreover have "\<not> newest_deleted eng env ix p"
    using mem_lookup_rows [of 0] rows_live by (auto simp: newest_deleted_def split: option.splits dest: pick_version_in)
  ultimately show ?thesis
    using not_root dn m by (simp add: tar_versions_def ix_version_count_def)
qed

lemma tar_mem_oldest:
  assumes "rows \<noteq> []" "sint v \<le> 0"
  shows "\<exists>fi. tar_lookup eng env ix p v = Some fi
    \<and> (int (length rows) \<le> - sint v \<longrightarrow> tar_lookup eng env ix p 1 = Some fi)"
  using assms by (auto simp: tar_mem_lookup_rows pick_version_def Suc_le_eq)

end

sublocale sql_path \<subseteq> history: versioned "tar_lookup eng env (sql_only ix) p"
  "tar_versions eng env (sql_only ix) p" "map row_info rows"
  using tar_lookup_rows tar_versions_rows by unfold_locales auto


text \<open>An index filled and sealed through the insert path, served by the list-backed engine.\<close>

definition filled_index :: "file_row list \<Rightarrow> sql_row list sqlite_index" where
  "filled_index rs =
     fst (seal_mem_index list_engine (fst (insert_files_batch list_engine (create_writable []) rs)))"

lemma filled_index_rep:
  assumes "\<forall>r \<in> set rs. good_row r" "rs \<noteq> []" "rows_weight rs + 2 < 2 ^ 32" "length rs \<le> 500000"
  shows "ix_rep (\<lambda>db. db) (filled_index rs) rs"
  using insert_and_seal [OF list_engine_spec refl assms] by (auto simp: filled_index_def)

definition two_rows :: "file_row list" where
  "two_rows = [sample_row ''/d'' ''f'' 0 7, sample_row ''/d'' ''f'' 1024 9]"

lemma two_rows_rep: "ix_rep (\<lambda>db. db) (filled_index two_rows) two_rows"
  unfolding two_rows_def by (rule filled_index_rep [OF sample_rows_fit(1) _ sample_rows_fit(2,3)]) simp

interpretation two_versions: sql_path list_engine "\<lambda>db. db" "\<lparr>euid = 0, egid = 0\<rparr>" "filled_index two_rows" two_rows "''/d/f''"
proof unfold_locales
  show "query_normpath ''/d/f'' \<noteq> ''/''" by code_simp
  show "r_linkname r \<noteq> DUMPDIR_DELETE_LINKNAME" if "r \<in> set two_rows" for r
    using that by (auto simp: two_rows_def sample_row_def DUMPDIR_DELETE_LINKNAME_def)
qed (rule list_engine_spec, rule two_rows_rep)

text \<open>A union of two such archives, without a folder cache.\<close>

definition twice :: "('r, 'f) mount_source \<Rightarrow> ('r, 'f) union_mount" where
  "twice src = \<lparr>um_sources = [src, src], um_path_intern = pi_new, um_folder_cache = [],
     um_folder_cache_depth = 0, um_resolve_symlinks = False\<rparr>"

lemma two_versions_rows: "two_versions.rows = two_rows"
proof -
  have "split_path (query_normpath ''/d/f'') = (''/d'', ''f'')"
    "table_versions (table_of two_rows) ''/d'' ''f'' = two_rows" by code_simp+
  then show ?thesis by (simp add: two_versions.rows_def)
qed

lemma twice_nth: "i \<in> set [0, 1] \<Longrightarrow> um_sources (twice src) ! i = src"
  by (auto simp: twice_def)

interpretation two_archives: versioned_union
  "twice (tar_source list_engine \<lparr>euid = 0, egid = 0\<rparr> (sql_only (filled_index two_rows)) rest)" "''/d/f''" "[0, 1]"
  "\<lambda>i. map row_info two_rows"
  using two_versions.history.count_hist two_versions.history.lk_hist
  by unfold_locales (simp_all add: twice_nth two_versions_rows, simp_all add: two_rows_def twice_def)

section \<open>Properties\<close>

text \<open>C12: When every consulted source answers from a history, version numbers address the union's
  histories laid end to end, leftmost source oldest: version \<open>n\<close> is the \<open>n\<close>-th oldest entry overall,
  version \<open>-n\<close> the \<open>n\<close>-th before the newest, everything outside is absent, and each entry is tagged
  with its source. The reported number of versions is the length of that history when no source
  was pruned.\<close>

theorem union_versions_enumerate:
  assumes "normpath path \<noteq> ''/''" "v \<noteq> 0" "- (2 ^ 31) < sint v"
    and idxs: "idxs = sources_for_path u (normpath path)"
    and hist: "\<forall>i \<in> set idxs. versioned (ms_lookup (um_sources u ! i) (normpath path))
        (ms_versions (um_sources u ! i) (normpath path)) (hist i)"
    and few: "(\<Sum>i \<leftarrow> idxs. length (hist i)) < 2 ^ 31"
    and plain: "\<not> um_resolve_symlinks u"
  defines "all \<equiv> concat (map (\<lambda>i. map (\<lambda>fi. tag_source fi i) (hist i)) idxs)"
  shows "union_lookup env u path v = version_at all (sint v)
    \<and> (idxs = [0..<length (um_sources u)] \<longrightarrow> union_versions u path = of_nat (length all))"
proof
  have vu: "versioned_union u (normpath path) idxs hist"
    by (rule versioned_union.intro) (use hist few plain in blast)+
  show "union_lookup env u path v = version_at all (sint v)"
    using versioned_union.lookup_in_joined [OF vu assms(2,3)] assms(1)
    by (simp add: union_lookup_def Let_def idxs all_def versioned_union.joined_def [OF vu])
  have "union_versions u path = of_nat (length all)" if full: "idxs = [0..<length (um_sources u)]"
  proof -
    have "map (\<lambda>s. ms_versions s (normpath path)) (um_sources u) = map (\<lambda>i. of_nat (length (hist i))) idxs"
      using hist versioned.count_hist by (intro nth_equalityI) (fastforce simp: full)+
    moreover have "length all = (\<Sum>i \<leftarrow> idxs. length (hist i))"
      by (simp add: all_def length_concat o_def)
    ultimately show ?thesis
      by (simp add: union_versions_def of_nat_concat_length)
  qed
  then show "idxs = [0..<length (um_sources u)] \<longrightarrow> union_versions u path = of_nat (length all)" by blast
qed

theorem union_versions_enumerate_witness:
  "union_lookup \<lparr>euid = 0, egid = 0\<rparr>
     (twice (tar_source list_engine \<lparr>euid = 0, egid = 0\<rparr> (sql_only (filled_index two_rows)) (flat_source [] (\<lambda>p. None))))
     ''d//f'' (-2) = Some (tag_source (row_info (sample_row ''/d'' ''f'' 1024 9)) 0)"
proof -
  let ?u = "twice (tar_source list_engine \<lparr>euid = 0, egid = 0\<rparr> (sql_only (filled_index two_rows)) (flat_source [] (\<lambda>p. None)))"
  have n: "normpath ''d//f'' = ''/d/f''" by code_simp
  have s: "sint (-2 :: i32) = -2" by code_simp
  have i: "[0, 1] = sources_for_path ?u (normpath ''d//f'')"
    by (simp add: sources_for_path_def twice_def upt_rec)
  have h: "\<forall>i \<in> set [0, 1]. versioned (ms_lookup (um_sources ?u ! i) (normpath ''d//f''))
      (ms_versions (um_sources ?u ! i) (normpath ''d//f'')) (map row_info two_rows)"
    unfolding n using two_archives.source_hist by blast
  have f: "(\<Sum>i \<leftarrow> [0, 1 :: nat]. length (map row_info two_rows)) < 2 ^ 31"
    by (simp add: two_rows_def)
  have v: "version_at (concat (map (\<lambda>i. map (\<lambda>fi. tag_source fi i) (map row_info two_rows)) [0, 1])) (-2) =
      Some (tag_source (row_info (sample_row ''/d'' ''f'' 1024 9)) 0)"
    by (simp add: version_at_def two_rows_def)
  show ?thesis
    using union_versions_enumerate [OF _ _ _ i h f, of "-2" "\<lparr>euid = 0, egid = 0\<rparr>"] v
    by (simp add: n s) (simp add: twice_def)
qed

text \<open>C38: A union never looks past an archive whose index is served from memory: whenever the rightmost
  consulted source is such an archive and has the path, every negative version is answered by that
  archive, with its oldest entry once its history is exhausted, and older entries of the sources
  to its left are out of reach.\<close>

theorem union_stuck_on_memory_index:
  assumes "sql_spec eng content" "ix_rep content ix rs"
    and "\<forall>r \<in> set rs. r_linkname r \<noteq> DUMPDIR_DELETE_LINKNAME"
    and "normpath path \<noteq> ''/''" "sources_for_path u (normpath path) = left @ [si]"
    and "um_sources u ! si = tar_source eng env ix rest" "\<not> um_resolve_symlinks u"
    and "0 < tar_versions eng env ix (normpath path)" "sint v < 0"
  shows "\<exists>fi. union_lookup env' u path v = Some (tag_source fi si)
    \<and> (int (unat (tar_versions eng env ix (normpath path))) \<le> - sint v \<longrightarrow>
         tar_lookup eng env ix (normpath path) 1 = Some fi)"
proof -
  have q: "query_normpath (normpath path) = normpath path"
    by (simp add: path_simps)
  then have loc: "sql_path eng content ix rs (normpath path)"
    using assms(1-4) by (intro sql_path.intro) auto
  note cnt = sql_path.tar_mem_versions_rows [OF loc, of env]
  have ne: "sql_path.rows rs (normpath path) \<noteq> []"
    using assms(8) cnt by auto
  obtain fi where fi: "tar_lookup eng env ix (normpath path) v = Some fi"
      "int (length (sql_path.rows rs (normpath path))) \<le> - sint v \<Longrightarrow> tar_lookup eng env ix (normpath path) 1 = Some fi"
    using sql_path.tar_mem_oldest [OF loc ne, of v env] assms(9) by auto
  have "length (sql_path.rows rs (normpath path)) \<le> 2 ^ 31"
    using good_versions_length [OF assms(2)] by (simp add: sql_path.rows_def [OF loc] split: prod.splits)
  then have "unat (tar_versions eng env ix (normpath path)) = length (sql_path.rows rs (normpath path))"
    unfolding cnt by (intro unat_of_nat_u32) simp
  moreover have "union_lookup env' u path v = Some (tag_source fi si)"
    using assms(4-7,9) fi(1)
    by (auto simp: union_lookup_def Let_def lookup_in_def tag_resolved_def maybe_resolve_winner_def)
  ultimately show ?thesis
    using fi(2) by auto
qed


theorem union_stuck_on_memory_index_witness:
  "\<exists>fi. union_lookup \<lparr>euid = 0, egid = 0\<rparr>
     (twice (tar_source list_engine \<lparr>euid = 0, egid = 0\<rparr> (filled_index two_rows) (flat_source [] (\<lambda>p. None))))
     ''/d/f'' (-2) = Some (tag_source fi 1)
    \<and> tar_lookup list_engine \<lparr>euid = 0, egid = 0\<rparr> (filled_index two_rows) ''/d/f'' 1 = Some fi"
proof -
  let ?e = "\<lparr>euid = 0, egid = 0\<rparr>"
  let ?u = "twice (tar_source list_engine ?e (filled_index two_rows) (flat_source [] (\<lambda>p. None)))"
  have n: "normpath ''/d/f'' = ''/d/f''" and s: "sint (-2 :: i32) = -2" by code_simp+
  have live: "\<forall>r \<in> set two_rows. r_linkname r \<noteq> DUMPDIR_DELETE_LINKNAME"
    using two_versions.live by blast
  have i: "sources_for_path ?u (normpath ''/d/f'') = [0] @ [1]"
    by (simp add: sources_for_path_def twice_def upt_rec)
  have k: "tar_versions list_engine ?e (filled_index two_rows) ''/d/f'' = 2"
    using two_versions.tar_mem_versions_rows two_versions_rows by (simp add: two_rows_def)
  have "\<exists>fi. union_lookup ?e ?u ''/d/f'' (-2) = Some (tag_source fi 1)
      \<and> (int (unat (tar_versions list_engine ?e (filled_index two_rows) (normpath ''/d/f''))) \<le> - sint (-2 :: i32) \<longrightarrow>
         tar_lookup list_engine ?e (filled_index two_rows) (normpath ''/d/f'') 1 = Some fi)"
    by (rule union_stuck_on_memory_index [OF list_engine_spec two_rows_rep live _ i])
      (simp_all add: n s k, simp_all add: twice_def)
  then show ?thesis
    by (simp add: n k s)
qed

end
