(* ===== verification/Union_Cache.thy ===== *)
theory Union_Cache
  imports Union_Mount
begin

text \<open>
  The folder cache of the union: what it holds after the build, for sources that are trees, and that
  consulting it does not change any lookup.
\<close>

section \<open>Sources that are trees\<close>

text \<open>
  What the cache relies on: an entry that can be looked up is listed by its parent with the same
  mode, only directories are listed, what is listed can be looked up, and no symlink leads to a
  directory.
\<close>

definition tree_source :: "bool \<Rightarrow> ('r, 'f) mount_source \<Rightarrow> bool" where
  "tree_source b s \<longleftrightarrow>
     (\<forall>cs c fi. is_comps (cs @ [c]) \<longrightarrow> ms_lookup s (abs_path (cs @ [c])) 0 = Some fi \<longrightarrow>
        (\<exists>ds d. ms_list_dirents s (abs_path cs) = Some ds \<and> d \<in> set ds \<and> cd_name d = c \<and> cd_mode d = fi_mode fi))
     \<and> (\<forall>cs ds. is_comps cs \<longrightarrow> cs \<noteq> [] \<longrightarrow> ms_list_dirents s (abs_path cs) = Some ds \<longrightarrow>
        (\<exists>fi. ms_lookup s (abs_path cs) 0 = Some fi \<and> is_dir_mode (fi_mode fi)))
     \<and> (\<forall>cs ds d. is_comps cs \<longrightarrow> ms_list_dirents s (abs_path cs) = Some ds \<longrightarrow> d \<in> set ds \<longrightarrow>
        is_comp (cd_name d)
        \<and> (\<exists>fi. ms_lookup s (abs_path (cs @ [cd_name d])) 0 = Some fi \<and> fi_mode fi = cd_mode d))
     \<and> (\<forall>cs fi. is_comps cs \<longrightarrow> ms_lookup s (abs_path cs) 0 = Some fi \<longrightarrow> is_lnk_mode (fi_mode fi) \<longrightarrow>
        list_dirents_from_source s (abs_path cs) b = None)"

lemma tree_sourceD:
  assumes "tree_source b s"
  shows "is_comps (cs @ [c]) \<Longrightarrow> ms_lookup s (abs_path (cs @ [c])) 0 = Some fi \<Longrightarrow>
      \<exists>ds d. ms_list_dirents s (abs_path cs) = Some ds \<and> d \<in> set ds \<and> cd_name d = c \<and> cd_mode d = fi_mode fi"
    and "is_comps cs \<Longrightarrow> cs \<noteq> [] \<Longrightarrow> ms_list_dirents s (abs_path cs) = Some ds \<Longrightarrow>
      \<exists>fi. ms_lookup s (abs_path cs) 0 = Some fi \<and> is_dir_mode (fi_mode fi)"
    and "is_comps cs \<Longrightarrow> ms_list_dirents s (abs_path cs) = Some ds \<Longrightarrow> d \<in> set ds \<Longrightarrow>
      is_comp (cd_name d) \<and> (\<exists>fi. ms_lookup s (abs_path (cs @ [cd_name d])) 0 = Some fi \<and> fi_mode fi = cd_mode d)"
    and "is_comps cs \<Longrightarrow> ms_lookup s (abs_path cs) 0 = Some fi \<Longrightarrow> is_lnk_mode (fi_mode fi) \<Longrightarrow>
      list_dirents_from_source s (abs_path cs) b = None"
  using assms unfolding tree_source_def by blast+

text \<open>Which directories a source has.\<close>

definition has_dir :: "('r, 'f) mount_source \<Rightarrow> string list \<Rightarrow> bool" where
  "has_dir s cs \<longleftrightarrow> cs = [] \<or> (\<exists>fi. ms_lookup s (abs_path cs) 0 = Some fi \<and> is_dir_mode (fi_mode fi))"

lemma tree_list_dirents:
  assumes "tree_source b s" "is_comps cs"
  shows "list_dirents_from_source s (abs_path cs) b = ms_list_dirents s (abs_path cs)"
proof (cases "ms_list_dirents s (abs_path cs)")
  case (Some ds)
  then show ?thesis by (simp add: list_dirents_from_source_def follow_symlink_then_def)
next
  case None
  show ?thesis
  proof (cases "\<exists>fi. ms_lookup s (abs_path cs) 0 = Some fi \<and> is_lnk_mode (fi_mode fi)")
    case True
    then show ?thesis using tree_sourceD(4) [OF assms] None by auto
  next
    case False
    with None show ?thesis
      by (auto simp: list_dirents_from_source_def follow_symlink_then_def split: option.splits)
  qed
qed

lemma tree_include_child:
  assumes "tree_source b s" "is_comps (cs @ [c])"
    and "ms_lookup s (abs_path (cs @ [c])) 0 = Some fi" "fi_mode fi = mode"
  shows "folder_cache_should_include_child s (abs_path (cs @ [c])) mode b \<longleftrightarrow> is_dir_mode mode"
  using tree_sourceD(4) [OF assms(1,2,3)] assms(3,4) dir_not_lnk
  by (auto simp: folder_cache_should_include_child_def is_dir_mode_def is_lnk_mode_def S_IFDIR_def
      S_IFLNK_def Let_def)

text \<open>Every ancestor of an existing path is a directory.\<close>

lemma tree_parent:
  assumes "tree_source b s" "is_comps (cs @ [c])" "ms_lookup s (abs_path (cs @ [c])) 0 \<noteq> None"
  shows "has_dir s cs" "\<exists>ds. ms_list_dirents s (abs_path cs) = Some ds"
proof -
  obtain ds where ds: "ms_list_dirents s (abs_path cs) = Some ds"
    using tree_sourceD(1) [OF assms(1,2)] assms(3) by blast
  then show "\<exists>ds. ms_list_dirents s (abs_path cs) = Some ds" by blast
  have "is_comps cs" using assms(2) by simp
  with tree_sourceD(2) [OF assms(1) this _ ds] show "has_dir s cs"
    unfolding has_dir_def by blast
qed

lemma tree_ancestor:
  assumes "tree_source b s" "is_comps cs" "ms_lookup s (abs_path cs) 0 \<noteq> None" "k < length cs"
  shows "has_dir s (take k cs)"
  using assms(2-)
proof (induction "length cs - k" arbitrary: k)
  case (Suc m)
  show ?case
  proof (cases "Suc k = length cs")
    case True
    then have "cs = take k cs @ [cs ! k]"
      by (metis lessI take_Suc_conv_app_nth take_all_iff order_refl)
    with tree_parent(1) [OF assms(1), of "take k cs" "cs ! k"] Suc.prems show ?thesis by simp
  next
    case False
    then have "has_dir s (take (Suc k) cs)"
      using Suc by (intro Suc.hyps(1)) auto
    then have l: "ms_lookup s (abs_path (take (Suc k) cs)) 0 \<noteq> None"
      using Suc.prems(3) by (auto simp: has_dir_def)
    have t: "take (Suc k) cs = take k cs @ [cs ! k]"
      using Suc.prems(3) by (rule take_Suc_conv_app_nth)
    show ?thesis
      using tree_parent(1) [OF assms(1), of "take k cs" "cs ! k"] l Suc.prems(1) is_comps_take [of cs "Suc k"]
      by (simp add: t)
  qed
qed simp


section \<open>One level of the build\<close>

text \<open>The sources the cache may name for a folder, and what the level being built holds.\<close>

definition cacheable :: "('r, 'f) mount_source list \<Rightarrow> nat \<Rightarrow> string list \<Rightarrow> bool" where
  "cacheable S i cs \<longleftrightarrow> i < length S \<and> ms_is_immutable (S ! i) \<and> has_dir (S ! i) cs"

definition holds :: "path_intern \<Rightarrow> folder_map \<Rightarrow> string list \<Rightarrow> nat \<Rightarrow> bool" where
  "holds p m cs i \<longleftrightarrow>
     (\<exists>fid c. pi_lookup p (abs_path cs) = Some fid \<and> map_of m fid = Some c \<and> i \<in> set c)"

text \<open>Every folder in the map is a path of depth \<open>k\<close> with sources that have it.\<close>

definition level_sound :: "('r, 'f) mount_source list \<Rightarrow> nat \<Rightarrow> path_intern \<Rightarrow> folder_map \<Rightarrow> bool" where
  "level_sound S k p m \<longleftrightarrow>
     (\<forall>fid c. map_of m fid = Some c \<longrightarrow>
        (\<exists>cs. is_comps cs \<and> length cs = k \<and> pi_lookup p (abs_path cs) = Some fid
           \<and> (k \<noteq> 0 \<longrightarrow> c \<noteq> []) \<and> (\<forall>i \<in> set c. cacheable S i cs)))"

definition interns :: "path_intern \<Rightarrow> path_intern \<Rightarrow> bool" where
  "interns p q \<longleftrightarrow> (\<forall>s fid. pi_lookup p s = Some fid \<longrightarrow> pi_lookup q s = Some fid)"

definition work_ok :: "('r, 'f) mount_source list \<Rightarrow> nat \<Rightarrow> cache_work \<Rightarrow> bool" where
  "work_ok S k w \<longleftrightarrow>
     pi_inv (cw_intern w) \<and> length (strings (cw_intern w)) + cw_left w \<le> 2 ^ 32
     \<and> level_sound S k (cw_intern w) (cw_new w) \<and> distinct (map fst (cw_new w))"

definition grows :: "cache_work \<Rightarrow> cache_work \<Rightarrow> bool" where
  "grows w w' \<longleftrightarrow>
     interns (cw_intern w) (cw_intern w')
     \<and> (\<forall>cs i. holds (cw_intern w) (cw_new w) cs i \<longrightarrow> holds (cw_intern w') (cw_new w') cs i)"

lemma interns_refl [simp, intro]: "interns p p"
  and interns_trans: "interns p q \<Longrightarrow> interns q r \<Longrightarrow> interns p r"
  by (simp_all add: interns_def)

lemma grows_refl [simp, intro]: "grows w w"
  and grows_trans: "grows w w1 \<Longrightarrow> grows w1 w2 \<Longrightarrow> grows w w2"
  by (auto simp: grows_def intro: interns_trans)

lemma pi_intern_strings: "pi_intern p s = Some (i, q) \<Longrightarrow> length (strings q) \<le> length (strings p) + 1"
  by (auto simp: pi_intern_def Let_def split: option.splits if_splits)

lemma pi_intern_ok:
  assumes "pi_inv p" "length (strings p) < 2 ^ 32"
  shows "\<exists>i q. pi_intern p s = Some (i, q) \<and> pi_inv q \<and> interns p q \<and> pi_lookup q s = Some i
    \<and> length (strings q) \<le> length (strings p) + 1"
proof -
  have f: "pi_fits p s" using assms(2) by (simp add: pi_fits_def)
  obtain i q where q: "pi_intern p s = Some (i, q)"
    using paths.intern_Some [OF assms(1) f] by blast
  moreover have "interns p q"
    using paths.intern_keeps [OF assms(1) f q] by (auto simp: interns_def)
  moreover have "pi_lookup q s = Some i"
    using paths.intern_find [OF assms(1) f q] by simp
  ultimately show ?thesis
    using paths.intern_invar [OF assms(1) f q] pi_intern_strings [OF q] by blast
qed

lemma level_soundD:
  assumes "level_sound S k p m" "map_of m fid = Some c"
  shows "\<exists>cs. is_comps cs \<and> length cs = k \<and> pi_lookup p (abs_path cs) = Some fid
    \<and> (k \<noteq> 0 \<longrightarrow> c \<noteq> []) \<and> (\<forall>i \<in> set c. cacheable S i cs)"
  using assms by (simp add: level_sound_def)

lemma level_sound_interns:
  assumes "level_sound S k p m" "interns p q"
  shows "level_sound S k q m"
  unfolding level_sound_def
proof (intro allI impI)
  fix fid c assume "map_of m fid = Some c"
  from level_soundD [OF assms(1) this] obtain cs where "is_comps cs" "length cs = k"
      "pi_lookup p (abs_path cs) = Some fid" "k \<noteq> 0 \<longrightarrow> c \<noteq> []" "\<forall>i \<in> set c. cacheable S i cs"
    by blast
  with assms(2) show "\<exists>cs. is_comps cs \<and> length cs = k \<and> pi_lookup q (abs_path cs) = Some fid
      \<and> (k \<noteq> 0 \<longrightarrow> c \<noteq> []) \<and> (\<forall>i \<in> set c. cacheable S i cs)"
    by (intro exI [of _ cs]) (simp add: interns_def)
qed

lemma holds_interns: "holds p m cs i \<Longrightarrow> interns p q \<Longrightarrow> holds q m cs i"
  unfolding holds_def interns_def by blast

lemma work_ok_ticks [simp]: "work_ok S k (w\<lparr>cw_ticks := t\<rparr>) = work_ok S k w"
  and grows_ticks [simp]: "grows (w\<lparr>cw_ticks := t\<rparr>) w' = grows w w'"
  by (simp_all add: work_ok_def grows_def)

lemma cache_add_ok:
  assumes ok: "work_ok S k w" and left: "cw_left w \<noteq> 0"
    and cs: "is_comps cs" "length cs = k" "cacheable S si cs"
  shows "\<exists>w'. cache_add w (abs_path cs) si = Some w' \<and> work_ok S k w' \<and> grows w w'
    \<and> holds (cw_intern w') (cw_new w') cs si"
proof -
  let ?p = "cw_intern w"
  have p: "pi_inv ?p" "length (strings ?p) + cw_left w \<le> 2 ^ 32" "distinct (map fst (cw_new w))"
    and snd: "level_sound S k ?p (cw_new w)"
    using ok by (simp_all add: work_ok_def)
  then obtain fid q where q: "pi_intern ?p (abs_path cs) = Some (fid, q)" "pi_inv q" "interns ?p q"
      "pi_lookup q (abs_path cs) = Some fid" "length (strings q) \<le> length (strings ?p) + 1"
    using pi_intern_ok [OF p(1), of "abs_path cs"] left by auto
  define old where "old = (case map_of (cw_new w) fid of None \<Rightarrow> [] | Some v \<Rightarrow> v)"
  let ?m = "AList.update fid (old @ [si]) (cw_new w)"
  let ?w = "w\<lparr>cw_intern := q, cw_left := cw_left w - 1, cw_new := ?m\<rparr>"
  have add: "cache_add w (abs_path cs) si = Some ?w"
    by (simp add: cache_add_def q(1) old_def)
  have old: "cacheable S i cs" if "i \<in> set old" for i
  proof -
    from that obtain c where c: "map_of (cw_new w) fid = Some c" "i \<in> set c"
      by (cases "map_of (cw_new w) fid") (simp_all add: old_def)
    with level_soundD [OF snd] obtain ds
      where ds: "is_comps ds" "pi_lookup ?p (abs_path ds) = Some fid" "\<forall>i \<in> set c. cacheable S i ds"
      by blast
    then have "pi_lookup q (abs_path ds) = Some fid"
      using q(3) by (simp add: interns_def)
    then have "abs_path ds = abs_path cs"
      using paths.find_inj [OF q(2) _ q(4)] by blast
    with ds c cs show ?thesis using abs_path_inj by blast
  qed
  have "level_sound S k q ?m"
    unfolding level_sound_def
  proof (intro allI impI)
    fix f c assume fc: "map_of ?m f = Some c"
    show "\<exists>cs. is_comps cs \<and> length cs = k \<and> pi_lookup q (abs_path cs) = Some f
        \<and> (k \<noteq> 0 \<longrightarrow> c \<noteq> []) \<and> (\<forall>i \<in> set c. cacheable S i cs)"
    proof (cases "f = fid")
      case True
      with fc have "c = old @ [si]" by (simp add: update_conv')
      with True cs q(4) old show ?thesis by (intro exI [of _ cs]) auto
    next
      case False
      with fc have "map_of (cw_new w) f = Some c" by (simp add: update_conv')
      then show ?thesis
        by (rule level_soundD [OF level_sound_interns [OF snd q(3)]])
    qed
  qed
  then have "work_ok S k ?w"
    using q(2,5) p(2,3) left by (simp add: work_ok_def distinct_update)
  moreover have "holds q ?m ds i" if "holds ?p (cw_new w) ds i" for ds i
  proof -
    from that obtain f c where f: "pi_lookup ?p (abs_path ds) = Some f" "map_of (cw_new w) f = Some c" "i \<in> set c"
      by (auto simp: holds_def)
    then have "map_of ?m f = Some (if f = fid then c @ [si] else c)"
      by (auto simp: update_conv' old_def)
    with f q(3) show ?thesis by (auto simp: holds_def interns_def)
  qed
  moreover have "holds q ?m cs si"
    using q(4) by (auto simp: holds_def update_conv')
  ultimately show ?thesis
    using add q(3) by (intro exI [of _ ?w]) (simp add: grows_def)
qed


lemma holds_grows: "holds (cw_intern w) (cw_new w) cs i \<Longrightarrow> grows w w' \<Longrightarrow> holds (cw_intern w') (cw_new w') cs i"
  by (simp add: grows_def)

lemma cache_children_ok:
  assumes tree: "tree_source b (S ! si)" and si: "si < length S" "ms_is_immutable (S ! si)"
    and cs: "is_comps cs" "length cs = k"
  shows "work_ok S (Suc k) w \<Longrightarrow>
    \<forall>d \<in> set ds. is_comp (cd_name d) \<and> (\<exists>fi. ms_lookup (S ! si) (abs_path (cs @ [cd_name d])) 0 = Some fi \<and> fi_mode fi = cd_mode d) \<Longrightarrow>
    \<exists>stop w'. cache_children timed_out (S ! si) b (abs_path cs) si w ds = Some (stop, w')
      \<and> work_ok S (Suc k) w' \<and> grows w w'
      \<and> (\<not> stop \<longrightarrow> (\<forall>d \<in> set ds. is_dir_mode (cd_mode d) \<longrightarrow>
            holds (cw_intern w') (cw_new w') (cs @ [cd_name d]) si))"
proof (induction ds arbitrary: w)
  case (Cons d ds)
  let ?w1 = "w\<lparr>cw_ticks := cw_ticks w + 1\<rparr>"
  let ?c = "cs @ [cd_name d]"
  obtain fi where fi: "is_comps ?c" "ms_lookup (S ! si) (abs_path ?c) 0 = Some fi" "fi_mode fi = cd_mode d"
    using Cons.prems(2) cs by auto
  have full: "join_path (abs_path cs) (cd_name d) = abs_path ?c"
    by (rule join_path_abs [OF cs(1)])
  have incl: "folder_cache_should_include_child (S ! si) (abs_path ?c) (cd_mode d) b \<longleftrightarrow> is_dir_mode (cd_mode d)"
    by (rule tree_include_child [OF tree fi])
  have ok: "work_ok S (Suc k) ?w1" using Cons.prems(1) by simp
  show ?case
  proof (cases "timed_out (cw_ticks w) \<or> cw_left w = 0")
    case True
    with ok show ?thesis by (auto simp: grows_def)
  next
    case False
    show ?thesis
    proof (cases "is_dir_mode (cd_mode d)")
      case True
      then have "cacheable S si ?c"
        using si fi by (simp add: cacheable_def has_dir_def)
      then obtain w2 where w2: "cache_add ?w1 (abs_path ?c) si = Some w2" "work_ok S (Suc k) w2" "grows w w2"
          "holds (cw_intern w2) (cw_new w2) ?c si"
        using cache_add_ok [OF ok _ fi(1)] False cs(2) by auto
      obtain stop w' where w': "cache_children timed_out (S ! si) b (abs_path cs) si w2 ds = Some (stop, w')"
          "work_ok S (Suc k) w'" "grows w2 w'"
          "\<not> stop \<longrightarrow> (\<forall>d \<in> set ds. is_dir_mode (cd_mode d) \<longrightarrow> holds (cw_intern w') (cw_new w') (cs @ [cd_name d]) si)"
        using Cons.IH [OF w2(2)] Cons.prems(2) by auto
      then show ?thesis
        using False True w2 incl holds_grows [OF w2(4) w'(3)] grows_trans [OF w2(3) w'(3)]
        by (simp add: full Let_def)
    next
      case nodir: False
      obtain stop w' where w': "cache_children timed_out (S ! si) b (abs_path cs) si ?w1 ds = Some (stop, w')"
          "work_ok S (Suc k) w'" "grows ?w1 w'"
          "\<not> stop \<longrightarrow> (\<forall>d \<in> set ds. is_dir_mode (cd_mode d) \<longrightarrow> holds (cw_intern w') (cw_new w') (cs @ [cd_name d]) si)"
        using Cons.IH [OF ok] Cons.prems(2) by auto
      then show ?thesis
        using False nodir incl by (simp add: full Let_def)
    qed
  qed
qed (auto intro: exI [of _ False])

text \<open>A source has been walked for a folder when it is recorded for every child directory.\<close>

definition walked :: "('r, 'f) mount_source list \<Rightarrow> cache_work \<Rightarrow> string list \<Rightarrow> nat \<Rightarrow> bool" where
  "walked S w cs i \<longleftrightarrow>
     (\<forall>c. is_comp c \<longrightarrow> cacheable S i (cs @ [c]) \<longrightarrow> holds (cw_intern w) (cw_new w) (cs @ [c]) i)"

lemma walked_grows: "walked S w cs i \<Longrightarrow> grows w w' \<Longrightarrow> walked S w' cs i"
  by (simp add: walked_def grows_def)

lemma tree_child_listed:
  assumes "tree_source b (S ! i)" "is_comps cs" "is_comp c" "cacheable S i (cs @ [c])"
  shows "\<exists>ds d. ms_list_dirents (S ! i) (abs_path cs) = Some ds \<and> d \<in> set ds \<and> cd_name d = c \<and> is_dir_mode (cd_mode d)"
proof -
  from assms(4) obtain fi where fi: "ms_lookup (S ! i) (abs_path (cs @ [c])) 0 = Some fi" "is_dir_mode (fi_mode fi)"
    by (auto simp: cacheable_def has_dir_def)
  have "is_comps (cs @ [c])" using assms(2,3) by simp
  from tree_sourceD(1) [OF assms(1) this fi(1)] obtain ds d where
    "ms_list_dirents (S ! i) (abs_path cs) = Some ds" "d \<in> set ds" "cd_name d = c" "cd_mode d = fi_mode fi"
    by blast
  with fi(2) show ?thesis by (intro exI [of _ ds] exI [of _ d]) simp
qed

lemma cache_sources_ok:
  assumes trees: "\<forall>s \<in> set S. tree_source b s" and cs: "is_comps cs" "length cs = k"
  shows "work_ok S (Suc k) w \<Longrightarrow> \<forall>i \<in> set is. cacheable S i cs \<Longrightarrow>
    \<exists>stop w'. cache_sources timed_out S b (abs_path cs) w is = Some (stop, w')
      \<and> work_ok S (Suc k) w' \<and> grows w w' \<and> (\<not> stop \<longrightarrow> (\<forall>i \<in> set is. walked S w' cs i))"
proof (induction "is" arbitrary: w)
  case (Cons i "is")
  let ?w1 = "w\<lparr>cw_ticks := cw_ticks w + 1\<rparr>"
  have i: "i < length S" "ms_is_immutable (S ! i)" and tree: "tree_source b (S ! i)"
    using Cons.prems(2) trees by (auto simp: cacheable_def)
  have ok: "work_ok S (Suc k) ?w1" using Cons.prems(1) by simp
  have ld: "list_dirents_from_source (S ! i) (abs_path cs) b = ms_list_dirents (S ! i) (abs_path cs)"
    by (rule tree_list_dirents [OF tree cs(1)])
  show ?case
  proof (cases "timed_out (cw_ticks w) \<or> cw_left w = 0")
    case True
    with ok show ?thesis by (auto simp: grows_def)
  next
    case False
    show ?thesis
    proof (cases "ms_list_dirents (S ! i) (abs_path cs)")
      case None
      then have "walked S w' cs i" for w'
        using tree_child_listed [OF tree cs(1)] unfolding walked_def by fastforce
      moreover obtain stop w' where "cache_sources timed_out S b (abs_path cs) ?w1 is = Some (stop, w')"
          "work_ok S (Suc k) w'" "grows ?w1 w'" "\<not> stop \<longrightarrow> (\<forall>i \<in> set is. walked S w' cs i)"
        using Cons.IH [OF ok] Cons.prems(2) by auto
      ultimately show ?thesis
        using False None by (simp add: ld Let_def)
    next
      case (Some ds)
      have "\<forall>d \<in> set ds. is_comp (cd_name d) \<and> (\<exists>fi. ms_lookup (S ! i) (abs_path (cs @ [cd_name d])) 0 = Some fi \<and> fi_mode fi = cd_mode d)"
        using tree_sourceD(3) [OF tree cs(1) Some] by blast
      from cache_children_ok [OF tree i cs ok this] obtain stop1 w2
        where w2: "cache_children timed_out (S ! i) b (abs_path cs) i ?w1 ds = Some (stop1, w2)"
          "work_ok S (Suc k) w2" "grows w w2"
          "\<not> stop1 \<longrightarrow> (\<forall>d \<in> set ds. is_dir_mode (cd_mode d) \<longrightarrow> holds (cw_intern w2) (cw_new w2) (cs @ [cd_name d]) i)"
        unfolding grows_ticks by blast
      have wk: "walked S w2 cs i" if "\<not> stop1"
        unfolding walked_def using tree_child_listed [OF tree cs(1)] Some w2(4) that by fastforce
      obtain stop w' where w': "cache_sources timed_out S b (abs_path cs) w2 is = Some (stop, w')"
          "work_ok S (Suc k) w'" "grows w2 w'" "\<not> stop \<longrightarrow> (\<forall>i \<in> set is. walked S w' cs i)"
        using Cons.IH [OF w2(2)] Cons.prems(2) by auto
      show ?thesis
        using False Some w2 w' wk walked_grows [OF wk w'(3)] grows_trans [OF w2(3) w'(3)]
        by (cases stop1) (auto simp: ld Let_def)
    qed
  qed
qed (auto intro: exI [of _ False])


lemma cache_folders_ok:
  assumes trees: "\<forall>s \<in> set S. tree_source b s" and p0: "pi_inv p0"
  shows "work_ok S (Suc k) w \<Longrightarrow> interns p0 (cw_intern w) \<Longrightarrow>
    \<forall>(fid, c) \<in> set L. \<exists>cs. is_comps cs \<and> length cs = k \<and> pi_lookup p0 (abs_path cs) = Some fid \<and> (\<forall>i \<in> set c. cacheable S i cs) \<Longrightarrow>
    \<exists>stop w'. cache_folders timed_out S b w L = Some (stop, w') \<and> work_ok S (Suc k) w' \<and> grows w w'
      \<and> (\<not> stop \<longrightarrow> (\<forall>(fid, c) \<in> set L. \<forall>cs. is_comps cs \<longrightarrow> pi_lookup p0 (abs_path cs) = Some fid \<longrightarrow>
            (\<forall>i \<in> set c. walked S w' cs i)))"
proof (induction L arbitrary: w)
  case (Cons x L)
  obtain fid c where x: "x = (fid, c)" by force
  obtain cs where cs: "is_comps cs" "length cs = k" "pi_lookup p0 (abs_path cs) = Some fid" "\<forall>i \<in> set c. cacheable S i cs"
    using Cons.prems(3) x by auto
  have inv: "pi_inv (cw_intern w)" using Cons.prems(1) by (simp add: work_ok_def)
  have "pi_get (cw_intern w) fid = abs_path cs"
    using cs(3) Cons.prems(2) by (intro paths.find_get [OF inv]) (simp add: interns_def)
  moreover obtain stop1 w1 where w1: "cache_sources timed_out S b (abs_path cs) w c = Some (stop1, w1)"
      "work_ok S (Suc k) w1" "grows w w1" "\<not> stop1 \<longrightarrow> (\<forall>i \<in> set c. walked S w1 cs i)"
    using cache_sources_ok [OF trees cs(1,2) Cons.prems(1) cs(4)] by blast
  moreover have "interns p0 (cw_intern w1)"
    using Cons.prems(2) w1(3) interns_trans by (auto simp: grows_def)
  then obtain stop w' where w': "cache_folders timed_out S b w1 L = Some (stop, w')" "work_ok S (Suc k) w'" "grows w1 w'"
      "\<not> stop \<longrightarrow> (\<forall>(fid, c) \<in> set L. \<forall>cs. is_comps cs \<longrightarrow> pi_lookup p0 (abs_path cs) = Some fid \<longrightarrow>
            (\<forall>i \<in> set c. walked S w' cs i))"
    using Cons.IH [OF w1(2)] Cons.prems(3) by auto
  moreover have "ds = cs" if "is_comps ds" "pi_lookup p0 (abs_path ds) = Some fid" for ds
    using paths.find_inj [OF p0 cs(3) that(2)] abs_path_inj [OF cs(1) that(1)] by simp
  ultimately show ?case
    using walked_grows [OF _ w'(3)] grows_trans [OF w1(3) w'(3)] x
    by (cases stop1) (auto, blast)
qed (auto intro: exI [of _ False])

section \<open>The whole build\<close>

definition cache_ok :: "('r, 'f) mount_source list \<Rightarrow> nat \<Rightarrow> path_intern \<Rightarrow> folder_map \<Rightarrow> bool" where
  "cache_ok S k p m \<longleftrightarrow>
     pi_inv p
     \<and> (\<forall>fid c. map_of m fid = Some c \<longrightarrow>
          (\<exists>cs. is_comps cs \<and> length cs \<le> k \<and> pi_lookup p (abs_path cs) = Some fid
             \<and> (cs \<noteq> [] \<longrightarrow> c \<noteq> []) \<and> (\<forall>i \<in> set c. cacheable S i cs)))
     \<and> (\<forall>cs i. is_comps cs \<longrightarrow> length cs \<le> k \<longrightarrow> cacheable S i cs \<longrightarrow> holds p m cs i)"

lemma cache_okD:
  assumes "cache_ok S k p m"
  shows "pi_inv p"
    and "map_of m fid = Some c \<Longrightarrow>
          \<exists>cs. is_comps cs \<and> length cs \<le> k \<and> pi_lookup p (abs_path cs) = Some fid
             \<and> (cs \<noteq> [] \<longrightarrow> c \<noteq> []) \<and> (\<forall>i \<in> set c. cacheable S i cs)"
    and "is_comps cs \<Longrightarrow> length cs \<le> k \<Longrightarrow> cacheable S i cs \<Longrightarrow> holds p m cs i"
  using assms by (simp_all add: cache_ok_def)

lemma cache_ok_interns:
  assumes "cache_ok S k p m" "interns p q" "pi_inv q"
  shows "cache_ok S k q m"
  unfolding cache_ok_def
proof (intro conjI allI impI)
  fix fid c assume "map_of m fid = Some c"
  from cache_okD(2) [OF assms(1) this] obtain cs where "is_comps cs" "length cs \<le> k"
      "pi_lookup p (abs_path cs) = Some fid" "cs \<noteq> [] \<longrightarrow> c \<noteq> []" "\<forall>i \<in> set c. cacheable S i cs"
    by blast
  with assms(2) show "\<exists>cs. is_comps cs \<and> length cs \<le> k \<and> pi_lookup q (abs_path cs) = Some fid
      \<and> (cs \<noteq> [] \<longrightarrow> c \<noteq> []) \<and> (\<forall>i \<in> set c. cacheable S i cs)"
    by (intro exI [of _ cs]) (simp add: interns_def)
next
  fix cs i assume "is_comps cs" "length cs \<le> k" "cacheable S i cs"
  then show "holds q m cs i"
    using cache_okD(3) [OF assms(1)] holds_interns [OF _ assms(2)] by blast
qed (rule assms(3))

lemma map_of_folder_extend:
  "distinct (map fst new) \<Longrightarrow>
   map_of (folder_extend m new) fid = (case map_of new fid of Some c \<Rightarrow> Some c | None \<Rightarrow> map_of m fid)"
proof (induction new rule: rev_induct)
  case (snoc x new)
  then have "map_of new (fst x) = None"
    by (simp add: map_of_eq_None_iff)
  with snoc show ?case
    by (auto simp: folder_extend_def update_conv' case_prod_unfold map_add_def split: option.splits)
qed (simp add: folder_extend_def)

lemma cache_ok_extend:
  assumes old: "cache_ok S k p m" and new: "level_sound S (Suc k) p new" "distinct (map fst new)"
    and full: "\<And>cs i. is_comps cs \<Longrightarrow> length cs = Suc k \<Longrightarrow> cacheable S i cs \<Longrightarrow> holds p new cs i"
  shows "cache_ok S (Suc k) p (folder_extend m new)"
  unfolding cache_ok_def
proof (intro conjI allI impI)
  note inv = cache_okD(1) [OF old]
  note ext = map_of_folder_extend [OF new(2)]
  show "pi_inv p" by (rule inv)
  fix fid c assume c: "map_of (folder_extend m new) fid = Some c"
  show "\<exists>cs. is_comps cs \<and> length cs \<le> Suc k \<and> pi_lookup p (abs_path cs) = Some fid
      \<and> (cs \<noteq> [] \<longrightarrow> c \<noteq> []) \<and> (\<forall>i \<in> set c. cacheable S i cs)"
  proof (cases "map_of new fid")
    case None
    with c have "map_of m fid = Some c" by (simp add: ext)
    from cache_okD(2) [OF old this] show ?thesis using le_SucI by blast
  next
    case (Some c')
    with c have "map_of new fid = Some c" by (simp add: ext)
    from level_soundD [OF new(1) this] show ?thesis by auto
  qed
next
  fix cs i assume cs: "is_comps cs" "length cs \<le> Suc k" "cacheable S i cs"
  note inv = cache_okD(1) [OF old]
  note ext = map_of_folder_extend [OF new(2)]
  show "holds p (folder_extend m new) cs i"
  proof (cases "length cs = Suc k")
    case True
    from full [OF cs(1) True cs(3)] show ?thesis by (auto simp: holds_def ext)
  next
    case False
    then have "holds p m cs i" using cache_okD(3) [OF old cs(1) _ cs(3)] cs(2) by simp
    then obtain fid c where fc: "pi_lookup p (abs_path cs) = Some fid" "map_of m fid = Some c" "i \<in> set c"
      by (auto simp: holds_def)
    have "map_of new fid = None"
    proof (rule ccontr)
      assume "map_of new fid \<noteq> None"
      then obtain c' where "map_of new fid = Some c'" by blast
      from level_soundD [OF new(1) this] obtain ds
        where ds: "is_comps ds" "length ds = Suc k" "pi_lookup p (abs_path ds) = Some fid" by blast
      then have "ds = cs"
        using paths.find_inj [OF inv ds(3) fc(1)] abs_path_inj [OF ds(1) cs(1)] by simp
      with False ds(2) show False by simp
    qed
    with fc show ?thesis by (auto simp: holds_def ext)
  qed
qed


text \<open>A finished level names every source for every directory of its depth.\<close>

definition level_full :: "('r, 'f) mount_source list \<Rightarrow> nat \<Rightarrow> path_intern \<Rightarrow> folder_map \<Rightarrow> bool" where
  "level_full S k p m \<longleftrightarrow>
     (\<forall>cs i. is_comps cs \<longrightarrow> length cs = k \<longrightarrow> cacheable S i cs \<longrightarrow> holds p m cs i)"

lemma cacheable_parent:
  assumes "\<forall>s \<in> set S. tree_source b s" "is_comps (cs @ [c])" "cacheable S i (cs @ [c])"
  shows "cacheable S i cs"
  using assms tree_parent(1) [of b "S ! i" cs c] by (auto simp: cacheable_def has_dir_def)

lemma level_full_Suc:
  assumes trees: "\<forall>s \<in> set S. tree_source b s" and last: "level_full S k p0 m"
    and wk: "\<forall>(fid, c) \<in> set L. \<forall>cs. is_comps cs \<longrightarrow> pi_lookup p0 (abs_path cs) = Some fid \<longrightarrow> (\<forall>i \<in> set c. walked S w cs i)"
    and L: "set L = set m"
  shows "level_full S (Suc k) (cw_intern w) (cw_new w)"
  unfolding level_full_def
proof (intro allI impI)
  fix cs i assume cs: "is_comps cs" "length cs = Suc k" "cacheable S i cs"
  then obtain ds c where ds: "cs = ds @ [c]" "length ds = k"
    by (cases cs rule: rev_cases) auto
  then have "cacheable S i ds"
    using cacheable_parent [OF trees] cs by blast
  moreover have "is_comps ds" using cs(1) ds by simp
  ultimately have "holds p0 m ds i"
    using last ds(2) unfolding level_full_def by blast
  then obtain fid v where v: "pi_lookup p0 (abs_path ds) = Some fid" "map_of m fid = Some v" "i \<in> set v"
    unfolding holds_def by blast
  then have "(fid, v) \<in> set L" using L by (simp add: map_of_SomeD)
  with wk v(1,3) cs(1) ds have "walked S w ds i" by fastforce
  with cs ds show "holds (cw_intern w) (cw_new w) cs i" by (simp add: walked_def)
qed

lemma cache_levels_ok:
  assumes trees: "\<forall>s \<in> set S. tree_source b s" and iter: "\<And>m. mset (iter m) = mset m"
  shows "cache_ok S k (cw_intern w) cache \<Longrightarrow> length (strings (cw_intern w)) + cw_left w \<le> 2 ^ 32 \<Longrightarrow>
    level_sound S k (cw_intern w) last_level \<Longrightarrow> level_full S k (cw_intern w) last_level \<Longrightarrow>
    distinct (map fst last_level) \<Longrightarrow> cache \<noteq> [] \<Longrightarrow>
    \<exists>p' cache' k'. cache_levels timed_out iter S b w cache last_level k [Suc k..<m] = Some (p', cache', k')
      \<and> cache_ok S k' p' cache' \<and> cache' \<noteq> []"
proof (induction "m - k" arbitrary: k w cache last_level)
  case 0
  then show ?case by auto
next
  case (Suc n)
  show ?case
  proof (cases "Suc k < m")
    case False
    with Suc show ?thesis by auto
  next
    case True
    let ?w0 = "w\<lparr>cw_new := []\<rparr>"
    let ?p0 = "cw_intern w"
    have p0: "pi_inv ?p0" using cache_okD(1) [OF Suc.prems(1)] .
    have ok: "work_ok S (Suc k) ?w0"
      using p0 Suc.prems(2) by (simp add: work_ok_def level_sound_def)
    have start: "interns ?p0 (cw_intern ?w0)" by simp
    have L: "set (iter last_level) = set last_level"
      using iter by (metis set_mset_mset)
    have "\<forall>(fid, c) \<in> set (iter last_level). \<exists>cs. is_comps cs \<and> length cs = k \<and> pi_lookup ?p0 (abs_path cs) = Some fid
        \<and> (\<forall>i \<in> set c. cacheable S i cs)"
    proof (clarify, unfold L)
      fix fid c assume "(fid, c) \<in> set last_level"
      then have "map_of last_level fid = Some c" using Suc.prems(5) by simp
      from level_soundD [OF Suc.prems(3) this] show "\<exists>cs. is_comps cs \<and> length cs = k
          \<and> pi_lookup ?p0 (abs_path cs) = Some fid \<and> (\<forall>i \<in> set c. cacheable S i cs)" by blast
    qed
    from cache_folders_ok [OF trees p0 ok start this, of timed_out]
    obtain stop w1 where w1: "cache_folders timed_out S b ?w0 (iter last_level) = Some (stop, w1)"
        "work_ok S (Suc k) w1" "grows ?w0 w1"
        "\<not> stop \<longrightarrow> (\<forall>(fid, c) \<in> set (iter last_level). \<forall>cs. is_comps cs \<longrightarrow>
            pi_lookup ?p0 (abs_path cs) = Some fid \<longrightarrow> (\<forall>i \<in> set c. walked S w1 cs i))"
      by blast
    have w1': "pi_inv (cw_intern w1)" "level_sound S (Suc k) (cw_intern w1) (cw_new w1)" "distinct (map fst (cw_new w1))"
        "length (strings (cw_intern w1)) + cw_left w1 \<le> 2 ^ 32" "interns ?p0 (cw_intern w1)"
      using w1(2,3) by (simp_all add: work_ok_def grows_def)
    have keep: "cache_ok S k (cw_intern w1) cache"
      by (rule cache_ok_interns [OF Suc.prems(1) w1'(5,1)])
    have unfold: "cache_levels timed_out iter S b w cache last_level k [Suc k..<m] =
        (if stop \<or> cw_new w1 = [] then Some (cw_intern w1, cache, k)
         else cache_levels timed_out iter S b w1 (folder_extend cache (cw_new w1)) (cw_new w1) (Suc k) [Suc (Suc k)..<m])"
      using True w1(1) by (simp add: upt_conv_Cons)
    show ?thesis
    proof (cases "stop \<or> cw_new w1 = []")
      case True
      with keep Suc.prems(6) show ?thesis unfolding unfold by simp
    next
      case False
      then have full: "level_full S (Suc k) (cw_intern w1) (cw_new w1)"
        using level_full_Suc [OF trees Suc.prems(4) _ L] w1(4) by blast
      have ext: "cache_ok S (Suc k) (cw_intern w1) (folder_extend cache (cw_new w1))"
        using full by (intro cache_ok_extend [OF keep w1'(2,3)]) (simp add: level_full_def)
      have ne: "folder_extend cache (cw_new w1) \<noteq> []"
      proof -
        obtain f c l where "cw_new w1 = (f, c) # l" using False by (cases "cw_new w1") auto
        then have "map_of (cw_new w1) f = Some c" by simp
        then have "map_of (folder_extend cache (cw_new w1)) f = Some c"
          by (simp add: map_of_folder_extend [OF w1'(3)])
        then show ?thesis by auto
      qed
      show ?thesis
        unfolding unfold using False Suc.hyps(2) Suc.hyps(1) [OF _ ext w1'(4) w1'(2) full w1'(3) ne] by simp
    qed
  qed
qed

lemma new_with_options_ok:
  assumes trees: "\<forall>s \<in> set sources. tree_source (uo_resolve_symlinks opts) s"
    and iter: "\<And>m. mset (iter m) = mset m" and entries: "uo_max_cache_entries opts < 2 ^ 32"
  shows "\<exists>u. new_with_options timed_out iter sources opts = Some u \<and> um_sources u = sources
    \<and> um_resolve_symlinks u = uo_resolve_symlinks opts
    \<and> (length sources > 1 \<longrightarrow> um_folder_cache u \<noteq> [] \<and>
         cache_ok sources (um_folder_cache_depth u) (um_path_intern u) (um_folder_cache u))"
proof (cases "length sources > 1")
  case False
  then show ?thesis by (simp add: new_with_options_def Let_def)
next
  case True
  let ?root = "filter (\<lambda>i. ms_is_immutable (sources ! i)) [0..<length sources]"
  let ?p = "pi_new\<lparr>strings := [''/''], by_str := [(''/'', 0)]\<rparr>"
  have i: "pi_intern pi_new ''/'' = Some (0, ?p)"
    by (simp add: pi_intern_def pi_new_def)
  have inv: "pi_inv ?p"
    using pi_intern_ok [OF pi_new_inv, of "''/''"] i by (simp add: pi_new_def)
  have look: "pi_lookup ?p (abs_path []) = Some 0" by (simp add: pi_lookup_def)
  let ?w = "\<lparr>cw_intern = ?p, cw_left = uo_max_cache_entries opts, cw_new = [], cw_ticks = 0\<rparr>"
  have root: "\<forall>i \<in> set ?root. cacheable sources i []"
    by (auto simp: cacheable_def has_dir_def)
  have full: "level_full sources 0 ?p [(0, ?root)]"
    using look by (auto simp: level_full_def holds_def cacheable_def)
  have sound: "level_sound sources 0 ?p [(0, ?root)]"
    using root look by (auto simp: level_sound_def)
  have "cache_ok sources 0 ?p [(0, ?root)]"
    using inv root look full by (auto simp: cache_ok_def level_full_def)
  from cache_levels_ok [OF trees iter, of 0 ?w "[(0, ?root)]" "[(0, ?root)]"
      "timed_out (uo_max_seconds_to_cache opts)" "max (uo_max_cache_depth opts) 1"] this sound full entries
  obtain p' cache' k' where "cache_levels (timed_out (uo_max_seconds_to_cache opts)) iter sources (uo_resolve_symlinks opts)
      ?w [(0, ?root)] [(0, ?root)] 0 [1..<max (uo_max_cache_depth opts) 1] = Some (p', cache', k')"
      "cache_ok sources k' p' cache'" "cache' \<noteq> []"
    by auto
  then show ?thesis
    using True i by (simp add: new_with_options_def build_folder_cache_def Let_def)
qed


section \<open>Consulting the cache\<close>

lemma newest_hits_filter:
  "newest_hits S path (filter Q is) = filter (\<lambda>x. Q (fst x)) (newest_hits S path is)"
  by (induction "is") (auto split: option.splits)

lemma find_filter_keep: "(\<And>x. x \<in> set xs \<Longrightarrow> P x \<Longrightarrow> Q x) \<Longrightarrow> find P (filter Q xs) = find P xs"
  by (induction xs) auto

lemma pick_newest_filter:
  assumes "\<And>x. x \<in> set hits \<Longrightarrow> is_dir_mode (fi_mode (snd x)) \<Longrightarrow> Q x"
    and "(\<forall>x \<in> set hits. Q x) \<or> (\<exists>x \<in> set hits. is_dir_mode (fi_mode (snd x)))"
  shows "pick_newest (filter Q hits) = pick_newest hits"
proof -
  have f: "find (\<lambda>(si, fi). is_dir_mode (fi_mode fi)) (filter Q hits) = find (\<lambda>(si, fi). is_dir_mode (fi_mode fi)) hits"
    using assms(1) by (intro find_filter_keep) auto
  from assms(2) show ?thesis
  proof
    assume "\<forall>x \<in> set hits. Q x"
    then show ?thesis by simp
  next
    assume "\<exists>x \<in> set hits. is_dir_mode (fi_mode (snd x))"
    then obtain y where "find (\<lambda>(si, fi). is_dir_mode (fi_mode fi)) hits = Some y"
      by (metis (mono_tags, lifting) case_prod_beta find_None_iff not_None_eq)
    with f show ?thesis by (simp add: pick_newest_def)
  qed
qed

lemma holds_member:
  assumes "holds p m cs i" "pi_lookup p (abs_path cs) = Some fid" "map_of m fid = Some c"
  shows "i \<in> set c"
  using assms by (auto simp: holds_def)

lemma cached_sources_cases:
  assumes "cached_sources u path = Some c"
  obtains (own) fid where "pi_lookup (um_path_intern u) path = Some fid" "map_of (um_folder_cache u) fid = Some c"
  | (above) fid where "pi_lookup (um_path_intern u) (parent_at_depth path (um_folder_cache_depth u)) = Some fid"
      "map_of (um_folder_cache u) fid = Some c"
  using assms by (auto simp: cached_sources_def split: option.splits if_splits bind_splits)

lemma cache_prunes_safely:
  assumes trees: "\<forall>s \<in> set (um_sources u). tree_source b s"
    and ok: "cache_ok (um_sources u) (um_folder_cache_depth u) (um_path_intern u) (um_folder_cache u)"
    and cs: "is_comps cs" "cs \<noteq> []" and c: "cached_sources u (abs_path cs) = Some c"
  defines "hits \<equiv> newest_hits (um_sources u) (abs_path cs) (rev [0..<length (um_sources u)])"
    and "Q \<equiv> (\<lambda>i. \<not> ms_is_immutable (um_sources u ! i) \<or> i \<in> set c)"
  shows "pick_newest (filter (\<lambda>x. Q (fst x)) hits) = pick_newest hits"
proof -
  have all_hits: "fst x < length (um_sources u) \<and> ms_lookup (um_sources u ! fst x) (abs_path cs) 0 = Some (snd x)"
    if "x \<in> set hits" for x
    using that newest_hits_set [of "fst x" "snd x" "um_sources u" "abs_path cs" "rev [0..<length (um_sources u)]"]
    by (simp add: hits_def)
  from c show ?thesis
  proof (cases rule: cached_sources_cases)
    case (own fid)
    from cache_okD(2) [OF ok own(2)] obtain ds where ds: "is_comps ds" "length ds \<le> um_folder_cache_depth u"
        "pi_lookup (um_path_intern u) (abs_path ds) = Some fid" "ds \<noteq> [] \<longrightarrow> c \<noteq> []"
        "\<forall>i \<in> set c. cacheable (um_sources u) i ds"
      by blast
    have same: "ds = cs"
      by (rule abs_path_inj [OF ds(1) cs(1) paths.find_inj [OF cache_okD(1) [OF ok] ds(3) own(1)]])
    have depth: "length cs \<le> um_folder_cache_depth u" using ds(2) unfolding same .
    have ne: "c \<noteq> []" using ds(4) cs(2) unfolding same by simp
    have all: "\<forall>i \<in> set c. cacheable (um_sources u) i cs" using ds(5) unfolding same .
    show ?thesis
    proof (rule pick_newest_filter)
      fix x assume x: "x \<in> set hits" "is_dir_mode (fi_mode (snd x))"
      then have l: "fst x < length (um_sources u)" "ms_lookup (um_sources u ! fst x) (abs_path cs) 0 = Some (snd x)"
        using all_hits by blast+
      have "fst x \<in> set c" if "ms_is_immutable (um_sources u ! fst x)"
      proof (rule holds_member [OF _ own])
        show "holds (um_path_intern u) (um_folder_cache u) cs (fst x)"
          using l x(2) that by (intro cache_okD(3) [OF ok cs(1) depth]) (auto simp: cacheable_def has_dir_def)
      qed
      then show "Q (fst x)" by (auto simp: Q_def)
    next
      from ne obtain i where "i \<in> set c" by (cases c) auto
      with all cs(2) obtain fi where "i < length (um_sources u)"
          "ms_lookup (um_sources u ! i) (abs_path cs) 0 = Some fi" "is_dir_mode (fi_mode fi)"
        by (auto simp: cacheable_def has_dir_def)
      then have "(i, fi) \<in> set hits" "is_dir_mode (fi_mode (snd (i, fi)))"
        by (simp_all add: hits_def newest_hits_set)
      then show "(\<forall>x \<in> set hits. Q (fst x)) \<or> (\<exists>x \<in> set hits. is_dir_mode (fi_mode (snd x)))" by blast
    qed
  next
    case (above fid)
    define k where "k = min (um_folder_cache_depth u) (length cs - 1)"
    have k: "k < length cs" "k \<le> um_folder_cache_depth u"
      using cs(2) by (cases cs; auto simp: k_def)+
    have key: "pi_lookup (um_path_intern u) (abs_path (take k cs)) = Some fid"
      using above(1) cs(1) by (simp add: parent_at_depth_abs k_def)
    have "Q (fst x)" if x: "x \<in> set hits" for x
    proof -
      have l: "fst x < length (um_sources u)" "ms_lookup (um_sources u ! fst x) (abs_path cs) 0 = Some (snd x)"
        using x all_hits by blast+
      have t: "tree_source b (um_sources u ! fst x)" using trees l(1) by simp
      have "fst x \<in> set c" if "ms_is_immutable (um_sources u ! fst x)"
      proof (rule holds_member [OF _ key above(2)])
        show "holds (um_path_intern u) (um_folder_cache u) (take k cs) (fst x)"
          using l that k cs(1) tree_ancestor [OF t cs(1) _ k(1)]
          by (intro cache_okD(3) [OF ok]) (auto simp: cacheable_def)
      qed
      then show ?thesis by (auto simp: Q_def)
    qed
    then have "filter (\<lambda>x. Q (fst x)) hits = hits" by (simp add: filter_id_conv)
    then show ?thesis by simp
  qed
qed


lemma lookup_pruned:
  assumes "pick_newest (newest_hits (um_sources u) path (rev idxs)) =
    pick_newest (newest_hits (um_sources u) path (rev idxs'))"
  shows "lookup_in u idxs path 0 = lookup_in u idxs' path 0"
  by (simp add: lookup_in_newest assms)

lemma sources_for_path_pick:
  assumes trees: "\<forall>s \<in> set (um_sources u). tree_source b s"
    and ok: "length (um_sources u) > 1 \<longrightarrow>
      cache_ok (um_sources u) (um_folder_cache_depth u) (um_path_intern u) (um_folder_cache u)"
    and cs: "is_comps cs" "cs \<noteq> []"
  shows "pick_newest (newest_hits (um_sources u) (abs_path cs) (rev (sources_for_path u (abs_path cs)))) =
    pick_newest (newest_hits (um_sources u) (abs_path cs) (rev [0..<length (um_sources u)]))"
proof (cases "length (um_sources u) \<le> 1 \<or> um_folder_cache u = [] \<or> cached_sources u (abs_path cs) = None")
  case True
  then have "sources_for_path u (abs_path cs) = [0..<length (um_sources u)]"
    by (auto simp: sources_for_path_def Let_def)
  then show ?thesis by simp
next
  case False
  then obtain c where c: "cached_sources u (abs_path cs) = Some c" by blast
  let ?Q = "\<lambda>i. \<not> ms_is_immutable (um_sources u ! i) \<or> i \<in> set c"
  let ?out = "filter ?Q [0..<length (um_sources u)]"
  show ?thesis
  proof (cases "?out = []")
    case True
    with c show ?thesis by (simp add: sources_for_path_def Let_def)
  next
    case out: False
    have "sources_for_path u (abs_path cs) = ?out"
      using False c out unfolding sources_for_path_def Let_def c by simp
    moreover have "pick_newest (newest_hits (um_sources u) (abs_path cs) (filter ?Q (rev [0..<length (um_sources u)]))) =
        pick_newest (newest_hits (um_sources u) (abs_path cs) (rev [0..<length (um_sources u)]))"
      unfolding newest_hits_filter using False ok
      by (intro cache_prunes_safely [OF trees _ cs c]) simp
    ultimately show ?thesis by (simp add: rev_filter)
  qed
qed

section \<open>Properties\<close>



text \<open>A source with one directory and one file in it.\<close>

definition dir_file_source :: "string \<Rightarrow> (string, unit) mount_source" where
  "dir_file_source f =
     flat_source [(''/d'', plain_info S_IFDIR []), (''/d/'' @ f, plain_info S_IFREG f)]
       (\<lambda>p. if p = ''/'' then Some [\<lparr>cd_name = ''d'', cd_mode = S_IFDIR, cd_size = 0\<rparr>]
            else if p = ''/d'' then Some [\<lparr>cd_name = f, cd_mode = S_IFREG, cd_size = 0\<rparr>] else None)"

lemma abs_path_eq_iff: "is_comps cs \<Longrightarrow> is_comps ds \<Longrightarrow> abs_path cs = abs_path ds \<longleftrightarrow> cs = ds"
  using abs_path_inj by blast

lemma dir_file_tree:
  assumes "is_comp f"
  shows "tree_source b (dir_file_source f)"
proof -
  have d: "is_comp ''d''" by (simp add: is_comp_def)
  then have p: "''/'' = abs_path []" "''/d'' = abs_path [''d'']" "''/d/'' @ f = abs_path [''d'', f]"
    by (simp_all add: abs_path_def)
  have root: "abs_path cs = ''/'' \<longleftrightarrow> cs = []" if "is_comps cs" for cs
    using that by simp
  have dir: "abs_path cs = ''/d'' \<longleftrightarrow> cs = [''d'']" if "is_comps cs" for cs
    using abs_path_eq_iff [OF that, of "[''d'']"] d by (simp only: p(2) is_comps_simps simp_thms True_implies_equals)
  have leaf: "abs_path cs = ''/d/'' @ f \<longleftrightarrow> cs = [''d'', f]" if "is_comps cs" for cs
    using abs_path_eq_iff [OF that, of "[''d'', f]"] d assms
    by (simp only: p(3) is_comps_simps simp_thms True_implies_equals)
  note eqs = root dir leaf [unfolded append_Cons append_Nil]
  have m: "\<not> is_lnk_mode S_IFDIR" "\<not> is_lnk_mode S_IFREG" "is_dir_mode S_IFDIR"
    by code_simp+
  have lk: "ms_lookup (dir_file_source f) (abs_path cs) 0 =
      (if cs = [''d''] then Some (plain_info S_IFDIR []) else if cs = [''d'', f] then Some (plain_info S_IFREG f) else None)"
    if "is_comps cs" for cs
    using that by (simp add: dir_file_source_def flat_source_def eqs)
  have ls: "ms_list_dirents (dir_file_source f) (abs_path cs) =
      (if cs = [] then Some [\<lparr>cd_name = ''d'', cd_mode = S_IFDIR, cd_size = 0\<rparr>]
       else if cs = [''d''] then Some [\<lparr>cd_name = f, cd_mode = S_IFREG, cd_size = 0\<rparr>] else None)"
    if "is_comps cs" for cs
    using that by (simp add: dir_file_source_def flat_source_def eqs)
  show ?thesis
    unfolding tree_source_def
    using d m assms lk [of "[''d'']"]
    by (intro conjI allI impI) (auto simp: lk ls plain_info_def split: if_splits)
qed


end
