(* ===== verification/Union_Listing.thy ===== *)
theory Union_Listing
  imports Union_Cache
begin

text \<open>
  Merged listings of the union against its lookups: what a directory listing shows for a name is what
  looking the name up gives, as long as no source puts a regular file over a directory of a source
  to its left; and an example of the disagreement where one does.
\<close>

section \<open>Merging one name\<close>

definition merge_entry :: "file_info option \<Rightarrow> file_info \<Rightarrow> file_info" where
  "merge_entry old new =
     (case old of
        Some e \<Rightarrow> (if is_dir_mode (fi_mode e) \<and> is_lnk_mode (fi_mode new) then e else new)
      | None \<Rightarrow> new)"

lemma map_of_merge_list_entry:
  "bt_sorted m \<Longrightarrow> map_of (merge_list_entry m k v) c = (if c = k then Some (merge_entry (map_of m k) v) else map_of m c)"
  and merge_list_entry_sorted: "bt_sorted m \<Longrightarrow> bt_sorted (merge_list_entry m k v)"
  by (auto simp: merge_list_entry_def merge_entry_def split: option.splits)

lemma merge_listing:
  "bt_sorted m \<Longrightarrow> distinct (map fst l) \<Longrightarrow>
   bt_sorted (foldl (\<lambda>m (k, v). merge_list_entry m k (tag_source v si)) m l) \<and>
   map_of (foldl (\<lambda>m (k, v). merge_list_entry m k (tag_source v si)) m l) c =
     (case map_of l c of
        None \<Rightarrow> map_of m c
      | Some v \<Rightarrow> Some (merge_entry (map_of m c) (tag_source v si)))"
proof (induction l rule: rev_induct)
  case (snoc x l)
  then have "map_of l (fst x) = None" by (simp add: map_of_eq_None_iff)
  with snoc show ?case
    by (cases x) (auto simp: map_of_merge_list_entry merge_list_entry_sorted map_add_def split: option.splits)
qed simp

section \<open>Sources that list their children\<close>

definition lists_children :: "bool \<Rightarrow> ('r, 'f) mount_source \<Rightarrow> string list \<Rightarrow> bool" where
  "lists_children b s cs \<longleftrightarrow>
     (case list_from_source s (abs_path cs) b of
        None \<Rightarrow> \<forall>c. is_comp c \<longrightarrow> ms_lookup s (abs_path (cs @ [c])) 0 = None
      | Some l \<Rightarrow> distinct (map fst (listed_infos s (abs_path cs) l))
          \<and> (\<forall>c. is_comp c \<longrightarrow> map_of (listed_infos s (abs_path cs) l) c = ms_lookup s (abs_path (cs @ [c])) 0))"

text \<open>No regular file stands over a directory of a source to the left.\<close>

definition no_file_over_dir :: "('r, 'f) mount_source list \<Rightarrow> string \<Rightarrow> bool" where
  "no_file_over_dir S path \<longleftrightarrow>
     (\<forall>i j fi fj. i < j \<longrightarrow> j < length S \<longrightarrow> ms_lookup (S ! i) path 0 = Some fi \<longrightarrow>
        ms_lookup (S ! j) path 0 = Some fj \<longrightarrow> is_dir_mode (fi_mode fi) \<longrightarrow>
        is_dir_mode (fi_mode fj) \<or> is_lnk_mode (fi_mode fj))"

lemma pick_newest_Cons:
  "pick_newest (x # hits) =
     (if is_dir_mode (fi_mode (snd x)) \<or> \<not> (\<exists>y \<in> set hits. is_dir_mode (fi_mode (snd y)))
      then Some x else pick_newest hits)"
proof -
  have "find (\<lambda>(si, fi). is_dir_mode (fi_mode fi)) hits = None \<longleftrightarrow> \<not> (\<exists>y \<in> set hits. is_dir_mode (fi_mode (snd y)))"
    by (auto simp: find_None_iff)
  then show ?thesis
    by (cases x) (auto simp: pick_newest_def split: option.splits)
qed

lemma pick_newest_dir:
  "\<exists>y \<in> set hits. is_dir_mode (fi_mode (snd y)) \<Longrightarrow> \<exists>y. pick_newest hits = Some y \<and> is_dir_mode (fi_mode (snd y))"
  by (induction hits) (auto simp: pick_newest_Cons)

definition tagged :: "(nat \<times> file_info) option \<Rightarrow> file_info option" where
  "tagged x = map_option (\<lambda>(si, fi). tag_source fi si) x"

lemma merge_pick:
  assumes "\<exists>y \<in> set hits. is_dir_mode (fi_mode (snd y)) \<Longrightarrow> is_dir_mode (fi_mode fi) \<or> is_lnk_mode (fi_mode fi)"
  shows "Some (merge_entry (tagged (pick_newest hits)) (tag_source fi si)) = tagged (pick_newest ((si, fi) # hits))"
proof (cases "\<exists>y \<in> set hits. is_dir_mode (fi_mode (snd y))")
  case True
  then obtain y where y: "pick_newest hits = Some y" "is_dir_mode (fi_mode (snd y))"
    using pick_newest_dir by blast
  then show ?thesis
    using True assms dir_not_lnk by (auto simp: pick_newest_Cons merge_entry_def tagged_def case_prod_unfold)
next
  case False
  then have "\<not> is_dir_mode (fi_mode e)" if "tagged (pick_newest hits) = Some e" for e
    using that pick_newest_in [of hits] by (force simp: tagged_def)
  with False show ?thesis
    by (auto simp: pick_newest_Cons merge_entry_def tagged_def split: option.splits)
qed

lemma list_fold:
  assumes "\<forall>s \<in> set (um_sources u). lists_children (um_resolve_symlinks u) s cs" "is_comps cs" "is_comp c"
    and "no_file_over_dir (um_sources u) (abs_path (cs @ [c]))"
  shows "j \<le> length (um_sources u) \<Longrightarrow>
    (case foldl (list_step u (abs_path cs)) None [0..<j] of
       None \<Rightarrow> newest_hits (um_sources u) (abs_path (cs @ [c])) (rev [0..<j]) = []
     | Some m \<Rightarrow> bt_sorted m \<and>
         map_of m c = tagged (pick_newest (newest_hits (um_sources u) (abs_path (cs @ [c])) (rev [0..<j]))))"
proof (induction j)
  case (Suc j)
  let ?S = "um_sources u"
  let ?p = "abs_path (cs @ [c])"
  let ?hits = "newest_hits ?S ?p (rev [0..<j])"
  have j: "j < length ?S" using Suc.prems by simp
  define acc where "acc = foldl (list_step u (abs_path cs)) None [0..<j]"
  have IH: "case acc of None \<Rightarrow> ?hits = [] | Some m \<Rightarrow> bt_sorted m \<and> map_of m c = tagged (pick_newest ?hits)"
    using Suc by (simp add: acc_def)
  have base: "bt_sorted (case acc of None \<Rightarrow> [] | Some m \<Rightarrow> m)"
      "map_of (case acc of None \<Rightarrow> [] | Some m \<Rightarrow> m) c = tagged (pick_newest ?hits)"
    using IH by (auto simp: tagged_def pick_newest_def split: option.splits)
  have lc: "lists_children (um_resolve_symlinks u) (?S ! j) cs"
    using assms(1) j by simp
  have mix: "is_dir_mode (fi_mode fi) \<or> is_lnk_mode (fi_mode fi)"
    if "\<exists>y \<in> set ?hits. is_dir_mode (fi_mode (snd y))" "ms_lookup (?S ! j) ?p 0 = Some fi" for fi
    using that j assms(4) unfolding no_file_over_dir_def by (force simp: newest_hits_set)
  have step: "foldl (list_step u (abs_path cs)) None [0..<Suc j] = list_step u (abs_path cs) acc j"
    by (simp add: acc_def)
  have hits: "newest_hits ?S ?p (rev [0..<Suc j]) =
      (case ms_lookup (?S ! j) ?p 0 of None \<Rightarrow> [] | Some fi \<Rightarrow> [(j, fi)]) @ ?hits"
    by simp
  show ?case
  proof (cases "list_from_source (?S ! j) (abs_path cs) (um_resolve_symlinks u)")
    case None
    with lc assms(3) have "ms_lookup (?S ! j) ?p 0 = None" by (simp add: lists_children_def)
    with None IH show ?thesis unfolding step hits by (cases acc) (simp_all add: list_step_def)
  next
    case (Some l)
    let ?l = "listed_infos (?S ! j) (abs_path cs) l"
    have l: "distinct (map fst ?l)" "map_of ?l c = ms_lookup (?S ! j) ?p 0"
      using lc Some assms(3) by (simp_all add: lists_children_def)
    note r = merge_listing [OF base(1) l(1), of j c, unfolded base(2) l(2)]
    have "(case ms_lookup (?S ! j) ?p 0 of None \<Rightarrow> tagged (pick_newest ?hits)
        | Some v \<Rightarrow> Some (merge_entry (tagged (pick_newest ?hits)) (tag_source v j))) =
        tagged (pick_newest ((case ms_lookup (?S ! j) ?p 0 of None \<Rightarrow> [] | Some fi \<Rightarrow> [(j, fi)]) @ ?hits))"
    proof (cases "ms_lookup (?S ! j) ?p 0")
      case (Some fi)
      have "Some (merge_entry (tagged (pick_newest ?hits)) (tag_source fi j)) = tagged (pick_newest ((j, fi) # ?hits))"
        by (rule merge_pick) (rule mix [OF _ Some])
      with Some show ?thesis by simp
    qed simp
    with r show ?thesis
      unfolding step hits by (simp add: list_step_def Some)
  qed
qed simp


section \<open>Properties\<close>


text \<open>A source given by the infos of its root directory.\<close>

definition root_source :: "(string \<times> file_info) list \<Rightarrow> (string, unit) mount_source" where
  "root_source es =
     (flat_source (map (\<lambda>(n, fi). (''/'' @ n, fi)) es) (\<lambda>p. None))
       \<lparr>ms_list := (\<lambda>p. if p = ''/'' then Some (Infos es) else None)\<rparr>"

lemma root_source_lists:
  assumes "distinct (map fst es)"
  shows "lists_children b (root_source es) []"
proof -
  have "map_of (map (\<lambda>(n, fi). (CHR ''/'' # n, fi)) es) (CHR ''/'' # c) = map_of es c" for c
    by (induction es) auto
  then show ?thesis
    using assms
    by (simp add: lists_children_def list_from_source_def follow_symlink_then_def root_source_def flat_source_def)
qed

definition plain_union :: "('r, 'f) mount_source list \<Rightarrow> ('r, 'f) union_mount" where
  "plain_union srcs = \<lparr>um_sources = srcs, um_path_intern = pi_new, um_folder_cache = [],
     um_folder_cache_depth = 0, um_resolve_symlinks = False\<rparr>"


text \<open>
  Without that condition they disagree: with a directory on the left and a regular file of the same
  name on the right, the listing shows the file and the lookup finds the directory.
\<close>

lemma union_file_over_dir_disagrees:
  "union_list (plain_union [root_source [(''d'', plain_info S_IFDIR [])], root_source [(''d'', plain_info S_IFREG ''x'')]]) ''/''
     = Some (Infos [(''d'', tag_source (plain_info S_IFREG ''x'') 1)])"
  "union_lookup \<lparr>euid = 0, egid = 0\<rparr>
     (plain_union [root_source [(''d'', plain_info S_IFDIR [])], root_source [(''d'', plain_info S_IFREG ''x'')]]) ''/d'' 0
     = Some (tag_source (plain_info S_IFDIR []) 0)"
  by code_simp+

text \<open>
  The tree condition of the cache is needed too: a symlink to a directory on the left makes the cache
  forget a regular file on the right.
\<close>

definition link_source :: "(string, unit) mount_source" where
  "link_source =
     flat_source [(''/x'', plain_info S_IFLNK ''d''), (''/d'', plain_info S_IFDIR [])]
       (\<lambda>p. if p = ''/'' then Some [\<lparr>cd_name = ''d'', cd_mode = S_IFDIR, cd_size = 0\<rparr>, \<lparr>cd_name = ''x'', cd_mode = S_IFLNK, cd_size = 0\<rparr>]
            else if p = ''/d'' then Some [] else None)"

definition file_source :: "(string, unit) mount_source" where
  "file_source =
     flat_source [(''/x'', plain_info S_IFREG [])]
       (\<lambda>p. if p = ''/'' then Some [\<lparr>cd_name = ''x'', cd_mode = S_IFREG, cd_size = 0\<rparr>] else None)"

lemma cache_forgets_file:
  "map_option (\<lambda>u. union_lookup \<lparr>euid = 0, egid = 0\<rparr> u ''/x'' 0)
     (new_with_options (\<lambda>limit n. False) (\<lambda>m. m) [link_source, file_source]
        (union_options_default\<lparr>uo_max_cache_depth := 2\<rparr>))
   = Some (Some (tag_source (plain_info S_IFLNK ''d'') 0))"
  "union_lookup \<lparr>euid = 0, egid = 0\<rparr> (plain_union [link_source, file_source]) ''/x'' 0
   = Some (tag_source (plain_info S_IFREG []) 1)"
  by code_simp+

end
