(* ===== verification/Prefix_Mount.thy ===== *)
theory Prefix_Mount
  imports Union_Mount
begin

text \<open>
  Mounting a source below a path prefix (\<open>PrefixMountSource\<close>) and the \<open>--bind\<close> argument that asks for
  it, from \<open>ratarmount-compositing/src/prefix.rs\<close>.
\<close>

section \<open>Bind arguments\<close>

record source_bind =
  sb_mount_path :: string
  sb_source :: string

datatype bind_error = MissingEquals | InvalidMountPath string | EmptySource

definition validate_mount_path :: "string \<Rightarrow> bind_error + unit" where
  "validate_mount_path path =
     (if \<not> starts_with path ''/'' \<or> CHR 0x00 \<in> set path
         \<or> list_ex (\<lambda>part. part = ''.'' \<or> part = ''..'') (split_on CHR ''/'' path)
      then Inl (InvalidMountPath path) else Inr ())"

definition source_bind_from_str :: "string \<Rightarrow> bind_error + source_bind" where
  "source_bind_from_str value =
     (case split_once CHR ''='' value of
        None \<Rightarrow> Inl MissingEquals
      | Some (mount_path, source) \<Rightarrow>
          (case validate_mount_path mount_path of
             Inl e \<Rightarrow> Inl e
           | Inr _ \<Rightarrow>
               (if source = [] then Inl EmptySource
                else Inr \<lparr>sb_mount_path = normpath mount_path, sb_source = source\<rparr>)))"

section \<open>The mount source\<close>

record ('r, 'f) prefix_mount =
  pm_prefix :: string
  pm_inner :: "('r, 'f) mount_source"

definition prefix_new :: "string \<Rightarrow> ('r, 'f) mount_source \<Rightarrow> ('r, 'f) prefix_mount" where
  "prefix_new pre inner =
     (let normalized = normpath pre; p = trim_matches CHR ''/'' normalized
      in \<lparr>pm_prefix = (if p = [] then [] else ''/'' @ p), pm_inner = inner\<rparr>)"

definition next_component :: "('r, 'f) prefix_mount \<Rightarrow> string \<Rightarrow> string option" where
  "next_component m path =
     (let parent = (if path = ''/'' then ''/'' else path @ ''/'')
      in map_option (\<lambda>rest. hd (split_on CHR ''/'' rest)) (strip_prefix (pm_prefix m) parent))"

definition prefix_strip :: "('r, 'f) prefix_mount \<Rightarrow> string \<Rightarrow> string option" where
  "prefix_strip m path0 =
     (if pm_prefix m = [] then Some (normpath path0)
      else let path = normpath path0 in
        if path = pm_prefix m then Some ''/''
        else case strip_prefix path (pm_prefix m @ ''/'') of
          Some rest \<Rightarrow> Some (''/'' @ rest)
        | None \<Rightarrow> None)"

definition prefix_list :: "host_env \<Rightarrow> ('r, 'f) prefix_mount \<Rightarrow> string \<Rightarrow> list_result option" where
  "prefix_list env m path0 =
     (let path = normpath path0 in
      if pm_prefix m = [] then ms_list (pm_inner m) path
      else case next_component m path of
        Some name \<Rightarrow> Some (Infos [(name, create_root_file_info env)])
      | None \<Rightarrow> Option.bind (prefix_strip m path) (ms_list (pm_inner m)))"

definition prefix_list_dirents :: "('r, 'f) prefix_mount \<Rightarrow> string \<Rightarrow> cheap_dirent list option" where
  "prefix_list_dirents m path0 =
     (let path = normpath path0 in
      if pm_prefix m = [] then ms_list_dirents (pm_inner m) path
      else case next_component m path of
        Some name \<Rightarrow> Some [\<lparr>cd_name = name, cd_mode = S_IFDIR OR 0x1ED, cd_size = 0\<rparr>]
      | None \<Rightarrow> Option.bind (prefix_strip m path) (ms_list_dirents (pm_inner m)))"

definition prefix_search_cheap :: "('r, 'f) prefix_mount \<Rightarrow> string \<Rightarrow> cheap_search_hit list option" where
  "prefix_search_cheap m pattern =
     (if starts_with pattern ''fts:'' then None else ms_search_cheap (pm_inner m) pattern)"

definition prefix_list_mode :: "('r, 'f) prefix_mount \<Rightarrow> string \<Rightarrow> list_mode_result option" where
  "prefix_list_mode m path =
     map_option (\<lambda>dents. Modes (bt_collect cd_name cd_mode dents)) (prefix_list_dirents m path)"

definition synthetic_dir :: "host_env \<Rightarrow> file_info" where
  "synthetic_dir env =
     \<lparr>fi_size = 0, fi_mtime = 0, fi_mode = S_IFDIR OR 0x1ED, fi_linkname = [], fi_uid = euid env,
      fi_gid = egid env, fi_userdata = []\<rparr>"

definition prefix_lookup :: "host_env \<Rightarrow> ('r, 'f) prefix_mount \<Rightarrow> string \<Rightarrow> i32 \<Rightarrow> file_info option" where
  "prefix_lookup env m path0 file_version =
     (let path = normpath path0 in
      if path = ''/'' then Some (create_root_file_info env)
      else if pm_prefix m = [] then ms_lookup (pm_inner m) path file_version
      else if path = pm_prefix m \<or> next_component m path \<noteq> None then Some (synthetic_dir env)
      else Option.bind (prefix_strip m path) (\<lambda>inner_path. ms_lookup (pm_inner m) inner_path file_version))"

definition prefix_versions :: "('r, 'f) prefix_mount \<Rightarrow> string \<Rightarrow> u32" where
  "prefix_versions m path0 =
     (let path = normpath path0 in
      if next_component m path \<noteq> None then 1
      else case prefix_strip m path of
        Some inner \<Rightarrow> ms_versions (pm_inner m) inner
      | None \<Rightarrow> 0)"

definition prefix_source :: "host_env \<Rightarrow> ('r, 'f) prefix_mount \<Rightarrow> ('r, 'f) mount_source" where
  "prefix_source env m =
     \<lparr>ms_list = prefix_list env m, ms_list_mode = prefix_list_mode m, ms_list_dirents = prefix_list_dirents m,
      ms_lookup = prefix_lookup env m, ms_search_cheap = prefix_search_cheap m,
      ms_open = ms_open (pm_inner m),
      ms_supports_backing_extents = ms_supports_backing_extents (pm_inner m),
      ms_backing_extent = ms_backing_extent (pm_inner m),
      ms_member_seek_is_cheap = ms_member_seek_is_cheap (pm_inner m),
      ms_content_generation = ms_content_generation (pm_inner m), ms_versions = prefix_versions m,
      ms_statfs = statfs_default, ms_is_immutable = ms_is_immutable (pm_inner m),
      ms_list_xattr = ms_list_xattr (pm_inner m), ms_get_xattr = ms_get_xattr (pm_inner m)\<rparr>"

section \<open>Relocation\<close>

lemma strip_prefix_abs:
  assumes "is_comps ms" "is_comps ps" "ms \<noteq> [] \<or> ps \<noteq> []"
  shows "strip_prefix (abs_path ps) (if ms = [] then ''/'' else abs_path ms @ ''/'') =
    (if strict_prefix ms ps then Some (join_with ''/'' (drop (length ms) ps)) else None)"
proof (cases "strict_prefix ms ps")
  case True
  then obtain r where r: "ps = ms @ r" "r \<noteq> []"
    by (auto simp: strict_prefix_def prefix_def)
  then show ?thesis
    using True by (auto simp: strip_prefix_def abs_path_def join_with_append starts_with_def)
next
  case False
  have "\<not> starts_with (abs_path ps) (if ms = [] then ''/'' else abs_path ms @ ''/'')" if "ps \<noteq> []"
  proof
    assume st: "starts_with (abs_path ps) (if ms = [] then ''/'' else abs_path ms @ ''/'')"
    have ne: "ms \<noteq> []" using False that by (auto simp: strict_prefix_def)
    with st obtain r where r: "abs_path ps = abs_path ms @ CHR ''/'' # r"
      by (auto simp: starts_with_iff_prefix prefix_def)
    then have "path_is_self_or_descendant (abs_path ps) (abs_path ms)" "abs_path ps \<noteq> abs_path ms"
      by (auto simp: path_is_self_or_descendant_alt)
    with ne assms have "prefix ms ps" "ms \<noteq> ps"
      by (auto simp: path_is_self_or_descendant_abs)
    with False show False by (simp add: strict_prefix_def)
  qed
  then show ?thesis using False assms
    by (cases "ps = []") (auto simp: strip_prefix_def abs_path_def starts_with_def)
qed

lemma join_with_ends: "is_comps cs \<Longrightarrow> cs \<noteq> [] \<Longrightarrow> join_with ''/'' cs \<noteq> [] \<and> last (join_with ''/'' cs) \<noteq> CHR ''/''"
  by (induction cs rule: induct_list012) (auto simp: is_comp_def dest: last_in_set)

lemma trim_matches_abs:
  assumes "is_comps cs"
  shows "trim_matches CHR ''/'' (abs_path cs) = join_with ''/'' cs"
proof (cases cs)
  case Nil
  then show ?thesis by (simp add: trim_matches_def trim_start_matches_def trim_end_matches_def)
next
  case (Cons c ds)
  with assms have "join_with ''/'' cs \<noteq> []" "last (join_with ''/'' cs) \<noteq> CHR ''/''"
    using join_with_ends [of cs] by auto
  then have "dropWhile (\<lambda>x. x = CHR ''/'') (rev (join_with ''/'' cs)) = rev (join_with ''/'' cs)"
    by (simp add: dropWhile_eq_self_iff hd_rev)
  with assms Cons abs_path_trim [of c ds] show ?thesis
    by (simp add: trim_matches_def trim_end_matches_def)
qed

lemma pm_prefix_new: "pm_prefix (prefix_new pre inner) = (if components pre = [] then [] else abs_path (components pre))"
  and pm_inner_new: "pm_inner (prefix_new pre inner) = inner"
  using join_with_ends [of "components pre"]
  by (auto simp: prefix_new_def normpath_abs trim_matches_abs Let_def) (simp_all add: abs_path_def)

lemma next_component_new:
  assumes cs: "is_comps cs"
  shows "next_component (prefix_new pre inner) (abs_path cs) =
    (if strict_prefix cs (components pre) then Some (components pre ! length cs) else None)"
proof (cases "components pre = []")
  case True
  then show ?thesis
    by (auto simp: next_component_def pm_prefix_new strip_prefix_def starts_with_def abs_path_def)
next
  case False
  let ?ps = "components pre"
  have "hd (split_on CHR ''/'' (join_with ''/'' (drop (length cs) ?ps))) = ?ps ! length cs"
    if "strict_prefix cs ?ps"
  proof -
    from that have l: "length cs < length ?ps" by (rule prefix_length_less)
    then have "split_on CHR ''/'' (join_with ''/'' (drop (length cs) ?ps)) = drop (length cs) ?ps"
      using components_is_comps [of pre]
      by (intro split_on_join) (auto simp: is_comp_def is_comps_def list_all_iff dest: in_set_dropD)
    with l show ?thesis by (simp add: hd_drop_conv_nth)
  qed
  with False cs strip_prefix_abs [of cs ?ps] show ?thesis
    by (cases "cs = []") (auto simp: next_component_def pm_prefix_new Let_def)
qed

lemma prefix_strip_new:
  assumes cs: "is_comps cs"
  shows "prefix_strip (prefix_new pre inner) (abs_path cs) =
    (if prefix (components pre) cs then Some (abs_path (drop (length (components pre)) cs)) else None)"
proof (cases "components pre = []")
  case True
  with cs show ?thesis by (simp add: prefix_strip_def pm_prefix_new path_simps)
next
  case False
  let ?ps = "components pre"
  have eq: "prefix_strip (prefix_new pre inner) (abs_path cs) =
      (if cs = ?ps then Some ''/''
       else map_option ((@) ''/'') (strip_prefix (abs_path cs) (abs_path ?ps @ ''/'')))"
    using False cs by (auto simp: prefix_strip_def pm_prefix_new normpath_abs components_abs_path Let_def
        dest: abs_path_inj split: option.splits)
  have "drop (length ?ps) cs \<noteq> []" if "strict_prefix ?ps cs"
    using prefix_length_less [OF that] by simp
  then show ?thesis
    using False cs strip_prefix_abs [of ?ps cs] unfolding eq
    by (auto simp: strict_prefix_def abs_path_def [of "drop n cs" for n])
qed

text \<open>C24: Mounting a source under a prefix relocates it exactly: with \<open>ps\<close> the components of the prefix
  and \<open>cs\<close> those of the path asked for, the root and every directory on the way down to the prefix
  are synthetic directories with the next component as their only entry, a path below the prefix is
  answered by the inner source at the path with the prefix removed, for lookups, listings and version
  counts alike, and every other path does not exist.\<close>

theorem prefix_mount_relocates:
  "let m = prefix_new pre inner; ps = components pre; cs = components path;
       rest = abs_path (drop (length ps) cs) in
     prefix_lookup env m path v =
       (if cs = [] then Some (create_root_file_info env)
        else if prefix cs ps then Some (synthetic_dir env)
        else if prefix ps cs then ms_lookup inner rest v else None) \<and>
     prefix_list_dirents m path =
       (if strict_prefix cs ps then Some [\<lparr>cd_name = ps ! length cs, cd_mode = S_IFDIR OR 0x1ED, cd_size = 0\<rparr>]
        else if prefix ps cs then ms_list_dirents inner rest else None) \<and>
     prefix_list env m path =
       (if strict_prefix cs ps then Some (Infos [(ps ! length cs, create_root_file_info env)])
        else if prefix ps cs then ms_list inner rest else None) \<and>
     prefix_versions m path =
       (if strict_prefix cs ps then 1 else if prefix ps cs then ms_versions inner rest else 0)"
proof -
  let ?m = "prefix_new pre inner" and ?ps = "components pre" and ?cs = "components path"
  have nc: "next_component ?m (normpath path) = (if strict_prefix ?cs ?ps then Some (?ps ! length ?cs) else None)"
    by (simp add: next_component_new normpath_abs)
  have st: "prefix_strip ?m (normpath path) =
      (if prefix ?ps ?cs then Some (abs_path (drop (length ?ps) ?cs)) else None)"
    by (simp add: prefix_strip_new normpath_abs)
  have root: "normpath path = ''/'' \<longleftrightarrow> ?cs = []"
    by (simp add: normpath_abs)
  have pf: "?ps \<noteq> [] \<Longrightarrow> normpath path = abs_path ?ps \<longleftrightarrow> ?cs = ?ps"
    by (auto simp: normpath_abs dest: abs_path_inj [rotated 2])
  have np: "?ps = [] \<Longrightarrow> normpath path = abs_path (drop (length ?ps) ?cs)"
    by (simp add: normpath_abs)
  have lk: "prefix_lookup env ?m path v =
       (if ?cs = [] then Some (create_root_file_info env)
        else if prefix ?cs ?ps then Some (synthetic_dir env)
        else if prefix ?ps ?cs then ms_lookup inner (abs_path (drop (length ?ps) ?cs)) v else None)"
    unfolding prefix_lookup_def Let_def root nc st pm_inner_new
    by (cases "?ps = []") (auto simp: pm_prefix_new pf np strict_prefix_def)
  show ?thesis
    unfolding Let_def lk prefix_list_def prefix_list_dirents_def prefix_versions_def nc st pm_inner_new
    by (cases "?ps = []") (auto simp: pm_prefix_new np strict_prefix_def)
qed

end
