(* ===== verification/Version_Layer.thy ===== *)
theory Version_Layer
  imports Union_Mount
begin

text \<open>
  Older versions of a file below a virtual \<open>.versions\<close> directory (\<open>FileVersionLayer\<close>), from
  \<open>ratarmount-compositing/src/versioning.rs\<close>. The layer is its inner source, an argument of every
  operation here.
\<close>

section \<open>The code\<close>

definition VERSIONS_SUFFIX :: string where "VERSIONS_SUFFIX = ''.versions''"
definition TAG_FILE :: string where "TAG_FILE = ''versionlayer:file''"
definition TAG_FOLDER :: string where "TAG_FOLDER = ''versionlayer:versions-folder''"

text \<open>The loop of \<open>decode\<close> over the parts of the path, with its three variables.\<close>

fun decode_parts :: "('r, 'f) mount_source \<Rightarrow> string \<Rightarrow> bool \<Rightarrow> i32 option \<Rightarrow> string list
    \<Rightarrow> (string \<times> bool \<times> i32) option" where
  "decode_parts inner file_path path_is_versions_folder file_version [] =
     (case file_version of
        None \<Rightarrow> None
      | Some v \<Rightarrow> Some (file_path, path_is_versions_folder, if path_is_versions_folder then 0 else v))"
| "decode_parts inner file_path path_is_versions_folder file_version (part # parts) =
     (if path_is_versions_folder then
        (case parse_i32 part of
           None \<Rightarrow> None
         | Some v \<Rightarrow>
             (if show_i32 v \<noteq> part then None else decode_parts inner file_path False (Some v) parts))
      else
        let tmp = (if file_path = [] then ''/'' @ part else file_path @ ''/'' @ part) in
        if ms_lookup inner tmp 0 \<noteq> None then decode_parts inner tmp False (Some 0) parts
        else if ends_with part VERSIONS_SUFFIX \<and> length VERSIONS_SUFFIX < length part then
          decode_parts inner (take (length tmp - length VERSIONS_SUFFIX) tmp) True (Some 0) parts
        else None)"

definition decode :: "('r, 'f) mount_source \<Rightarrow> string \<Rightarrow> (string \<times> bool \<times> i32) option" where
  "decode inner file_path =
     decode_parts inner [] False None (split_on CHR ''/'' (trim_start_matches CHR ''/'' file_path))"

definition tag_file :: "file_info \<Rightarrow> file_info" where
  "tag_file fi = fi\<lparr>fi_userdata := fi_userdata fi @ [Other TAG_FILE]\<rparr>"

definition versions_folder_info :: "file_info \<Rightarrow> file_info" where
  "versions_folder_info parent =
     \<lparr>fi_size = 0, fi_mtime = fi_mtime parent, fi_mode = S_IFDIR OR 0x1ED, fi_linkname = [],
      fi_uid = fi_uid parent, fi_gid = fi_gid parent, fi_userdata = [Other TAG_FOLDER]\<rparr>"

text \<open>The names \<open>1..=n\<close>.\<close>

definition version_names :: "u32 \<Rightarrow> string list" where
  "version_names n = map show_nat [1..<Suc (unat n)]"

definition version_list :: "('r, 'f) mount_source \<Rightarrow> string \<Rightarrow> list_result option" where
  "version_list inner path0 =
     (let path = normpath path0 in
      case ms_list inner path of
        Some files \<Rightarrow> Some files
      | None \<Rightarrow>
          (case decode inner path of
             None \<Rightarrow> None
           | Some (real, is_vers, _) \<Rightarrow>
               (if \<not> is_vers then ms_list inner real
                else let n = ms_versions inner real in
                  if n = 0 then None else Some (Names (version_names n)))))"

definition version_list_dirents :: "('r, 'f) mount_source \<Rightarrow> string \<Rightarrow> cheap_dirent list option" where
  "version_list_dirents inner path0 =
     (let path = normpath path0 in
      case ms_list_dirents inner path of
        Some dents \<Rightarrow> Some dents
      | None \<Rightarrow>
          (case decode inner path of
             None \<Rightarrow> None
           | Some (real, is_vers, _) \<Rightarrow>
               (if \<not> is_vers then ms_list_dirents inner real
                else let n = ms_versions inner real in
                  if n = 0 then None
                  else Some (map (\<lambda>i. \<lparr>cd_name = i, cd_mode = S_IFREG OR 0x124, cd_size = 0\<rparr>)
                         (version_names n)))))"

definition version_list_mode :: "('r, 'f) mount_source \<Rightarrow> string \<Rightarrow> list_mode_result option" where
  "version_list_mode inner path =
     map_option (\<lambda>dents. Modes (bt_collect cd_name cd_mode dents)) (version_list_dirents inner path)"

definition version_search_cheap :: "('r, 'f) mount_source \<Rightarrow> string \<Rightarrow> cheap_search_hit list option" where
  "version_search_cheap inner pattern =
     (if starts_with pattern ''fts:'' then None else ms_search_cheap inner pattern)"

definition version_lookup :: "('r, 'f) mount_source \<Rightarrow> string \<Rightarrow> i32 \<Rightarrow> file_info option" where
  "version_lookup inner path0 file_version =
     (let path = normpath path0 in
      case ms_lookup inner path 0 of
        Some fi \<Rightarrow> Some (tag_file fi)
      | None \<Rightarrow>
          (case decode inner path of
             None \<Rightarrow> None
           | Some (real, is_vers, ver) \<Rightarrow>
               (if is_vers then map_option versions_folder_info (ms_lookup inner real 0)
                else map_option tag_file (ms_lookup inner real ver))))"

definition version_versions :: "('r, 'f) mount_source \<Rightarrow> string \<Rightarrow> u32" where
  "version_versions inner path0 =
     (let path = normpath path0 in
      case decode inner path of
        Some (real, is_vers, _) \<Rightarrow> (if is_vers then 1 else ms_versions inner real)
      | None \<Rightarrow> ms_versions inner path)"

text \<open>
  The match on the last tag that \<open>open\<close>, \<open>backing_extent\<close>, \<open>member_seek_is_cheap\<close> and the extended
  attribute methods begin with: \<open>None\<close> for a versions folder, the file info without the layer's tag otherwise.
\<close>

definition strip_version_tag :: "file_info \<Rightarrow> file_info option" where
  "strip_version_tag fi =
     (if fi_userdata fi = [] then Some fi
      else case last (fi_userdata fi) of
        Other s \<Rightarrow>
          (if s = TAG_FOLDER then None
           else if s = TAG_FILE then Some (fi\<lparr>fi_userdata := butlast (fi_userdata fi)\<rparr>)
           else Some fi)
      | Tar t \<Rightarrow> Some fi)"

definition version_open :: "('r, 'f) mount_source \<Rightarrow> file_info \<Rightarrow> i32 \<Rightarrow> io_error + 'r" where
  "version_open inner fi buffering =
     (case strip_version_tag fi of
        None \<Rightarrow> Inl (IoError IsADirectory ''versions folder'')
      | Some fi' \<Rightarrow> ms_open inner fi' buffering)"

definition version_backing_extent :: "('r, 'f) mount_source \<Rightarrow> file_info \<Rightarrow> 'f backing_extent option" where
  "version_backing_extent inner fi = Option.bind (strip_version_tag fi) (ms_backing_extent inner)"

definition version_member_seek_is_cheap :: "('r, 'f) mount_source \<Rightarrow> file_info \<Rightarrow> bool" where
  "version_member_seek_is_cheap inner fi =
     (case strip_version_tag fi of None \<Rightarrow> True | Some fi' \<Rightarrow> ms_member_seek_is_cheap inner fi')"

definition version_list_xattr :: "('r, 'f) mount_source \<Rightarrow> file_info \<Rightarrow> string list" where
  "version_list_xattr inner fi =
     (case strip_version_tag fi of None \<Rightarrow> [] | Some fi' \<Rightarrow> ms_list_xattr inner fi')"

definition version_get_xattr :: "('r, 'f) mount_source \<Rightarrow> file_info \<Rightarrow> string \<Rightarrow> u8 list option" where
  "version_get_xattr inner fi key =
     Option.bind (strip_version_tag fi) (\<lambda>fi'. ms_get_xattr inner fi' key)"

definition version_source :: "('r, 'f) mount_source \<Rightarrow> ('r, 'f) mount_source" where
  "version_source inner =
     \<lparr>ms_list = version_list inner, ms_list_mode = version_list_mode inner,
      ms_list_dirents = version_list_dirents inner, ms_lookup = version_lookup inner,
      ms_search_cheap = version_search_cheap inner, ms_open = version_open inner,
      ms_supports_backing_extents = ms_supports_backing_extents inner,
      ms_backing_extent = version_backing_extent inner,
      ms_member_seek_is_cheap = version_member_seek_is_cheap inner,
      ms_content_generation = ms_content_generation inner, ms_versions = version_versions inner,
      ms_statfs = ms_statfs inner, ms_is_immutable = ms_is_immutable inner,
      ms_list_xattr = version_list_xattr inner, ms_get_xattr = version_get_xattr inner\<rparr>"

section \<open>Decoding\<close>

text \<open>Sources in which every entry's directory exists as well.\<close>

definition parents_exist :: "('r, 'f) mount_source \<Rightarrow> bool" where
  "parents_exist s \<longleftrightarrow>
     (\<forall>cs c. is_comps (cs @ [c]) \<longrightarrow> cs \<noteq> [] \<longrightarrow> ms_lookup s (abs_path (cs @ [c])) 0 \<noteq> None \<longrightarrow>
        ms_lookup s (abs_path cs) 0 \<noteq> None)"

lemma parents_existD:
  assumes "parents_exist s" "is_comps (cs @ [c])" "ms_lookup s (abs_path (cs @ [c])) 0 \<noteq> None"
  shows "cs = [] \<or> ms_lookup s (abs_path cs) 0 \<noteq> None"
  using assms unfolding parents_exist_def by blast

lemma decode_parts_existing:
  assumes "parents_exist inner" "is_comps cs" "cs = [] \<or> ms_lookup inner (abs_path cs) 0 \<noteq> None"
  shows "decode_parts inner [] False ver (cs @ rest) =
    decode_parts inner (real_path cs) False (if cs = [] then ver else Some 0) rest"
  using assms(2,3)
proof (induction cs arbitrary: rest rule: rev_induct)
  case Nil
  then show ?case by (simp add: real_path_def)
next
  case (snoc c cs)
  then have "cs = [] \<or> ms_lookup inner (abs_path cs) 0 \<noteq> None"
    using parents_existD [OF assms(1), of cs c] by auto
  then have "decode_parts inner [] False ver (cs @ c # rest) =
      decode_parts inner (real_path cs) False (if cs = [] then ver else Some 0) (c # rest)"
    using snoc by simp
  then show ?case
    using snoc.prems unfolding decode_parts.simps real_path_snoc [OF snoc.prems(1)]
    by (simp add: Let_def real_path_def [of "cs @ [c]"])
qed

lemma versions_name:
  assumes "is_comp c"
  shows "is_comp (c @ VERSIONS_SUFFIX)" "ends_with (c @ VERSIONS_SUFFIX) VERSIONS_SUFFIX"
    "length VERSIONS_SUFFIX < length (c @ VERSIONS_SUFFIX)"
  using assms by (auto simp: is_comp_def VERSIONS_SUFFIX_def ends_with_def)

text \<open>A path whose last existing part is followed by a \<open>.versions\<close> part decodes to the path without the suffix.\<close>

lemma decode_versions_folder:
  assumes par: "parents_exist inner" and cs: "is_comps (cs @ [c])"
    and dir: "cs = [] \<or> ms_lookup inner (abs_path cs) 0 \<noteq> None"
    and none: "ms_lookup inner (abs_path (cs @ [c @ VERSIONS_SUFFIX])) 0 = None"
    and rest: "is_comps rest"
  shows "decode inner (abs_path (cs @ (c @ VERSIONS_SUFFIX) # rest)) =
    decode_parts inner (abs_path (cs @ [c])) True (Some 0) rest"
proof -
  let ?v = "c @ VERSIONS_SUFFIX"
  have v: "is_comp ?v" "ends_with ?v VERSIONS_SUFFIX" "length VERSIONS_SUFFIX < length ?v"
    using versions_name [of c] cs by auto
  have "abs_path (cs @ [?v]) = abs_path (cs @ [c]) @ VERSIONS_SUFFIX"
    using real_path_snoc [of cs c] real_path_snoc [of cs ?v] cs v(1)
    by (cases "real_path cs = []") (auto dest!: sym [of _ "abs_path _"])
  then have cut: "take (length (abs_path (cs @ [?v])) - length VERSIONS_SUFFIX) (abs_path (cs @ [?v])) = abs_path (cs @ [c])"
    by simp
  have "decode inner (abs_path (cs @ ?v # rest)) =
      decode_parts inner (real_path cs) False (if cs = [] then None else Some 0) (?v # rest)"
    using split_trim_abs [of "cs @ ?v # rest"] decode_parts_existing [OF par _ dir, of None] cs rest v(1)
    by (simp add: decode_def)
  also have "\<dots> = decode_parts inner (abs_path (cs @ [c])) True (Some 0) rest"
    using real_path_snoc [of cs ?v] cs v none cut by (simp add: Let_def)
  finally show ?thesis .
qed

lemma is_comp_show_nat [simp]: "is_comp (show_nat n)"
proof -
  have "x \<noteq> CHR ''/'' \<and> x \<noteq> CHR ''.''" if "x \<in> set (show_nat n)" for x
    using show_nat_digits [OF that] by (auto simp: is_ascii_digit_def)
  then show ?thesis
    by (auto simp: is_comp_def)
qed

lemma show_i32_of_nat: "n < 2 ^ 31 \<Longrightarrow> show_i32 (of_nat n) = show_nat n"
proof -
  assume n: "n < 2 ^ 31"
  then have "sint (of_nat n :: i32) = int n"
    by (simp add: signed_of_nat signed_take_bit_int_eq_self)
  then show ?thesis by (simp add: show_i32_def)
qed

section \<open>Properties\<close>

text \<open>C25: The versions folder of an entry lists its version numbers and nothing else, oldest first, and is a
  directory; and the number \<open>n\<close> in it is version \<open>n\<close> of the entry: looking up
  \<open>path.versions/n\<close> through the layer gives what looking up version \<open>n\<close> of \<open>path\<close> gives in the
  inner source. This is for an inner source in which the directory of every entry exists, an entry of it
  with at least one version, and as long as the inner source has no entry of that name with the suffix
  itself; numbers past the range of \<open>i32\<close> are not decoded.\<close>

theorem versions_folder_enumerates:
  assumes par: "parents_exist inner" and cs: "is_comps (cs @ [c])"
    and ex: "ms_lookup inner (abs_path (cs @ [c])) 0 = Some fi"
    and none: "ms_lookup inner (abs_path (cs @ [c @ VERSIONS_SUFFIX])) 0 = None"
      "ms_list inner (abs_path (cs @ [c @ VERSIONS_SUFFIX])) = None"
    and some: "ms_versions inner (abs_path (cs @ [c])) \<noteq> 0"
    and n: "n < 2 ^ 31"
  shows "version_list inner (abs_path (cs @ [c @ VERSIONS_SUFFIX])) =
      Some (Names (map show_nat [1..<Suc (unat (ms_versions inner (abs_path (cs @ [c]))))])) \<and>
    version_lookup inner (abs_path (cs @ [c @ VERSIONS_SUFFIX])) v = Some (versions_folder_info fi) \<and>
    version_lookup inner (abs_path (cs @ [c @ VERSIONS_SUFFIX, show_nat n])) v =
      map_option tag_file (ms_lookup inner (abs_path (cs @ [c])) (of_nat n))"
proof -
  let ?v = "c @ VERSIONS_SUFFIX"
  have v: "is_comp ?v" using versions_name [of c] cs by simp
  have dir: "cs = [] \<or> ms_lookup inner (abs_path cs) 0 \<noteq> None"
    using parents_existD [OF par cs] ex by simp
  note dec = decode_versions_folder [OF par cs dir none(1)]
  have d0: "decode inner (abs_path (cs @ [?v])) = Some (abs_path (cs @ [c]), True, 0)"
    using dec [of "[]"] by simp
  have dn: "decode inner (abs_path (cs @ [?v, show_nat n])) = Some (abs_path (cs @ [c]), False, of_nat n)"
    using dec [of "[show_nat n]"] n by (simp add: parse_i32_show_nat show_i32_of_nat)
  have nn: "ms_lookup inner (abs_path (cs @ [?v, show_nat n])) 0 = None"
    using parents_existD [OF par, of "cs @ [?v]" "show_nat n"] none(1) v cs
    by (cases "ms_lookup inner (abs_path (cs @ [?v, show_nat n])) 0") auto
  have np: "normpath (abs_path (cs @ [?v])) = abs_path (cs @ [?v])"
      "normpath (abs_path (cs @ [?v, show_nat n])) = abs_path (cs @ [?v, show_nat n])"
    using cs v by (simp_all add: normpath_abs components_abs_path)
  show ?thesis
    using none some ex
    by (simp add: version_list_def version_lookup_def np d0 dn nn version_names_def Let_def)
qed

text \<open>A source with two versions of one file.\<close>

definition two_version_source :: "(string, unit) mount_source" where
  "two_version_source =
     (flat_source [] (\<lambda>p. None))
       \<lparr>ms_lookup := (\<lambda>p v. if p = ''/d/f'' \<and> v \<in> {0, 1, 2} then Some (plain_info S_IFREG (if v = 1 then ''old'' else ''new''))
          else if p = ''/d'' \<and> v \<in> {0, 1} then Some (plain_info S_IFDIR []) else None),
        ms_versions := (\<lambda>p. if p = ''/d/f'' then 2 else if p = ''/d'' then 1 else 0)\<rparr>"

theorem versions_folder_enumerates_witness:
  "version_list two_version_source ''/d/f.versions'' = Some (Names [''1'', ''2'']) \<and>
   version_lookup two_version_source ''/d/f.versions'' 0 = Some (versions_folder_info (plain_info S_IFREG ''new'')) \<and>
   version_lookup two_version_source ''/d/f.versions/1'' 0 = Some (tag_file (plain_info S_IFREG ''old''))"
proof -
  have path: "abs_path [''d'', ''f''] = ''/d/f''" "abs_path [''d'', ''f'' @ VERSIONS_SUFFIX] = ''/d/f.versions''"
      "abs_path [''d'', ''f'' @ VERSIONS_SUFFIX, show_nat 1] = ''/d/f.versions/1''"
    by code_simp+
  have lk: "ms_lookup two_version_source p 0 =
      (if p = ''/d/f'' then Some (plain_info S_IFREG ''new'') else if p = ''/d'' then Some (plain_info S_IFDIR []) else None)" for p
    by (simp add: two_version_source_def)
  have one: "abs_path ds = ''/d/f'' \<longleftrightarrow> ds = [''d'', ''f'']" "abs_path ds = ''/d'' \<longleftrightarrow> ds = [''d'']" if "is_comps ds" for ds
    using abs_path_inj [of ds "[''d'', ''f'']"] abs_path_inj [of ds "[''d'']"] that
    by (auto simp: path is_comp_def)
  have par: "parents_exist two_version_source"
    unfolding parents_exist_def lk by (auto simp: one append_eq_Cons_conv split: if_splits)
  have hyps: "is_comps ([''d''] @ [''f''])"
      "ms_lookup two_version_source (abs_path ([''d''] @ [''f''])) 0 = Some (plain_info S_IFREG ''new'')"
      "ms_lookup two_version_source (abs_path ([''d''] @ [''f'' @ VERSIONS_SUFFIX])) 0 = None"
      "ms_list two_version_source (abs_path ([''d''] @ [''f'' @ VERSIONS_SUFFIX])) = None"
      "ms_versions two_version_source (abs_path ([''d''] @ [''f''])) \<noteq> 0"
    by (simp_all add: is_comp_def path [simplified] lk) (simp_all add: two_version_source_def flat_source_def)
  have vs: "ms_versions two_version_source ''/d/f'' = 2"
      "ms_lookup two_version_source ''/d/f'' 1 = Some (plain_info S_IFREG ''old'')"
    by (simp_all add: two_version_source_def)
  have names: "map show_nat [1..<Suc (unat (2 :: u32))] = [''1'', ''2'']"
    by code_simp
  from versions_folder_enumerates [OF par hyps, of 1 0] vs names show ?thesis
    by (simp add: path [simplified])
qed

lemma strip_version_tag_tags [simp]:
  "strip_version_tag (tag_file fi) = Some fi" "strip_version_tag (versions_folder_info fi) = None"
  by (simp_all add: strip_version_tag_def tag_file_def versions_folder_info_def TAG_FILE_def TAG_FOLDER_def)




text \<open>
  The versions folder of an entry that does not exist cannot be looked up, yet has a version; and numbers a
  versions folder does not list, such as zero, are looked up all the same.
\<close>

lemma phantom_versions_folder:
  "version_lookup two_version_source ''/nope.versions'' 0 = None \<and>
   version_versions two_version_source ''/nope.versions'' = 1 \<and>
   version_lookup two_version_source ''/d/f.versions/0'' 0 = Some (tag_file (plain_info S_IFREG ''new''))"
  by code_simp

end
