(* ===== verification/Rust_Std.thy ===== *)
theory Rust_Std
  imports Prelude
begin

unbundle bit_operations_syntax

text \<open>
  The parts of Rust's standard library the archive readers and writers use: UTF-8 checking and lossy
  decoding, integer parsing in a radix, conversion to binary floating point, and reading from a
  seekable stream. A byte buffer is a \<open>string\<close>, a list of 8-bit characters.
\<close>

section \<open>Buffers\<close>

type_synonym bytes = string

text \<open>The slice \<open>b[from..to]\<close> of a buffer long enough for it.\<close>

definition slice :: "nat \<Rightarrow> nat \<Rightarrow> 'a list \<Rightarrow> 'a list" where
  "slice from to b = take (to - from) (drop from b)"

text \<open>\<open>iter().position(|b| b == c)\<close>.\<close>

fun position :: "'a \<Rightarrow> 'a list \<Rightarrow> nat option" where
  "position c [] = None"
| "position c (x # xs) = (if x = c then Some 0 else map_option Suc (position c xs))"

definition byte_val :: "char \<Rightarrow> nat" where
  "byte_val c = of_char c"

section \<open>UTF-8\<close>

definition is_cont :: "char \<Rightarrow> bool" where
  "is_cont c = (128 \<le> byte_val c \<and> byte_val c < 192)"

text \<open>The length of the sequence a lead byte opens, and the range of the second byte it needs.\<close>

definition seq_width :: "char \<Rightarrow> nat" where
  "seq_width c =
     (let b = byte_val c in
      if b < 0x80 then 1 else if 0xC2 \<le> b \<and> b \<le> 0xDF then 2
      else if 0xE0 \<le> b \<and> b \<le> 0xEF then 3 else if 0xF0 \<le> b \<and> b \<le> 0xF4 then 4 else 0)"

definition second_ok :: "char \<Rightarrow> char \<Rightarrow> bool" where
  "second_ok c d =
     (let b = byte_val c; x = byte_val d in
      if b = 0xE0 then 0xA0 \<le> x \<and> x \<le> 0xBF else if b = 0xED then 0x80 \<le> x \<and> x \<le> 0x9F
      else if b = 0xF0 then 0x90 \<le> x \<and> x \<le> 0xBF else if b = 0xF4 then 0x80 \<le> x \<and> x \<le> 0x8F
      else 0x80 \<le> x \<and> x \<le> 0xBF)"

text \<open>
  One step of decoding: whether the buffer begins with a well-formed sequence, and how many bytes the
  sequence, or the maximal ill-formed part that one replacement character stands for, takes.
\<close>

fun utf8_step :: "bytes \<Rightarrow> bool \<times> nat" where
  "utf8_step [] = (True, 0)"
| "utf8_step (c # s) =
     (let w = seq_width c in
      if w = 0 then (False, 1)
      else if w = 1 then (True, 1)
      else case s of
        [] \<Rightarrow> (False, 1)
      | d # s2 \<Rightarrow>
          if \<not> second_ok c d then (False, 1)
          else if w = 2 then (True, 2)
          else case s2 of
            [] \<Rightarrow> (False, 2)
          | e # s3 \<Rightarrow>
              if \<not> is_cont e then (False, 2)
              else if w = 3 then (True, 3)
              else case s3 of
                [] \<Rightarrow> (False, 3)
              | f # _ \<Rightarrow> if is_cont f then (True, 4) else (False, 3))"

lemma utf8_step_pos: "s \<noteq> [] \<Longrightarrow> 0 < snd (utf8_step s)"
  by (cases s) (auto simp: Let_def split: list.splits)

declare utf8_step.simps [simp del]

definition replacement_char :: bytes where
  "replacement_char = [CHR 0xEF, CHR 0xBF, CHR 0xBD]"

text \<open>\<open>String::from_utf8_lossy\<close>.\<close>

function utf8_lossy :: "bytes \<Rightarrow> string" where
  "utf8_lossy [] = []"
| "utf8_lossy (c # s) =
     (let n = snd (utf8_step (c # s))
      in (if fst (utf8_step (c # s)) then take n (c # s) else replacement_char)
         @ utf8_lossy (drop n (c # s)))"
  by pat_completeness auto
termination
  by (relation "measure length") (auto simp: utf8_step_pos)

text \<open>\<open>str::from_utf8(..).is_ok()\<close>.\<close>

function utf8_valid :: "bytes \<Rightarrow> bool" where
  "utf8_valid [] = True"
| "utf8_valid (c # s) =
     (fst (utf8_step (c # s)) \<and> utf8_valid (drop (snd (utf8_step (c # s))) (c # s)))"
  by pat_completeness auto
termination
  by (relation "measure length") (auto simp: utf8_step_pos)

declare utf8_lossy.simps(2) [simp del] utf8_valid.simps(2) [simp del]

lemma utf8_lossy_valid: "utf8_valid s \<Longrightarrow> utf8_lossy s = s"
proof (induction s rule: utf8_lossy.induct)
  case (2 c s)
  then show ?case
    by (auto simp: utf8_lossy.simps(2) utf8_valid.simps(2) Let_def)
qed simp

definition is_ascii :: "char \<Rightarrow> bool" where
  "is_ascii c = (byte_val c < 128)"

lemma utf8_step_append:
  assumes "fst (utf8_step (c # s))"
  shows "utf8_step (c # s @ t) = utf8_step (c # s)" "snd (utf8_step (c # s)) \<le> length (c # s)"
  using assms by (auto simp: utf8_step.simps Let_def split: list.splits if_splits)

lemma utf8_valid_append: "utf8_valid s \<Longrightarrow> utf8_valid t \<Longrightarrow> utf8_valid (s @ t)"
proof (induction s rule: utf8_valid.induct)
  case (2 c s)
  then have f: "fst (utf8_step (c # s))" by (simp add: utf8_valid.simps)
  have "utf8_valid (drop (snd (utf8_step (c # s))) (c # s) @ t)"
    using 2 by (simp add: utf8_valid.simps)
  moreover have "drop (snd (utf8_step (c # s))) ((c # s) @ t) = drop (snd (utf8_step (c # s))) (c # s) @ t"
    using utf8_step_append(2) [OF f] by (subst drop_append) simp
  ultimately show ?case
    using f utf8_step_append(1) [OF f, of t] by (simp only: append_Cons utf8_valid.simps simp_thms)
qed simp

lemma utf8_valid_ascii_Cons: "is_ascii c \<Longrightarrow> utf8_valid (c # s) = utf8_valid s"
  by (simp add: utf8_valid.simps(2) utf8_step.simps seq_width_def is_ascii_def Let_def)

lemma utf8_valid_ascii: "list_all is_ascii s \<Longrightarrow> utf8_valid s"
  by (induction s) (auto simp: utf8_valid_ascii_Cons)

lemma utf8_lossy_ascii: "list_all is_ascii s \<Longrightarrow> utf8_lossy s = s"
  by (simp add: utf8_lossy_valid utf8_valid_ascii)

section \<open>Numbers\<close>

definition is_octal_digit :: "char \<Rightarrow> bool" where
  "is_octal_digit c = (48 \<le> byte_val c \<and> byte_val c < 56)"

fun octal_value :: "nat \<Rightarrow> string \<Rightarrow> nat option" where
  "octal_value acc [] = Some acc"
| "octal_value acc (c # cs) =
     (if is_octal_digit c then octal_value (acc * 8 + (byte_val c - 48)) cs else None)"

text \<open>\<open>u64::from_str_radix(s, 8).ok()\<close>: an optional plus sign, at least one digit, no overflow.\<close>

definition from_str_radix_8 :: "string \<Rightarrow> u64 option" where
  "from_str_radix_8 s =
     (let ds = (if starts_with s ''+'' then drop 1 s else s) in
      if ds = [] then None
      else case octal_value 0 ds of
        None \<Rightarrow> None
      | Some n \<Rightarrow> (if n < 2 ^ 64 then Some (of_nat n) else None))"

text \<open>\<open>format!("{v:o}")\<close>, and with a minimal width filled with zeros.\<close>

fun show_octal :: "nat \<Rightarrow> string" where
  "show_octal n =
     (if n < 8 then [char_of (48 + n)] else show_octal (n div 8) @ [char_of (48 + n mod 8)])"

declare show_octal.simps [simp del]

definition pad_octal :: "nat \<Rightarrow> nat \<Rightarrow> string" where
  "pad_octal width n = (let s = show_octal n in replicate (width - length s) CHR ''0'' @ s)"

text \<open>
  A non-negative ratio of naturals rounded to the nearest binary64 value, ties to even, as its bit
  pattern: the quotient is scaled to 53 bits, or to the subnormal step, and exponent and carry
  fall out of one sum.
\<close>

fun bit_len :: "nat \<Rightarrow> nat" where
  "bit_len n = (if n = 0 then 0 else Suc (bit_len (n div 2)))"

declare bit_len.simps [simp del]

definition round_div :: "nat \<Rightarrow> nat \<Rightarrow> nat" where
  "round_div p q =
     (let m = p div q; r = 2 * (p mod q) in
      if r > q \<or> (r = q \<and> odd m) then m + 1 else m)"

definition f64_of_ratio :: "nat \<Rightarrow> nat \<Rightarrow> f64" where
  "f64_of_ratio p q =
     (if p = 0 then 0
      else
        let k = int (bit_len p) - int (bit_len q) - 53;
            up = (if k \<ge> 0 then p \<ge> 2 ^ 53 * q * 2 ^ nat k else p * 2 ^ nat (- k) \<ge> 2 ^ 53 * q);
            e = max (if up then k + 1 else k) (- 1074);
            m = (if e \<ge> 0 then round_div p (q * 2 ^ nat e) else round_div (p * 2 ^ nat (- e)) q);
            bits = nat (e + 1074) * 2 ^ 52 + m
        in if bits \<ge> 2047 * 2 ^ 52 then 0x7FF0000000000000 else of_nat bits)"

text \<open>\<open>v as f64\<close> for a \<open>u64\<close>.\<close>

definition u64_to_f64 :: "u64 \<Rightarrow> f64" where
  "u64_to_f64 v = f64_of_ratio (unat v) 1"

text \<open>\<open>s.parse::<f64>().ok()\<close>.\<close>

definition f64_neg :: "bool \<Rightarrow> f64 \<Rightarrow> f64" where
  "f64_neg neg x = (if neg then x XOR 0x8000000000000000 else x)"

definition take_digits :: "string \<Rightarrow> string" where
  "take_digits s = takeWhile is_ascii_digit s"

definition drop_digits :: "string \<Rightarrow> string" where
  "drop_digits s = dropWhile is_ascii_digit s"

definition digits_nat :: "string \<Rightarrow> nat" where
  "digits_nat s = (case digits_value 0 s of Some n \<Rightarrow> n | None \<Rightarrow> 0)"

definition parse_exponent :: "string \<Rightarrow> int option" where
  "parse_exponent s =
     (if s = [] then Some 0
      else if to_ascii_lowercase (take 1 s) \<noteq> ''e'' then None
      else
        let t = drop 1 s; neg = starts_with t ''-'';
            d = (if neg \<or> starts_with t ''+'' then drop 1 t else t)
        in map_option (\<lambda>n. if neg then - int n else int n) (parse_digits d))"

definition parse_f64 :: "string \<Rightarrow> f64 option" where
  "parse_f64 s0 =
     (let neg = starts_with s0 ''-''; s = (if neg \<or> starts_with s0 ''+'' then drop 1 s0 else s0);
          ip = take_digits s; r = drop_digits s;
          fp = (if starts_with r ''.'' then take_digits (drop 1 r) else []);
          r2 = (if starts_with r ''.'' then drop_digits (drop 1 r) else r)
      in if ip @ fp \<noteq> [] then
           map_option (\<lambda>e. let x = e - int (length fp); n = digits_nat (ip @ fp)
                          in f64_neg neg (if x \<ge> 0 then f64_of_ratio (n * 10 ^ nat x) 1
                                          else f64_of_ratio n (10 ^ nat (- x))))
             (parse_exponent r2)
         else if to_ascii_lowercase s \<in> {''inf'', ''infinity''} then Some (f64_neg neg 0x7FF0000000000000)
         else if to_ascii_lowercase s = ''nan'' then Some (f64_neg neg 0x7FF8000000000000)
         else None)"

text \<open>\<open>str::contains\<close> for a string pattern.\<close>

fun contains_str :: "string \<Rightarrow> string \<Rightarrow> bool" where
  "contains_str [] pat = (pat = [])"
| "contains_str (c # s) pat = (starts_with (c # s) pat \<or> contains_str s pat)"

section \<open>Signed reading of unsigned words\<close>

lemma sint_neg_u64: "sint (x :: u64) < 0 \<longleftrightarrow> 2 ^ 63 \<le> unat x"
proof -
  have u: "uint x < 2 ^ 64" "0 \<le> uint x"
    using uint_lt2p [of x] by simp_all
  have "sint x < 0 \<longleftrightarrow> bit (uint x) 63"
    by (simp add: sint_uint)
  also have "\<dots> \<longleftrightarrow> odd (uint x div 2 ^ 63)"
    by (rule bit_iff_odd)
  also have "\<dots> \<longleftrightarrow> 2 ^ 63 \<le> uint x"
  proof (cases "2 ^ 63 \<le> uint x")
    case True
    then have "uint x div 2 ^ 63 = 1" using u by (intro int_div_pos_eq [where r = "uint x - 2 ^ 63"]) auto
    with True show ?thesis by simp
  next
    case False
    then have "uint x div 2 ^ 63 = 0" using u by (intro div_pos_pos_trivial) auto
    with False show ?thesis by simp
  qed
  also have "\<dots> \<longleftrightarrow> 2 ^ 63 \<le> unat x"
  proof -
    have "2 ^ 63 \<le> int n \<longleftrightarrow> 2 ^ 63 \<le> n" for n :: nat
      by simp
    from this [of "unat x"] show ?thesis by simp
  qed
  finally show ?thesis .
qed

end
