(* ===== verification/Streams.thy ===== *)
theory Streams
  imports Rust_Std Core_Types
begin

text \<open>
  Seekable byte streams. A reader is the function giving the bytes one \<open>read\<close> call returns for an
  absolute position and a buffer length; it may return fewer bytes than asked for, as \<open>Read::read\<close>
  may. The loops that fill a whole buffer (\<open>read_exact\<close>, and \<open>read_tar_header\<close> of the TAR walk) are
  built on it. Failing reads of the host are not part of the model.
\<close>

type_synonym reader = "nat \<Rightarrow> nat \<Rightarrow> bytes"

function fill_buf :: "reader \<Rightarrow> nat \<Rightarrow> nat \<Rightarrow> bytes" where
  "fill_buf rd pos n =
     (if n = 0 then []
      else
        let got = take n (rd pos n) in
        if got = [] then [] else got @ fill_buf rd (pos + length got) (n - length got))"
  by pat_completeness auto
termination
  by (relation "measure (\<lambda>(rd, pos, n). n)") auto

declare fill_buf.simps [simp del]

definition read_exact :: "reader \<Rightarrow> nat \<Rightarrow> nat \<Rightarrow> io_error + bytes" where
  "read_exact rd pos n =
     (let b = fill_buf rd pos n in
      if length b < n then Inl (IoError UnexpectedEof ''failed to fill whole buffer'') else Inr b)"

text \<open>The documented behaviour of \<open>Read\<close> over a stream: a read gives some of the bytes at its position,
  and gives none only at the end of the stream or for an empty buffer.\<close>

definition reads :: "reader \<Rightarrow> bytes \<Rightarrow> bool" where
  "reads rd data \<longleftrightarrow>
     (\<forall>pos n. prefix (rd pos n) (take n (drop pos data)) \<and>
        (0 < n \<longrightarrow> pos < length data \<longrightarrow> rd pos n \<noteq> []))"

lemma readsD:
  assumes "reads rd data"
  shows "prefix (rd pos n) (take n (drop pos data))"
    and "0 < n \<Longrightarrow> pos < length data \<Longrightarrow> rd pos n \<noteq> []"
  using assms by (auto simp: reads_def)

text \<open>A reader that always fills the buffer.\<close>

definition full_reader :: "bytes \<Rightarrow> reader" where
  "full_reader data = (\<lambda>pos n. take n (drop pos data))"

lemma full_reader_reads [simp]: "reads (full_reader data) data"
  by (simp add: reads_def full_reader_def)

lemma fill_buf_reads:
  assumes "reads rd data"
  shows "fill_buf rd pos n = take n (drop pos data)"
proof (induction n arbitrary: pos rule: less_induct)
  case (less n)
  let ?g = "take n (rd pos n)"
  obtain rest where rest: "take n (drop pos data) = rd pos n @ rest"
    using readsD(1) [OF assms, of pos n] by (auto simp: prefix_def)
  have len: "length (rd pos n) \<le> n"
    using readsD(1) [OF assms, of pos n] by (auto dest: prefix_length_le)
  then have g: "?g = rd pos n" by simp
  show ?case
  proof (cases "n = 0 \<or> rd pos n = []")
    case True
    then have "n = 0 \<or> length data \<le> pos"
      using readsD(2) [OF assms, of n pos] by (cases "pos < length data") auto
    with True show ?thesis by (subst fill_buf.simps) (auto simp: Let_def)
  next
    case False
    let ?k = "length (rd pos n)"
    have "fill_buf rd (pos + ?k) (n - ?k) = take (n - ?k) (drop (pos + ?k) data)"
      using False len by (intro less) auto
    also have "\<dots> = drop ?k (take n (drop pos data))"
      by (simp add: drop_take add.commute)
    also have "\<dots> = rest"
      by (simp add: rest)
    finally show ?thesis
      using False rest by (subst fill_buf.simps) (simp add: Let_def g)
  qed
qed

lemma read_exact_reads:
  assumes "reads rd data"
  shows "read_exact rd pos n =
    (if pos + n \<le> length data \<or> n = 0 then Inr (slice pos (pos + n) data)
     else Inl (IoError UnexpectedEof ''failed to fill whole buffer''))"
  by (auto simp: read_exact_def fill_buf_reads [OF assms] slice_def Let_def)

lemma slice_append_left: "b \<le> length xs \<Longrightarrow> slice a b (xs @ ys) = slice a b xs"
  by (cases "a \<le> b") (auto simp: slice_def)

lemma slice_append_right: "length xs \<le> a \<Longrightarrow> slice a b (xs @ ys) = slice (a - length xs) (b - length xs) ys"
  by (simp add: slice_def)

lemma length_slice [simp]: "length (slice a b xs) = min (b - a) (length xs - a)"
  by (simp add: slice_def min.commute)

lemma slice_whole [simp]: "slice 0 (length xs) xs = xs"
  by (simp add: slice_def)

end
