(* ===== verification/Tar_Header.thy ===== *)
theory Tar_Header
  imports Streams
begin

unbundle bit_operations_syntax

text \<open>
  The fields of a TAR header block: what \<open>ratarmount-formats-tar/src/lib.rs\<close> reads from it and what
  \<open>src/write.rs\<close> beside it writes into it. A header is a buffer of 512 bytes. The decoders of the
  \<open>encoding_rs\<close> crate are an argument: the function from an encoding label to its decoder.
\<close>

section \<open>Reading fields\<close>

type_synonym encodings = "string \<Rightarrow> (bytes \<Rightarrow> string) option"

definition BLOCK_SIZE :: u64 where "BLOCK_SIZE = 512"

definition MAX_HEADER_PAYLOAD_BYTES :: u64 where "MAX_HEADER_PAYLOAD_BYTES = 16 * 1024 * 1024"

text \<open>The wrapping product is what a release build computes.\<close>

definition pad512 :: "u64 \<Rightarrow> u64" where
  "pad512 n = of_nat ((unat n + 511) div 512) * BLOCK_SIZE"

definition until_nul :: "bytes \<Rightarrow> bytes" where
  "until_nul b = take (case position CHR 0x00 b of Some i \<Rightarrow> i | None \<Rightarrow> length b) b"

definition cstr_field :: "bytes \<Rightarrow> string" where
  "cstr_field b = utf8_lossy (until_nul b)"

definition encoding_label :: "string \<Rightarrow> string" where
  "encoding_label lowered =
     (if lowered \<in> {''latin1'', ''latin-1'', ''iso-8859-1'', ''iso8859-1''} then ''iso-8859-1''
      else if lowered \<in> {''cp1252'', ''windows-1252''} then ''windows-1252''
      else if lowered = ''cp437'' then ''ibm437''
      else lowered)"

definition decode_bytes :: "encodings \<Rightarrow> bytes \<Rightarrow> string \<Rightarrow> string" where
  "decode_bytes encs b encoding =
     (let enc = trim encoding; lowered = to_ascii_lowercase enc in
      if enc = [] \<or> lowered = ''utf-8'' \<or> lowered = ''utf8'' \<or> lowered = ''ascii'' then utf8_lossy b
      else case encs (encoding_label lowered) of
        Some dec \<Rightarrow> dec b
      | None \<Rightarrow> utf8_lossy b)"

definition cstr_field_encoded :: "encodings \<Rightarrow> bytes \<Rightarrow> string \<Rightarrow> string" where
  "cstr_field_encoded encs b encoding = decode_bytes encs (until_nul b) encoding"

definition parse_name :: "encodings \<Rightarrow> bytes \<Rightarrow> string \<Rightarrow> string" where
  "parse_name encs header encoding =
     (let pre = cstr_field_encoded encs (slice 345 500 header) encoding;
          name = cstr_field_encoded encs (slice 0 100 header) encoding
      in if pre = [] then name else pre @ ''/'' @ name)"

text \<open>Big-endian, with the marker bit of the first byte cleared; bits shifted out of the \<open>u64\<close> are lost.\<close>

definition parse_base256 :: "bytes \<Rightarrow> u64 option" where
  "parse_base256 b =
     Some (foldl (\<lambda>v (i, c). push_bit 8 v OR of_nat (if i = 0 then byte_val c mod 128 else byte_val c)) 0
       (enumerate 0 b))"

definition parse_octal :: "bytes \<Rightarrow> u64 option" where
  "parse_octal b =
     (let s = trim (cstr_field b) in
      if s = [] then Some 0
      else if b \<noteq> [] \<and> 128 \<le> byte_val (hd b) then parse_base256 b
      else from_str_radix_8 s)"

definition unwrap_or :: "'a option \<Rightarrow> 'a \<Rightarrow> 'a" where
  "unwrap_or x d = (case x of Some y \<Rightarrow> y | None \<Rightarrow> d)"

definition header_size :: "bytes \<Rightarrow> u64" where
  "header_size header = unwrap_or (parse_octal (slice 124 136 header)) 0"

definition typeflag_of :: "bytes \<Rightarrow> char" where
  "typeflag_of header = header ! 156"

definition all_zero :: "bytes \<Rightarrow> bool" where
  "all_zero b = list_all (\<lambda>c. c = CHR 0x00) b"

section \<open>The checksum\<close>

definition checksum_bytes :: "bytes \<Rightarrow> bytes" where
  "checksum_bytes header = take 148 header @ replicate 8 CHR '' '' @ drop 156 header"

definition checksum_unsigned :: "bytes \<Rightarrow> u32" where
  "checksum_unsigned header = sum_list (map (\<lambda>c. of_nat (byte_val c)) (checksum_bytes header))"

definition checksum_signed :: "bytes \<Rightarrow> u32" where
  "checksum_signed header = sum_list (map (\<lambda>c. scast (of_nat (byte_val c) :: u8)) (checksum_bytes header))"

definition checksum_ok :: "bytes \<Rightarrow> bool" where
  "checksum_ok header =
     (case parse_octal (slice 148 156 header) of
        None \<Rightarrow> False
      | Some s \<Rightarrow> (let stored = ucast s in checksum_unsigned header = stored \<or> checksum_signed header = stored))"

definition has_tar_magic :: "bytes \<Rightarrow> bool" where
  "has_tar_magic header = (let magic = slice 257 262 header in magic = ''ustar'' \<or> magic = ''GNU  '')"

section \<open>Writing headers\<close>

definition USTAR_MAX_SIZE :: u64 where "USTAR_MAX_SIZE = 0x1FFFFFFFF"
definition USTAR_NAME_LEN :: nat where "USTAR_NAME_LEN = 100"
definition USTAR_LINK_LEN :: nat where "USTAR_LINK_LEN = 100"

definition octal_digit_max :: "nat \<Rightarrow> u64" where
  "octal_digit_max digits = push_bit (3 * digits) 1 - 1"

text \<open>\<open>write_octal\<close> into a field of zero bytes of the given width; the field's contents are the result.\<close>

definition write_octal :: "nat \<Rightarrow> u64 \<Rightarrow> io_error + bytes" where
  "write_octal width value =
     (if width = 0 then Inr []
      else
        let digits = width - 1; s = pad_octal digits (unat value) in
        if length s > digits then
          Inl (IoError InvalidInput
            (''octal value '' @ show_nat (unat value) @ '' does not fit in '' @ show_nat digits @ '' digits''))
        else Inr (s @ replicate (width - length s) CHR 0x00))"

record ustar_header_fields =
  uf_name :: bytes
  uf_size :: u64
  uf_typeflag :: char
  uf_linkname :: bytes
  uf_mode :: u32
  uf_uid :: u32
  uf_gid :: u32
  uf_mtime :: u64

text \<open>A field of the given width holding the bytes, cut or filled with zero bytes.\<close>

definition field :: "nat \<Rightarrow> bytes \<Rightarrow> bytes" where
  "field width b = take width b @ replicate (width - length b) CHR 0x00"

definition header_head :: "ustar_header_fields \<Rightarrow> io_error + bytes" where
  "header_head f =
     (case write_octal 8 (ucast (uf_mode f)) of Inl e \<Rightarrow> Inl e | Inr mode \<Rightarrow>
      case write_octal 8 (ucast (uf_uid f)) of Inl e \<Rightarrow> Inl e | Inr uid \<Rightarrow>
      case write_octal 8 (ucast (uf_gid f)) of Inl e \<Rightarrow> Inl e | Inr gid \<Rightarrow>
      case write_octal 12 (uf_size f) of Inl e \<Rightarrow> Inl e | Inr sz \<Rightarrow>
      case write_octal 12 (uf_mtime f) of Inl e \<Rightarrow> Inl e | Inr mtime \<Rightarrow>
        Inr (field USTAR_NAME_LEN (uf_name f) @ mode @ uid @ gid @ sz @ mtime))"

definition header_tail :: "ustar_header_fields \<Rightarrow> bytes" where
  "header_tail f =
     [uf_typeflag f] @ field USTAR_LINK_LEN (uf_linkname f) @ ''ustar'' @ [CHR 0x00] @ ''00''
     @ replicate 247 CHR 0x00"

definition write_raw_ustar_header :: "ustar_header_fields \<Rightarrow> io_error + bytes" where
  "write_raw_ustar_header f =
     (case header_head f of
        Inl e \<Rightarrow> Inl e
      | Inr head \<Rightarrow>
          let sum = sum_list (map byte_val (head @ replicate 8 CHR '' '' @ header_tail f))
          in Inr (head @ pad_octal 6 sum @ [CHR 0x00, CHR '' ''] @ header_tail f))"

section \<open>Octal fields\<close>

lemma octal_value_append:
  "octal_value acc (xs @ ys) =
     (case octal_value acc xs of None \<Rightarrow> None | Some a \<Rightarrow> octal_value a ys)"
  by (induction xs arbitrary: acc) auto

lemma is_octal_digit_char_of [simp]: "n < 8 \<Longrightarrow> is_octal_digit (char_of (48 + n :: nat))"
  by (simp add: is_octal_digit_def byte_val_def)

lemma byte_val_char_of [simp]: "n < 256 \<Longrightarrow> byte_val (char_of (n :: nat)) = n"
  by (simp add: byte_val_def)

lemma show_octal_digits: "c \<in> set (show_octal n) \<Longrightarrow> is_octal_digit c"
proof (induction n rule: show_octal.induct)
  case (1 n)
  then show ?case
    by (cases "n < 8") (auto simp: show_octal.simps [of n])
qed

lemma show_octal_neq_Nil [simp]: "show_octal n \<noteq> []"
  by (subst show_octal.simps) simp

lemma octal_value_show: "octal_value 0 (show_octal n) = Some n"
proof (induction n rule: show_octal.induct)
  case (1 n)
  then show ?case
    by (cases "n < 8") (auto simp: show_octal.simps [of n] octal_value_append)
qed

lemma octal_value_zeros [simp]: "octal_value 0 (replicate k CHR ''0'' @ s) = octal_value 0 s"
  by (induction k) (auto simp: is_octal_digit_def byte_val_def)

lemma length_show_octal: "0 < k \<Longrightarrow> length (show_octal n) \<le> k \<longleftrightarrow> n < 8 ^ k"
proof (induction n arbitrary: k rule: show_octal.induct)
  case (1 n)
  show ?case
  proof (cases "n < 8")
    case True
    with 1(2) have "n < 8 ^ k" by (cases k) (auto intro: less_le_trans)
    with True 1(2) show ?thesis by (simp add: show_octal.simps [of n])
  next
    case False
    show ?thesis
    proof (cases "k = 1")
      case True
      with False show ?thesis by (simp add: show_octal.simps [of n])
    next
      case k: False
      then obtain j where j: "k = Suc j" "0 < j" using 1(2) by (cases k) auto
      have "n < 8 ^ Suc j \<longleftrightarrow> n div 8 < 8 ^ j"
        by (simp add: div_less_iff_less_mult mult.commute)
      with 1(1) [OF False j(2)] False j show ?thesis
        by (simp add: show_octal.simps [of n])
    qed
  qed
qed

lemma pad_octal_digits: "c \<in> set (pad_octal w n) \<Longrightarrow> is_octal_digit c"
  by (auto simp: pad_octal_def Let_def dest: show_octal_digits) (simp add: is_octal_digit_def byte_val_def)

lemma length_pad_octal: "length (pad_octal w n) = max w (length (show_octal n))"
  by (simp add: pad_octal_def Let_def)

lemma pad_octal_neq_Nil [simp]: "pad_octal w n \<noteq> []"
  by (simp add: pad_octal_def Let_def)

lemma octal_value_pad: "octal_value 0 (pad_octal w n) = Some n"
  by (simp add: pad_octal_def Let_def octal_value_show)

lemma octal_digit_ascii: "is_octal_digit c \<Longrightarrow> is_ascii c"
  by (simp add: is_octal_digit_def is_ascii_def)

lemma position_append: "c \<notin> set xs \<Longrightarrow> position c (xs @ c # ys) = Some (length xs)"
  by (induction xs) auto

lemma position_None: "position c xs = None \<longleftrightarrow> c \<notin> set xs"
  by (induction xs) auto

lemma until_nul_append [simp]: "CHR 0x00 \<notin> set xs \<Longrightarrow> until_nul (xs @ CHR 0x00 # ys) = xs"
  by (simp add: until_nul_def position_append)

lemma until_nul_id [simp]: "CHR 0x00 \<notin> set xs \<Longrightarrow> until_nul xs = xs"
  by (simp add: until_nul_def position_None [THEN iffD2])

text \<open>Trimming a string that begins and ends with characters that are no white space.\<close>

lemma until_nul_pad [simp]: "CHR 0x00 \<notin> set xs \<Longrightarrow> until_nul (xs @ replicate k CHR 0x00) = xs"
  by (cases k) auto

lemma strip_ws_octal:
  assumes "\<forall>w \<in> set ws. w \<noteq> [] \<and> \<not> is_octal_digit (hd w)" "\<forall>c \<in> set s. is_octal_digit c"
  shows "strip_ws ws s = s"
proof -
  have "ws_len ws s = 0 \<or> s = []"
  proof (cases s)
    case (Cons c t)
    have "find (starts_with s) ws = None"
      using assms Cons by (auto simp: find_None_iff neq_Nil_conv)
    then show ?thesis by (simp add: ws_len_def)
  qed simp
  then show ?thesis by (subst strip_ws.simps) auto
qed

lemma trim_octal:
  assumes "\<forall>c \<in> set s. is_octal_digit c"
  shows "trim s = s"
proof -
  have "\<forall>w \<in> set white_space. w \<noteq> [] \<and> \<not> is_octal_digit (hd w)"
    by code_simp
  moreover have "\<forall>w \<in> set (map rev white_space). w \<noteq> [] \<and> \<not> is_octal_digit (hd w)"
    by code_simp
  ultimately show ?thesis
    using assms by (simp add: trim_def strip_ws_octal)
qed

lemma parse_octal_digits:
  assumes ds: "\<forall>c \<in> set ds. is_octal_digit c" "ds \<noteq> []" and v: "octal_value 0 ds = Some n" "n < 2 ^ 64"
    and nul: "b = ds \<or> (\<exists>r. b = ds @ CHR 0x00 # r)"
  shows "parse_octal b = Some (of_nat n)"
proof -
  have n0: "CHR 0x00 \<notin> set ds"
    using ds(1) by (auto simp: is_octal_digit_def byte_val_def)
  have "until_nul b = ds"
    using nul n0 by auto
  moreover have "utf8_lossy ds = ds"
    using ds(1) octal_digit_ascii by (intro utf8_lossy_ascii) (auto simp: list_all_iff)
  ultimately have c: "trim (cstr_field b) = ds"
    using ds(1) by (simp add: cstr_field_def trim_octal)
  obtain d r where d: "ds = d # r" using ds(2) by (cases ds) auto
  have "\<not> 128 \<le> byte_val (hd b)"
    using ds(1) d nul by (auto simp: is_octal_digit_def)
  moreover have "\<not> starts_with ds ''+''"
    using ds(1) d by (auto simp: is_octal_digit_def byte_val_def)
  ultimately show ?thesis
    using ds(2) v by (simp add: parse_octal_def c from_str_radix_8_def Let_def)
qed

lemma write_octal_ok:
  assumes "unat v < 8 ^ d" "0 < d"
  shows "write_octal (Suc d) v = Inr (pad_octal d (unat v) @ [CHR 0x00])"
proof -
  have "length (show_octal (unat v)) \<le> d"
    using length_show_octal [of d "unat v"] assms by simp
  then show ?thesis
    by (simp add: write_octal_def length_pad_octal Let_def)
qed

lemma write_octal_fails: "0 < d \<Longrightarrow> 8 ^ d \<le> unat v \<Longrightarrow> \<exists>e. write_octal (Suc d) v = Inl e"
  using length_show_octal [of d "unat v"] by (auto simp: write_octal_def length_pad_octal Let_def)

lemma parse_octal_pad:
  "parse_octal (pad_octal d (unat v) @ [CHR 0x00]) = Some v"
  using parse_octal_digits [of "pad_octal d (unat v)" "unat v" "pad_octal d (unat v) @ [CHR 0x00]"]
    pad_octal_digits [of _ d "unat v"] unsigned_less [of v]
  by (auto simp: octal_value_pad)

section \<open>Reading back a written header\<close>

lemma write_octal_inv:
  assumes "write_octal (Suc d) v = Inr f" "0 < d"
  shows "f = pad_octal d (unat v) @ [CHR 0x00]" "length f = Suc d" "parse_octal f = Some v"
proof -
  have "unat v < 8 ^ d"
    using write_octal_fails [of d v] assms by (cases "8 ^ d \<le> unat v") auto
  with assms show f: "f = pad_octal d (unat v) @ [CHR 0x00]"
    using write_octal_ok [of v d] by simp
  show "length f = Suc d" "parse_octal f = Some v"
    using length_show_octal [of d "unat v"] \<open>unat v < 8 ^ d\<close> assms(2)
    by (simp_all add: f length_pad_octal parse_octal_pad)
qed

lemma length_field [simp]: "length (field w b) = w"
  by (simp add: field_def)

lemma length_header_tail [simp]: "length (header_tail f) = 356"
  by (simp add: header_tail_def USTAR_LINK_LEN_def)

text \<open>The blocks of a written header, in order.\<close>

lemma header_headE:
  assumes "header_head f = Inr head"
  obtains mode uid gid sz mtime where
    "head = field 100 (uf_name f) @ mode @ uid @ gid @ sz @ mtime"
    "length mode = 8" "parse_octal mode = Some (ucast (uf_mode f))"
    "length uid = 8" "parse_octal uid = Some (ucast (uf_uid f))"
    "length gid = 8" "parse_octal gid = Some (ucast (uf_gid f))"
    "length sz = 12" "parse_octal sz = Some (uf_size f)"
    "length mtime = 12" "parse_octal mtime = Some (uf_mtime f)"
proof -
  from assms obtain mode uid gid sz mtime where w:
    "write_octal (Suc 7) (ucast (uf_mode f)) = Inr mode" "write_octal (Suc 7) (ucast (uf_uid f)) = Inr uid"
    "write_octal (Suc 7) (ucast (uf_gid f)) = Inr gid" "write_octal (Suc 11) (uf_size f) = Inr sz"
    "write_octal (Suc 11) (uf_mtime f) = Inr mtime"
    and head: "head = field 100 (uf_name f) @ mode @ uid @ gid @ sz @ mtime"
    by (auto simp: header_head_def USTAR_NAME_LEN_def split: sum.splits)
  show thesis
    using that [OF head] w [THEN write_octal_inv(2)] w [THEN write_octal_inv(3)] by simp
qed

lemma sum_list_bytes_le: "sum_list (map byte_val b) \<le> 255 * length b"
proof (induction b)
  case (Cons c b)
  have "byte_val c < 256" by (simp add: byte_val_def)
  with Cons show ?case by simp
qed simp

lemma raw_headerE:
  assumes "write_raw_ustar_header f = Inr h"
  obtains head ck where "header_head f = Inr head" "length head = 148" "length ck = 8"
    "h = head @ ck @ header_tail f"
    "parse_octal ck = Some (of_nat (sum_list (map byte_val (head @ replicate 8 CHR '' '' @ header_tail f))))"
proof -
  obtain head where head: "header_head f = Inr head"
    using assms by (auto simp: write_raw_ustar_header_def split: sum.splits)
  let ?n = "sum_list (map byte_val (head @ replicate 8 CHR '' '' @ header_tail f))"
  let ?ck = "pad_octal 6 ?n @ [CHR 0x00, CHR '' '']"
  have len: "length head = 148"
    using head by (elim header_headE) simp
  have "sum_list (map byte_val (replicate 8 CHR '' '')) = 256"
    by code_simp
  then have "?n \<le> 255 * 148 + 256 + 255 * 356"
    using sum_list_bytes_le [of head] sum_list_bytes_le [of "header_tail f"] len by simp
  then have n: "?n < 8 ^ 6" by simp
  then have ck: "length ?ck = 8"
    using length_show_octal [of 6 ?n] by (simp add: length_pad_octal)
  have "parse_octal ?ck = Some (of_nat ?n)"
    using n pad_octal_digits [of _ 6 ?n]
    by (intro parse_octal_digits [of "pad_octal 6 ?n"]) (auto simp: octal_value_pad)
  then show thesis
    using that [OF head len ck] assms head by (simp add: write_raw_ustar_header_def Let_def)
qed

lemma sum_list_of_nat: "sum_list (map (\<lambda>c. of_nat (g c)) xs) = of_nat (sum_list (map g xs))"
  by (induction xs) auto

lemma ucast_of_nat_u32: "ucast (of_nat n :: u64) = (of_nat n :: u32)"
  by (simp add: unsigned_of_nat word_of_nat_eq_iff)

lemma raw_header_fields:
  assumes "write_raw_ustar_header f = Inr h"
  shows "length h = 512" "slice 0 100 h = field 100 (uf_name f)"
    "parse_octal (slice 100 108 h) = Some (ucast (uf_mode f))"
    "parse_octal (slice 108 116 h) = Some (ucast (uf_uid f))"
    "parse_octal (slice 116 124 h) = Some (ucast (uf_gid f))"
    "parse_octal (slice 124 136 h) = Some (uf_size f)"
    "parse_octal (slice 136 148 h) = Some (uf_mtime f)"
    "h ! 156 = uf_typeflag f" "slice 157 257 h = field 100 (uf_linkname f)"
    "slice 345 500 h = replicate 155 CHR 0x00" "has_tar_magic h" "checksum_ok h" "\<not> all_zero h"
proof -
  obtain head ck where hd: "header_head f = Inr head" and len: "length head = 148" "length ck = 8"
    and h: "h = head @ ck @ header_tail f"
    and ck: "parse_octal ck = Some (of_nat (sum_list (map byte_val (head @ replicate 8 CHR '' '' @ header_tail f))))"
    using assms by (rule raw_headerE)
  obtain mode uid gid sz mtime where
    head: "head = field 100 (uf_name f) @ mode @ uid @ gid @ sz @ mtime"
    and l: "length mode = 8" "length uid = 8" "length gid = 8" "length sz = 12" "length mtime = 12"
    and p: "parse_octal mode = Some (ucast (uf_mode f))" "parse_octal uid = Some (ucast (uf_uid f))"
      "parse_octal gid = Some (ucast (uf_gid f))" "parse_octal sz = Some (uf_size f)"
      "parse_octal mtime = Some (uf_mtime f)"
    using hd by (rule header_headE) auto
  show "length h = 512" by (simp add: h len)
  show "slice 0 100 h = field 100 (uf_name f)"
    by (simp add: h head slice_def)
  show "parse_octal (slice 100 108 h) = Some (ucast (uf_mode f))"
    "parse_octal (slice 108 116 h) = Some (ucast (uf_uid f))"
    "parse_octal (slice 116 124 h) = Some (ucast (uf_gid f))"
    "parse_octal (slice 124 136 h) = Some (uf_size f)"
    "parse_octal (slice 136 148 h) = Some (uf_mtime f)"
    using p by (simp_all add: h head slice_def l)
  show "h ! 156 = uf_typeflag f"
    by (simp add: h nth_append len header_tail_def)
  show "slice 157 257 h = field 100 (uf_linkname f)" "slice 345 500 h = replicate 155 CHR 0x00"
    by (simp_all add: h slice_def len header_tail_def USTAR_LINK_LEN_def)
  show "has_tar_magic h"
    by (simp add: h slice_def len header_tail_def USTAR_LINK_LEN_def has_tar_magic_def)
  have "slice 148 156 h = ck" by (simp add: h slice_def len)
  moreover have "checksum_unsigned h = of_nat (sum_list (map byte_val (head @ replicate 8 CHR '' '' @ header_tail f)))"
    unfolding checksum_unsigned_def checksum_bytes_def sum_list_of_nat by (simp add: h len)
  ultimately show "checksum_ok h"
    by (simp only: checksum_ok_def ck option.case Let_def ucast_of_nat_u32 simp_thms)
  show "\<not> all_zero h"
    by (simp add: h all_zero_def header_tail_def)
qed

end
