(* ===== verification/Tar_Pax.thy ===== *)
theory Tar_Pax
  imports Tar_Header
begin

unbundle bit_operations_syntax

text \<open>
  PAX extended header records (\<open>parse_pax_records\<close> and the extended attribute decoding of
  \<open>ratarmount-formats-tar/src/lib.rs\<close>; \<open>encode_pax_record\<close> of \<open>src/write.rs\<close>). Hash maps are association
  lists; where the code iterates over one, the order is the argument \<open>iter\<close>.
\<close>

section \<open>Reading\<close>

record pax_parsed =
  pp_map :: "(string \<times> string) list"
  pp_sparse_pairs :: "(u64 \<times> u64) list"
  pp_fs_xattrs :: "(string \<times> bytes) list"

definition pax_empty :: pax_parsed where
  "pax_empty = \<lparr>pp_map = [], pp_sparse_pairs = [], pp_fs_xattrs = []\<rparr>"

definition SCHILY_XATTR_PREFIX :: string where "SCHILY_XATTR_PREFIX = ''SCHILY.xattr.''"
definition LIBARCHIVE_XATTR_PREFIX :: string where "LIBARCHIVE_XATTR_PREFIX = ''LIBARCHIVE.xattr.''"

definition from_hex_digit :: "char \<Rightarrow> nat option" where
  "from_hex_digit c =
     (let b = byte_val c in
      if 48 \<le> b \<and> b \<le> 57 then Some (b - 48)
      else if 97 \<le> b \<and> b \<le> 102 then Some (b - 97 + 10)
      else if 65 \<le> b \<and> b \<le> 70 then Some (b - 65 + 10)
      else None)"

text \<open>The loop of \<open>percent_decode_str\<close>: a percent sign is decoded when two more bytes follow and are hex digits.\<close>

fun percent_decode :: "bytes \<Rightarrow> bytes" where
  "percent_decode (c # h # l # s) =
     (if c = CHR ''%'' then
        (case (from_hex_digit h, from_hex_digit l) of
           (Some h1, Some h2) \<Rightarrow> char_of (h1 * 16 + h2) # percent_decode s
         | _ \<Rightarrow> c # percent_decode (h # l # s))
      else c # percent_decode (h # l # s))"
| "percent_decode s = s"

definition percent_decode_str :: "string \<Rightarrow> string" where
  "percent_decode_str s = utf8_lossy (percent_decode s)"

definition base64_dec :: "char \<Rightarrow> u8 option" where
  "base64_dec c =
     (let b = byte_val c in
      if 65 \<le> b \<and> b \<le> 90 then Some (of_nat (b - 65))
      else if 97 \<le> b \<and> b \<le> 122 then Some (of_nat (b - 97 + 26))
      else if 48 \<le> b \<and> b \<le> 57 then Some (of_nat (b - 48 + 52))
      else if c = CHR ''+'' then Some 62
      else if c = CHR ''/'' then Some 63
      else if c = CHR ''='' then Some 0
      else None)"

definition byte_of :: "u8 \<Rightarrow> char" where
  "byte_of w = char_of (unat w)"

definition is_ascii_whitespace :: "char \<Rightarrow> bool" where
  "is_ascii_whitespace c = (byte_val c \<in> {9, 10, 12, 13, 32})"

text \<open>The chunks of four characters.\<close>

fun base64_chunks :: "bytes \<Rightarrow> bytes option" where
  "base64_chunks (p # q # r # s # rest) =
     (case (base64_dec p, base64_dec q, base64_dec r, base64_dec s) of
        (Some a, Some b, Some c, Some d) \<Rightarrow>
          map_option (\<lambda>out.
              [byte_of (push_bit 2 a OR drop_bit 4 b)]
              @ (if r \<noteq> CHR ''='' then [byte_of (push_bit 4 (b AND 0x0f) OR drop_bit 2 c)] else [])
              @ (if s \<noteq> CHR ''='' then [byte_of (push_bit 6 (c AND 0x03) OR d)] else [])
              @ out)
            (base64_chunks rest)
      | _ \<Rightarrow> None)"
| "base64_chunks _ = Some []"

definition base64_std_decode :: "bytes \<Rightarrow> bytes option" where
  "base64_std_decode input =
     (let filtered = filter (\<lambda>c. \<not> is_ascii_whitespace c) input in
      if length filtered mod 4 \<noteq> 0 then None else base64_chunks filtered)"

definition decode_unpadded_base64 :: "string \<Rightarrow> bytes option" where
  "decode_unpadded_base64 s =
     base64_std_decode (s @ replicate ((4 - length s mod 4) mod 4) CHR ''='')"

type_synonym hash_order = "(string \<times> bytes) list \<Rightarrow> (string \<times> bytes) list"

definition fs_xattrs_from_pax_entries ::
    "hash_order \<Rightarrow> (string \<times> bytes) list \<Rightarrow> (string \<times> bytes) list \<Rightarrow> (string \<times> bytes) list" where
  "fs_xattrs_from_pax_entries iter schily libarchive =
     foldl (\<lambda>m (enc_key, b64_val).
         if \<not> utf8_valid b64_val then m
         else case decode_unpadded_base64 (trim b64_val) of
           Some decoded \<Rightarrow> AList.update (percent_decode_str enc_key) decoded m
         | None \<Rightarrow> m)
       schily (iter libarchive)"

text \<open>The variables of the record loop.\<close>

record pax_work =
  pw_map :: "(string \<times> string) list"
  pw_sparse_pairs :: "(u64 \<times> u64) list"
  pw_schily :: "(string \<times> bytes) list"
  pw_libarchive :: "(string \<times> bytes) list"
  pw_pending_offset :: "u64 option"

definition pax_work_init :: pax_work where
  "pax_work_init =
     \<lparr>pw_map = [], pw_sparse_pairs = [], pw_schily = [], pw_libarchive = [], pw_pending_offset = None\<rparr>"

text \<open>What one record with its key and raw value does.\<close>

definition pax_put :: "pax_work \<Rightarrow> string \<Rightarrow> bytes \<Rightarrow> pax_work" where
  "pax_put w key val_raw =
     (let val = utf8_lossy val_raw;
          w1 =
            (if key = ''GNU.sparse.offset'' then w\<lparr>pw_pending_offset := parse_u64 val\<rparr>
             else if key = ''GNU.sparse.numbytes'' then
               (case (pw_pending_offset w, parse_u64 val) of
                  (Some off, Some len) \<Rightarrow>
                    w\<lparr>pw_sparse_pairs := pw_sparse_pairs w @ [(off, len)], pw_pending_offset := None\<rparr>
                | _ \<Rightarrow> w\<lparr>pw_pending_offset := None\<rparr>)
             else case strip_prefix key SCHILY_XATTR_PREFIX of
               Some name \<Rightarrow> w\<lparr>pw_schily := AList.update name val_raw (pw_schily w)\<rparr>
             | None \<Rightarrow>
                 (case strip_prefix key LIBARCHIVE_XATTR_PREFIX of
                    Some name \<Rightarrow> w\<lparr>pw_libarchive := AList.update name val_raw (pw_libarchive w)\<rparr>
                  | None \<Rightarrow> w))
      in w1\<lparr>pw_map := AList.update key val (pw_map w1)\<rparr>)"

definition pax_record :: "pax_work \<Rightarrow> nat \<Rightarrow> bytes \<Rightarrow> pax_work" where
  "pax_record w sp rcd =
     (case position CHR ''='' rcd of
        None \<Rightarrow> w
      | Some eq \<Rightarrow>
          (if sp + 1 < eq then
             let key = utf8_lossy (slice (sp + 1) eq rcd);
                 val_end = (if last rcd = CHR 0x0A then length rcd - 1 else length rcd)
             in pax_put w key (slice (eq + 1) val_end rcd)
           else w))"

text \<open>
  The loop at byte \<open>i\<close>. The end \<open>i + rec_len\<close> is a wrapping sum; a record whose end wraps to before its
  start slices out of order, which panics (\<open>None\<close>).
\<close>

function pax_loop :: "bytes \<Rightarrow> nat \<Rightarrow> pax_work \<Rightarrow> pax_work option" where
  "pax_loop dat i w =
     (if length dat \<le> i then Some w
      else if dat ! i = CHR 0x00 then Some w
      else case position CHR '' '' (drop i dat) of
        None \<Rightarrow> Some w
      | Some sp \<Rightarrow>
          (let len_str = take sp (drop i dat) in
           if \<not> utf8_valid len_str then Some w
           else case parse_usize len_str of
             None \<Rightarrow> Some w
           | Some rec_len \<Rightarrow>
               (if rec_len = 0 \<or> length dat < (i + rec_len) mod 2 ^ 64 then Some w
                else if (i + rec_len) mod 2 ^ 64 < i then None
                else pax_loop dat (i + rec_len) (pax_record w sp (slice i (i + rec_len) dat)))))"
  by pat_completeness auto
termination
  by (relation "measure (\<lambda>(dat, i, w). length dat - i)") auto

declare pax_loop.simps [simp del]

definition pax_finish :: "hash_order \<Rightarrow> pax_work \<Rightarrow> pax_parsed" where
  "pax_finish iter w =
     \<lparr>pp_map = pw_map w, pp_sparse_pairs = pw_sparse_pairs w,
      pp_fs_xattrs = fs_xattrs_from_pax_entries iter (pw_schily w) (pw_libarchive w)\<rparr>"

definition parse_pax_records :: "hash_order \<Rightarrow> bytes \<Rightarrow> pax_parsed option" where
  "parse_pax_records iter dat = map_option (pax_finish iter) (pax_loop dat 0 pax_work_init)"

section \<open>Writing\<close>

definition pax_body :: "string \<Rightarrow> bytes \<Rightarrow> bytes" where
  "pax_body key val = '' '' @ key @ ''='' @ val @ [CHR 0x0A]"

definition encode_pax_record :: "string \<Rightarrow> bytes \<Rightarrow> io_error + bytes" where
  "encode_pax_record key val =
     (case find (\<lambda>d. length (show_nat (d + length (pax_body key val))) = d) [1..<21] of
        Some d \<Rightarrow> Inr (show_nat (d + length (pax_body key val)) @ pax_body key val)
      | None \<Rightarrow> Inl (IoError InvalidData (''pax record too long for '' @ key)))"

section \<open>Written records read back\<close>

lemma length_show_nat_Suc: "length (show_nat n) \<le> length (show_nat (Suc n)) \<and> length (show_nat (Suc n)) \<le> Suc (length (show_nat n))"
proof (induction n rule: show_nat.induct)
  case (1 n)
  show ?case
  proof (cases "n < 10")
    case True
    then show ?thesis
      by (cases "n = 9") (simp_all add: show_nat.simps [of n] show_nat.simps [of "Suc n"] show_nat.simps [of 10]
          show_nat.simps [of 9] show_nat.simps [of "Suc 0"])
  next
    case False
    have "Suc n div 10 = n div 10 \<or> Suc n div 10 = Suc (n div 10)"
      by (simp add: div_Suc)
    with 1 [OF False] False show ?thesis
      by (auto simp: show_nat.simps [of n] show_nat.simps [of "Suc n"])
  qed
qed

lemma length_show_nat_le: "0 < k \<Longrightarrow> n < 10 ^ k \<Longrightarrow> length (show_nat n) \<le> k"
proof (induction n arbitrary: k rule: show_nat.induct)
  case (1 n)
  show ?case
  proof (cases "n < 10")
    case False
    then obtain j where j: "k = Suc j" "0 < j"
      using 1(2,3) by (cases k; cases "k - 1") auto
    with 1 False have "length (show_nat (n div 10)) \<le> j"
      by (intro 1(1)) (auto simp: div_less_iff_less_mult mult.commute)
    with False j show ?thesis by (simp add: show_nat.simps [of n])
  qed (use 1(2) in \<open>simp add: show_nat.simps [of n]\<close>)
qed

text \<open>The length prefix can always be chosen for a body that fits in a real buffer.\<close>

lemma length_digits_exist:
  assumes "L < 10 ^ 18"
  shows "\<exists>d \<in> set [1..<21]. length (show_nat (d + L)) = d"
proof -
  let ?f = "\<lambda>d. length (show_nat (d + L))"
  have top: "?f 20 \<le> 19"
    using assms by (intro length_show_nat_le) auto
  have "\<exists>d \<ge> 1. d \<le> 20 \<and> ?f d < d" by (rule exI [of _ 20]) (use top in simp)
  then obtain d where d: "1 \<le> d" "d \<le> 20" "?f d < d" "\<forall>e. 1 \<le> e \<and> e < d \<longrightarrow> e \<le> ?f e"
    using exists_least_iff [of "\<lambda>d. 1 \<le> d \<and> d \<le> 20 \<and> ?f d < d"] by (auto simp: not_less)
  have "d \<noteq> 1"
    using d(3) by (metis One_nat_def less_one show_nat_neq_Nil length_0_conv)
  then obtain e where e: "d = Suc e" "1 \<le> e" using d(1) by (cases d) auto
  then have "e \<le> ?f e" "?f e \<le> ?f d" "?f d \<le> e"
    using d length_show_nat_Suc [of "e + L"] by auto
  then show ?thesis using e d(2) by (intro bexI [of _ e]) auto
qed

lemma encode_pax_record_ok:
  assumes "length (pax_body key val) < 10 ^ 18"
  obtains n where "encode_pax_record key val = Inr (show_nat n @ pax_body key val)"
    "n = length (show_nat n @ pax_body key val)" "n < 2 ^ 64"
proof -
  let ?L = "length (pax_body key val)"
  obtain d where d: "find (\<lambda>d. length (show_nat (d + ?L)) = d) [1..<21] = Some d"
    using length_digits_exist [OF assms] by (cases "find (\<lambda>d. length (show_nat (d + ?L)) = d) [1..<21]")
      (auto simp: find_None_iff)
  then have "d \<in> set [1..<21]" "length (show_nat (d + ?L)) = d"
    by (auto simp: find_Some_iff)
  then show thesis
    using that [of "d + ?L"] d assms by (simp add: encode_pax_record_def)
qed

definition good_pax_key :: "string \<Rightarrow> bool" where
  "good_pax_key key \<longleftrightarrow> key \<noteq> [] \<and> CHR ''='' \<notin> set key \<and> utf8_valid key"

lemma show_nat_notin: "\<not> is_ascii_digit c \<Longrightarrow> c \<notin> set (show_nat n)"
  using show_nat_digits by blast

lemma show_nat_ascii: "list_all is_ascii (show_nat n)"
  using show_nat_digits [of _ n] by (fastforce simp: list_all_iff is_ascii_def is_ascii_digit_def byte_val_def)

lemma pax_record_encoded:
  assumes "good_pax_key key"
  shows "pax_record w (length (show_nat n)) (show_nat n @ pax_body key val) = pax_put w key val"
proof -
  let ?d = "show_nat n"
  have e: "CHR ''='' \<notin> set (?d @ '' '' @ key)"
    using assms show_nat_notin [of "CHR ''=''" n] by (auto simp: good_pax_key_def is_ascii_digit_def)
  have rcd: "?d @ pax_body key val = (?d @ '' '' @ key) @ CHR ''='' # val @ [CHR 0x0A]"
    by (simp add: pax_body_def)
  have p: "position CHR ''='' (?d @ pax_body key val) = Some (length ?d + 1 + length key)"
    unfolding rcd by (subst position_append [OF e]) simp
  have k: "slice (length ?d + 1) (length ?d + 1 + length key) (?d @ pax_body key val) = key"
    by (simp add: slice_def pax_body_def)
  have v: "slice (length ?d + 1 + length key + 1) (length (?d @ pax_body key val) - 1) (?d @ pax_body key val) = val"
    by (simp add: slice_def pax_body_def)
  have "key \<noteq> []" "utf8_lossy key = key"
    using assms by (auto simp: good_pax_key_def utf8_lossy_valid)
  moreover have "last (?d @ pax_body key val) = CHR 0x0A"
    by (simp add: pax_body_def)
  ultimately show ?thesis
    unfolding pax_record_def p using k v by (simp add: Let_def)
qed

text \<open>One written record in the middle of a buffer is one round of the loop.\<close>

lemma pax_loop_encoded:
  assumes key: "good_pax_key key" and n: "n = length (show_nat n @ pax_body key val)" "n < 2 ^ 64"
    and dat: "dat = pre @ (show_nat n @ pax_body key val) @ rest" and len: "length dat < 2 ^ 64"
  shows "pax_loop dat (length pre) w = pax_loop dat (length pre + n) (pax_put w key val)"
proof -
  let ?r = "show_nat n @ pax_body key val"
  have dr: "drop (length pre) dat = ?r @ rest" by (simp add: dat)
  have i: "length pre < length dat" by (simp add: dat)
  have "dat ! length pre = hd (show_nat n)"
    by (simp add: dat nth_append hd_conv_nth)
  moreover have "is_ascii_digit (hd (show_nat n))"
    by (rule show_nat_digits [of _ n]) simp
  ultimately have c: "dat ! length pre \<noteq> CHR 0x00" by (auto simp: is_ascii_digit_def)
  have "CHR '' '' \<notin> set (show_nat n)"
    by (rule show_nat_notin) (simp add: is_ascii_digit_def)
  then have p: "position CHR '' '' (?r @ rest) = Some (length (show_nat n))"
    using position_append [of "CHR '' ''" "show_nat n"] by (simp add: pax_body_def)
  have v: "utf8_valid (show_nat n)"
    using show_nat_ascii by (rule utf8_valid_ascii)
  have len2: "length pre + n + length rest = length dat"
    unfolding dat using n(1) by (metis add.assoc length_append)
  then have m: "(length pre + n) mod 2 ^ 64 = length pre + n"
    using len by simp
  have sl: "slice (length pre) (length pre + n) dat = ?r"
    using n(1) by (simp add: slice_def dr)
  have n0: "n \<noteq> 0"
    using n(1) by (metis append_is_Nil_conv length_0_conv show_nat_neq_Nil)
  have "take (length (show_nat n)) (?r @ rest) = show_nat n" by simp
  then show ?thesis
    using i c n(2) n0 len2 m
    by (subst pax_loop.simps) (simp only: dr p v option.case Let_def sl if_False if_True not_le simp_thms
        parse_usize_show_nat pax_record_encoded [OF key] not_less, simp)
qed

lemma encode_pax_recordD:
  assumes "encode_pax_record key val = Inr r"
  obtains n where "r = show_nat n @ pax_body key val" "n = length r"
proof -
  let ?L = "length (pax_body key val)"
  from assms obtain d where d: "find (\<lambda>d. length (show_nat (d + ?L)) = d) [1..<21] = Some d"
    and r: "r = show_nat (d + ?L) @ pax_body key val"
    by (auto simp: encode_pax_record_def split: option.splits)
  from d have "length (show_nat (d + ?L)) = d"
    by (auto simp: find_Some_iff)
  then have "d + ?L = length r"
    unfolding r length_append by (rule arg_cong [of _ _ "\<lambda>k. k + ?L", OF sym])
  with r show thesis by (rule that)
qed

lemma pax_loop_records:
  assumes "list_all (\<lambda>(k, v). good_pax_key k) kvs"
    and "list_all2 (\<lambda>(k, v) r. encode_pax_record k v = Inr r) kvs rs"
    and "length (pre @ concat rs) < 2 ^ 64"
  shows "pax_loop (pre @ concat rs) (length pre) w = Some (foldl (\<lambda>w (k, v). pax_put w k v) w kvs)"
  using assms
proof (induction kvs arbitrary: pre rs w)
  case Nil
  then show ?case by (simp add: pax_loop.simps)
next
  case (Cons kv kvs)
  obtain k v where kv: "kv = (k, v)" by force
  obtain r rs' where rs: "rs = r # rs'" "encode_pax_record k v = Inr r"
      "list_all2 (\<lambda>(k, v) r. encode_pax_record k v = Inr r) kvs rs'"
    using Cons.prems(2) kv by (auto simp: list_all2_Cons1)
  obtain n where n: "r = show_nat n @ pax_body k v" "n = length r"
    using rs(2) by (rule encode_pax_recordD)
  have key: "good_pax_key k" using Cons.prems(1) kv by simp
  have "pax_loop (pre @ concat rs) (length pre) w = pax_loop (pre @ concat rs) (length pre + n) (pax_put w k v)"
  proof (rule pax_loop_encoded [OF key])
    show "n = length (show_nat n @ pax_body k v)" using n by simp
    show "pre @ concat rs = pre @ (show_nat n @ pax_body k v) @ concat rs'" using n(1) rs(1) by simp
    show "length (pre @ concat rs) < 2 ^ 64" by (rule Cons.prems(3))
    then show "n < 2 ^ 64" using n(2) rs(1) by simp
  qed
  also have "\<dots> = pax_loop ((pre @ r) @ concat rs') (length (pre @ r)) (pax_put w k v)"
    using n(2) rs(1) by simp
  also have "\<dots> = Some (foldl (\<lambda>w (k, v). pax_put w k v) (pax_put w k v) kvs)"
    using Cons.prems rs by (intro Cons.IH) auto
  finally show ?case by (simp add: kv)
qed

section \<open>Properties\<close>

text \<open>C27: Extended header records survive writing and reading: for keys that are non-empty valid UTF-8 without an
  equals sign and arbitrary binary values (which may hold newlines, equals signs and zero bytes), the
  reader of the concatenated encoded records applies exactly the written key and value of each record,
  in order, and does not panic.\<close>

theorem pax_records_roundtrip:
  assumes "list_all (\<lambda>(k, v). good_pax_key k) kvs"
    and "list_all2 (\<lambda>(k, v) r. encode_pax_record k v = Inr r) kvs rs"
    and "length (concat rs) < 2 ^ 64"
  shows "parse_pax_records iter (concat rs) =
    Some (pax_finish iter (foldl (\<lambda>w (k, v). pax_put w k v) pax_work_init kvs))"
  using pax_loop_records [of kvs rs "[]" pax_work_init] assms by (simp add: parse_pax_records_def)

theorem pax_records_roundtrip_witness:
  "parse_pax_records (\<lambda>m. m) (concat [''9 uid=42'' @ [CHR 0x0A], ''23 SCHILY.xattr.u='' @ [CHR 0x00, CHR ''='', CHR 0x0A, CHR 0xFF, CHR 0x0A]]) =
     Some \<lparr>pp_map = [(''uid'', ''42''), (''SCHILY.xattr.u'', [CHR 0x00, CHR ''='', CHR 0x0A] @ replacement_char)],
           pp_sparse_pairs = [], pp_fs_xattrs = [(''u'', [CHR 0x00, CHR ''='', CHR 0x0A, CHR 0xFF])]\<rparr>"
proof -
  let ?kvs = "[(''uid'', ''42''), (''SCHILY.xattr.u'', [CHR 0x00, CHR ''='', CHR 0x0A, CHR 0xFF])]"
  let ?rs = "[''9 uid=42'' @ [CHR 0x0A], ''23 SCHILY.xattr.u='' @ [CHR 0x00, CHR ''='', CHR 0x0A, CHR 0xFF, CHR 0x0A]]"
  have "list_all (\<lambda>(k, v). good_pax_key k) ?kvs"
    by code_simp
  moreover have "list_all2 (\<lambda>(k, v) r. encode_pax_record k v = Inr r) ?kvs ?rs"
    by code_simp
  moreover have "length (concat ?rs) < 2 ^ 64" by simp
  ultimately have "parse_pax_records (\<lambda>m. m) (concat ?rs) =
      Some (pax_finish (\<lambda>m. m) (foldl (\<lambda>w (k, v). pax_put w k v) pax_work_init ?kvs))"
    by (rule pax_records_roundtrip)
  moreover have "pax_finish (\<lambda>m. m) (foldl (\<lambda>w (k, v). pax_put w k v) pax_work_init ?kvs) =
     \<lparr>pp_map = [(''uid'', ''42''), (''SCHILY.xattr.u'', [CHR 0x00, CHR ''='', CHR 0x0A] @ replacement_char)],
           pp_sparse_pairs = [], pp_fs_xattrs = [(''u'', [CHR 0x00, CHR ''='', CHR 0x0A, CHR 0xFF])]\<rparr>"
    by code_simp
  ultimately show ?thesis by simp
qed


end
