(* ===== verification/Tar_Rows.thy ===== *)
theory Tar_Rows
  imports Tar_Pax Row_Window Paths Catalog_Search
begin

unbundle bit_operations_syntax

text \<open>
  The index rows one archive member turns into (\<open>push_entry\<close>, \<open>push_dumpdir_entries\<close>,
  \<open>ensure_parent_dirs\<close>, \<open>push_nested_member_as_directory\<close> and the dumpdir deletions of
  \<open>ratarmount-formats-tar/src/lib.rs\<close>). An operation gives the rows it pushes onto the batch, in order, and
  the new set of directories that need no generated row.
\<close>

section \<open>Names\<close>

function strip_dot_slash :: "string \<Rightarrow> string" where
  "strip_dot_slash s = (if starts_with s ''./'' then strip_dot_slash (drop 2 s) else s)"
  by pat_completeness auto
termination
  by (relation "measure length") (auto simp: starts_with_def split: list.splits elim: list.set_cases dest!: arg_cong [of _ _ length])

declare strip_dot_slash.simps [simp del]

definition normalize_member_path :: "string \<Rightarrow> string" where
  "normalize_member_path name = normpath (strip_dot_slash (trim_end_matches CHR ''/'' name))"

definition name_looks_like_tar :: "string \<Rightarrow> bool" where
  "name_looks_like_tar name = ends_with (to_ascii_lowercase name) ''.tar''"

definition is_regular_tar_member :: "char \<Rightarrow> string \<Rightarrow> bool" where
  "is_regular_tar_member typeflag name =
     (if ends_with name ''/'' then False
      else typeflag \<in> {CHR ''0'', CHR 0x00, CHR ''7''}
        \<or> typeflag \<notin> {CHR ''1'', CHR ''2'', CHR ''3'', CHR ''4'', CHR ''5'', CHR ''6'', CHR ''D'', CHR ''S'',
            CHR ''L'', CHR ''K'', CHR ''x'', CHR ''g'', CHR ''X''})"

definition join_path_prefix :: "string \<Rightarrow> string \<Rightarrow> string" where
  "join_path_prefix pre name0 =
     (let name = trim_start_matches CHR ''/'' (strip_dot_slash name0) in
      if pre = [] then name
      else
        let p = trim_end_matches CHR ''/'' pre in
        if name = [] then p else p @ ''/'' @ name)"

text \<open>The split of a full path into the \<open>path\<close> and \<open>name\<close> columns.\<close>

definition split_full_path :: "string \<Rightarrow> string \<times> string" where
  "split_full_path full_path =
     (case rsplit_once CHR ''/'' full_path of
        Some (p, n) \<Rightarrow> (p, n)
      | None \<Rightarrow> ([], full_path))"

section \<open>Rows\<close>

fun parent_rows :: "string \<Rightarrow> string list \<Rightarrow> string list \<Rightarrow> f64 \<Rightarrow> i64 \<Rightarrow> i64 \<Rightarrow> file_row list \<times> string list" where
  "parent_rows cur [] generated mtime uid gid = ([], generated)"
| "parent_rows cur (part # parts) generated mtime uid gid =
     (let cur' = (if cur = [] then ''/'' @ part else cur @ ''/'' @ part) in
      if cur' \<in> set generated then parent_rows cur' parts generated mtime uid gid
      else
        let (rows, generated') = parent_rows cur' parts (cur' # generated) mtime uid gid
        in (\<lparr>r_path = cur, r_name = part, r_offsetheader = 0, r_offset = 0, r_size = 0, r_mtime = mtime,
             r_mode = ucast (S_IFDIR OR 0x1ED), r_typeflag = 0x35, r_linkname = [], r_uid = uid, r_gid = gid,
             r_istar = False, r_issparse = False, r_isgenerated = True, r_recursiondepth = 0\<rparr> # rows,
            generated'))"

definition ensure_parent_dirs ::
    "string \<Rightarrow> string list \<Rightarrow> f64 \<Rightarrow> i64 \<Rightarrow> i64 \<Rightarrow> file_row list \<times> string list" where
  "ensure_parent_dirs path generated mtime uid gid =
     (if path = [] then ([], generated)
      else parent_rows [] (filter (\<lambda>p. p \<noteq> []) (split_on CHR ''/'' (trim_start_matches CHR ''/'' path)))
             generated mtime uid gid)"

definition push_entry ::
    "string \<Rightarrow> u64 \<Rightarrow> u64 \<Rightarrow> u64 \<Rightarrow> f64 \<Rightarrow> u32 \<Rightarrow> char \<Rightarrow> string \<Rightarrow> i64 \<Rightarrow> i64 \<Rightarrow> bool \<Rightarrow> bool \<Rightarrow> i64
      \<Rightarrow> string list \<Rightarrow> file_row list \<times> string list" where
  "push_entry full_name offsetheader offset sz mtime mode_bits typeflag linkname uid gid issparse istar
       recursiondepth generated =
     (let is_dir = (typeflag = CHR ''5'' \<or> ends_with full_name ''/'');
          full = trim_end_matches CHR ''/'' full_name
      in if full = [] then ([], generated)
         else
           let full_path = normpath (strip_dot_slash full);
               (path, name) = split_full_path full_path;
               (parents, generated') = ensure_parent_dirs path generated mtime uid gid;
               ifmt = (if is_dir then S_IFDIR else if typeflag = CHR ''2'' then S_IFLNK else S_IFREG)
           in (parents @
               [\<lparr>r_path = path, r_name = name, r_offsetheader = offsetheader, r_offset = offset,
                 r_size = (if is_dir then 0 else sz), r_mtime = mtime,
                 r_mode = ucast ((mode_bits AND 0xFFF) OR ifmt), r_typeflag = of_nat (byte_val typeflag),
                 r_linkname = linkname, r_uid = uid, r_gid = gid, r_istar = istar, r_issparse = issparse,
                 r_isgenerated = False, r_recursiondepth = recursiondepth\<rparr>],
               generated'))"

definition push_dumpdir_entries ::
    "string \<Rightarrow> u64 \<Rightarrow> u64 \<Rightarrow> u64 \<Rightarrow> f64 \<Rightarrow> u32 \<Rightarrow> string \<Rightarrow> i64 \<Rightarrow> i64 \<Rightarrow> i64 \<Rightarrow> string list
      \<Rightarrow> file_row list \<times> string list" where
  "push_dumpdir_entries full_name offsetheader offset sz mtime mode_bits linkname uid gid recursiondepth generated =
     (let full = trim_end_matches CHR ''/'' full_name in
      if full = [] then ([], generated)
      else
        let full_path = normpath (strip_dot_slash full);
            (path, name) = split_full_path full_path;
            (parents, generated') = ensure_parent_dirs path generated mtime uid gid;
            meta = \<lparr>r_path = path, r_name = name, r_offsetheader = offsetheader, r_offset = offset, r_size = sz,
              r_mtime = mtime, r_mode = ucast ((mode_bits AND 0xFFF) OR S_IFREG), r_typeflag = 0x44,
              r_linkname = linkname, r_uid = uid, r_gid = gid, r_istar = False, r_issparse = False,
              r_isgenerated = False, r_recursiondepth = recursiondepth\<rparr>
        in (parents @
            [meta,
             meta\<lparr>r_offsetheader := offsetheader + 1, r_size := 0,
               r_mode := ucast ((mode_bits AND 0xFFF) OR S_IFDIR)\<rparr>],
            List.insert (if path = [] then ''/'' @ name else path @ ''/'' @ name) generated'))"

section \<open>Dumpdir deletions\<close>

fun dumpdir_loop :: "bytes \<Rightarrow> nat \<Rightarrow> (char \<times> string) list" where
  "dumpdir_loop payload 0 = []"
| "dumpdir_loop payload (Suc fuel) =
     (case payload of
        [] \<Rightarrow> []
      | c # rest \<Rightarrow>
          (if c = CHR 0x00 then []
           else
             let raw = takeWhile (\<lambda>b. b \<noteq> CHR 0x00) rest;
                 name = utf8_lossy raw;
                 more = dumpdir_loop (drop (length raw + 1) rest) fuel
             in if name \<noteq> [] then (c, name) # more else more))"

text \<open>Every round consumes a byte, so the payload's length is fuel enough.\<close>

definition parse_dumpdir_entries :: "bytes \<Rightarrow> (char \<times> string) list" where
  "parse_dumpdir_entries payload = dumpdir_loop payload (length payload)"

definition dumpdir_present_names :: "(char \<times> string) list \<Rightarrow> string list" where
  "dumpdir_present_names entries =
     remdups (map snd (filter (\<lambda>(c, n). c = CHR ''Y'' \<or> c = CHR ''N'' \<or> c = CHR ''D'') entries))"

definition dumpdir_dir_full_path :: "string \<Rightarrow> string" where
  "dumpdir_dir_full_path full_name =
     (let full = strip_dot_slash (trim_end_matches CHR ''/'' full_name) in
      if full = [] \<or> full = ''.'' then ''/'' else normpath full)"

definition dumpdir_children_sql_path :: "string \<Rightarrow> string" where
  "dumpdir_children_sql_path dir_full = (if dir_full = ''/'' then [] else dir_full)"

text \<open>\<open>order\<close> is the iteration order of the set difference.\<close>

definition apply_dumpdir_deletes ::
    "(string list \<Rightarrow> string list) \<Rightarrow> string \<Rightarrow> u64 \<Rightarrow> bytes \<Rightarrow> f64 \<Rightarrow> i64 \<Rightarrow> i64 \<Rightarrow> i64
      \<Rightarrow> (string \<times> string list) list \<Rightarrow> file_row list \<times> (string \<times> string list) list" where
  "apply_dumpdir_deletes order full_name offsetheader payload mtime uid gid recursiondepth dumpdir_state =
     (let dir_full = dumpdir_dir_full_path full_name;
          present = dumpdir_present_names (parse_dumpdir_entries payload);
          rows =
            (case map_of dumpdir_state dir_full of
               None \<Rightarrow> []
             | Some prev \<Rightarrow>
                 map (\<lambda>(tomb_i, name).
                     \<lparr>r_path = dumpdir_children_sql_path dir_full, r_name = name,
                      r_offsetheader = offsetheader + 2 + of_nat tomb_i, r_offset = 0, r_size = 0,
                      r_mtime = mtime, r_mode = 0, r_typeflag = 0x44, r_linkname = DUMPDIR_DELETE_LINKNAME,
                      r_uid = uid, r_gid = gid, r_istar = False, r_issparse = False, r_isgenerated = True,
                      r_recursiondepth = recursiondepth\<rparr>)
                   (enumerate 0 (order (filter (\<lambda>n. n \<notin> set present) prev))))
      in (rows, AList.update dir_full present dumpdir_state))"

section \<open>Nested archives\<close>

record nested_tar_member =
  nm_path :: string
  nm_offset :: u64
  nm_size :: u64

record nested_pending =
  np_member :: nested_tar_member
  np_offsetheader :: u64
  np_mtime :: f64
  np_mode_bits :: u32
  np_uid :: i64
  np_gid :: i64

definition push_nested_member_as_directory ::
    "nested_pending \<Rightarrow> i32 \<Rightarrow> string list \<Rightarrow> file_row list \<times> string list" where
  "push_nested_member_as_directory pending content_depth generated =
     (let full_path = trim_end_matches CHR ''/'' (nm_path (np_member pending));
          (path, name) = split_full_path full_path
      in if name = [] then ([], generated)
         else
           ([\<lparr>r_path = path, r_name = name, r_offsetheader = np_offsetheader pending + 1,
              r_offset = nm_offset (np_member pending) + 1, r_size = 0, r_mtime = np_mtime pending,
              r_mode = ucast ((np_mode_bits pending AND 0xFFF) OR S_IFDIR), r_typeflag = 0x35,
              r_linkname = [], r_uid = np_uid pending, r_gid = np_gid pending, r_istar = True,
              r_issparse = False, r_isgenerated = True, r_recursiondepth = scast content_depth\<rparr>],
            List.insert full_path generated))"

section \<open>The rows form a tree\<close>

definition row_fullname :: "file_row \<Rightarrow> string" where
  "row_fullname r = (if r_path r = [] then ''/'' @ r_name r else r_path r @ ''/'' @ r_name r)"

text \<open>
  Every row but deletion markers and one for the root itself has a canonical path and name, the directory it is in has a row,
  and every directory that is to get no generated row has a row already.
\<close>

definition has_row :: "file_row list \<Rightarrow> string list \<Rightarrow> bool" where
  "has_row rows cs \<longleftrightarrow> cs = [] \<or> (\<exists>r \<in> set rows. row_fullname r = abs_path cs)"

definition row_placed :: "file_row list \<Rightarrow> file_row \<Rightarrow> bool" where
  "row_placed rows r \<longleftrightarrow>
     r_linkname r = DUMPDIR_DELETE_LINKNAME
     \<or> (r_path r = [] \<and> r_name r = [])
     \<or> (\<exists>cs c. is_comps (cs @ [c]) \<and> r_path r = real_path cs \<and> r_name r = c \<and> has_row rows cs)"

definition tree_rows :: "file_row list \<Rightarrow> string list \<Rightarrow> bool" where
  "tree_rows rows generated \<longleftrightarrow>
     list_all (row_placed rows) rows
     \<and> (\<forall>g \<in> set generated. \<exists>r \<in> set rows. row_fullname r = g)"

lemma tree_rows_Nil [simp]: "tree_rows [] []"
  by (simp add: tree_rows_def)

lemma has_row_mono: "has_row rows cs \<Longrightarrow> set rows \<subseteq> set rows' \<Longrightarrow> has_row rows' cs"
  by (auto simp: has_row_def)

lemma row_placed_mono: "row_placed rows r \<Longrightarrow> set rows \<subseteq> set rows' \<Longrightarrow> row_placed rows' r"
  unfolding row_placed_def using has_row_mono by blast

lemma tree_rows_snoc:
  assumes "tree_rows rows gen" "is_comps (cs @ [c])" "has_row rows cs" "r_path r = real_path cs" "r_name r = c"
    "set gen' \<subseteq> insert (abs_path (cs @ [c])) (set gen)"
  shows "tree_rows (rows @ [r]) gen'" "has_row (rows @ [r]) (cs @ [c])"
proof -
  have f: "row_fullname r = abs_path (cs @ [c])"
    unfolding row_fullname_def assms(4,5) by (rule real_path_snoc [OF assms(2)])
  then show "has_row (rows @ [r]) (cs @ [c])" by (auto simp: has_row_def)
  have "row_placed (rows @ [r]) r"
    using assms(2-5) has_row_mono [of rows cs "rows @ [r]"] by (auto simp: row_placed_def)
  moreover have "list_all (row_placed (rows @ [r])) rows"
    using assms(1) row_placed_mono [of rows _ "rows @ [r]"] by (auto simp: tree_rows_def list_all_iff)
  ultimately show "tree_rows (rows @ [r]) gen'"
    using assms(1,6) f by (fastforce simp: tree_rows_def)
qed

lemma parent_rows_tree:
  assumes "tree_rows rows gen" "is_comps (cs @ parts)" "has_row rows cs"
    and "parent_rows (real_path cs) parts gen mtime uid gid = (new, gen')"
  shows "tree_rows (rows @ new) gen' \<and> has_row (rows @ new) (cs @ parts)"
  using assms
proof (induction parts arbitrary: cs rows gen new)
  case Nil
  then show ?case by simp
next
  case (Cons part parts)
  have cur: "(if real_path cs = [] then ''/'' @ part else real_path cs @ ''/'' @ part) = real_path (cs @ [part])"
    using Cons.prems(2) real_path_snoc [of cs part] by (simp add: real_path_def [of "cs @ [part]"])
  show ?case
  proof (cases "real_path (cs @ [part]) \<in> set gen")
    case True
    then have "has_row rows (cs @ [part])"
      using Cons.prems(1) by (auto simp: tree_rows_def has_row_def real_path_def)
    moreover have "parent_rows (real_path (cs @ [part])) parts gen mtime uid gid = (new, gen')"
      using Cons.prems(4) True unfolding parent_rows.simps cur Let_def by simp
    ultimately show ?thesis
      using Cons.IH [of rows gen "cs @ [part]" new] Cons.prems by simp
  next
    case False
    let ?r = "\<lparr>r_path = real_path cs, r_name = part, r_offsetheader = 0, r_offset = 0, r_size = 0, r_mtime = mtime,
             r_mode = ucast (S_IFDIR OR 0x1ED), r_typeflag = 0x35, r_linkname = [], r_uid = uid, r_gid = gid,
             r_istar = False, r_issparse = False, r_isgenerated = True, r_recursiondepth = 0\<rparr> :: file_row"
    obtain more where more: "parent_rows (real_path (cs @ [part])) parts (real_path (cs @ [part]) # gen) mtime uid gid = (more, gen')"
        "new = ?r # more"
      using Cons.prems(4) False unfolding parent_rows.simps cur Let_def by (auto split: prod.splits)
    have "tree_rows (rows @ [?r]) (real_path (cs @ [part]) # gen)" "has_row (rows @ [?r]) (cs @ [part])"
      using tree_rows_snoc [of rows gen cs part ?r "real_path (cs @ [part]) # gen"] Cons.prems
      by (simp_all add: real_path_def [of "cs @ [part]"])
    then show ?thesis
      using Cons.IH [OF _ _ _ more(1), of "rows @ [?r]"] Cons.prems(2) more(2) by simp
  qed
qed

lemma ensure_parent_dirs_tree:
  assumes "tree_rows rows gen" "is_comps cs" "ensure_parent_dirs (real_path cs) gen mtime uid gid = (new, gen')"
  shows "tree_rows (rows @ new) gen' \<and> has_row (rows @ new) cs"
proof (cases cs)
  case Nil
  with assms show ?thesis by (simp add: ensure_parent_dirs_def real_path_def has_row_def)
next
  case (Cons d ds)
  have "filter (\<lambda>p. p \<noteq> []) (split_on CHR ''/'' (trim_start_matches CHR ''/'' (abs_path cs))) = cs"
    using assms(2) Cons split_trim_abs [of cs] by (auto simp: is_comp_def is_comps_def list_all_iff intro!: filter_True)
  then have "parent_rows (real_path []) cs gen mtime uid gid = (new, gen')"
    using assms(3) Cons by (simp add: ensure_parent_dirs_def real_path_def)
  then show ?thesis
    using parent_rows_tree [OF assms(1), of "[]" cs] assms(2) by (simp add: has_row_def)
qed

lemma split_full_path_abs:
  "is_comps ds \<Longrightarrow> split_full_path (abs_path ds) = (if ds = [] then ([], []) else (real_path (butlast ds), last ds))"
proof (cases ds rule: rev_cases)
  case Nil
  have "rsplit_once CHR ''/'' ''/'' = Some ([], [])" by code_simp
  then show ?thesis by (simp add: Nil split_full_path_def)
next
  case (snoc cs c)
  assume "is_comps ds"
  with snoc show ?thesis
    by (simp add: split_full_path_def rsplit_once_abs_path real_path_def)
qed

lemma member_rows_tree:
  assumes tree: "tree_rows rows gen" and ds: "split_full_path (normpath full) = (path, name)"
    and par: "ensure_parent_dirs path gen mtime uid gid = (parents, gen')"
    and r: "\<forall>r \<in> set own. r_path r = path \<and> r_name r = name"
  shows "tree_rows (rows @ parents @ own) gen'"
    and "own \<noteq> [] \<Longrightarrow> tree_rows (rows @ parents @ own) (List.insert (if path = [] then ''/'' @ name else path @ ''/'' @ name) gen')"
proof -
  let ?ds = "components full"
  have ds': "(path, name) = (if ?ds = [] then ([], []) else (real_path (butlast ?ds), last ?ds))"
    using ds split_full_path_abs [of ?ds] by (simp add: normpath_abs)
  have cs: "path = real_path (butlast ?ds)" using ds' by (simp add: real_path_def split: if_splits)
  have tr: "tree_rows (rows @ parents) gen'" "has_row (rows @ parents) (butlast ?ds)"
    using ensure_parent_dirs_tree [OF tree, of "butlast ?ds"] par cs by auto
  have mono: "set (rows @ parents) \<subseteq> set (rows @ parents @ own)" by auto
  have placed: "row_placed (rows @ parents @ own) r" if "r \<in> set own" for r
  proof (cases "?ds = []")
    case True
    with ds' r that show ?thesis by (auto simp: row_placed_def)
  next
    case False
    then have "is_comps (butlast ?ds @ [last ?ds])" by simp
    with False ds' r that cs has_row_mono [OF tr(2) mono] show ?thesis
      unfolding row_placed_def by (intro disjI2 [OF disjI2] exI [of _ "butlast ?ds"] exI [of _ "last ?ds"]) auto
  qed
  have old: "list_all (row_placed (rows @ parents @ own)) (rows @ parents)"
    using tr(1) row_placed_mono [OF _ mono] by (auto simp: tree_rows_def list_all_iff)
  show T: "tree_rows (rows @ parents @ own) gen'"
    using tr(1) old placed unfolding tree_rows_def by (fastforce simp: list_all_iff)
  assume "own \<noteq> []"
  then obtain r0 where "r0 \<in> set own" by (cases own) auto
  then have "\<exists>r \<in> set (rows @ parents @ own). row_fullname r = (if path = [] then ''/'' @ name else path @ ''/'' @ name)"
    using r by (intro bexI [of _ r0]) (auto simp: row_fullname_def)
  with T show "tree_rows (rows @ parents @ own) (List.insert (if path = [] then ''/'' @ name else path @ ''/'' @ name) gen')"
    by (auto simp: tree_rows_def List.insert_def)
qed

lemma push_entry_tree:
  assumes "tree_rows rows gen"
    and "push_entry full_name oh off sz mtime mode tf link uid gid sp it rd gen = (new, gen')"
  shows "tree_rows (rows @ new) gen'"
proof (cases "trim_end_matches CHR ''/'' full_name = []")
  case True
  with assms show ?thesis by (simp add: push_entry_def)
next
  case False
  obtain path name where pn: "split_full_path (normpath (strip_dot_slash (trim_end_matches CHR ''/'' full_name))) = (path, name)"
    by force
  obtain parents gen1 where par: "ensure_parent_dirs path gen mtime uid gid = (parents, gen1)" by force
  from assms(2) False obtain r where "new = parents @ [r]" "gen' = gen1" "r_path r = path" "r_name r = name"
    by (auto simp: push_entry_def pn par Let_def)
  with member_rows_tree(1) [OF assms(1) pn par, of "[r]"] show ?thesis by simp
qed

end
