(* ===== verification/Tar_Walk.thy ===== *)
theory Tar_Walk
  imports Tar_Rows
begin

unbundle bit_operations_syntax

text \<open>
  The header walk that fills the index of a TAR archive (\<open>parse_tar_from\<close> and \<open>parse_tar_into_index\<close> of
  \<open>ratarmount-formats-tar/src/lib.rs\<close>). The variables of the walk are a record; the batch of rows stands for
  the columnar window that pushing them one by one gives. Positions are \<open>u64\<close> and wrap, as in a release
  build. Progress ticks are left out.
\<close>

section \<open>Environment and errors\<close>

datatype tar_error = TarIndex index_error | TarIo io_error | TarMsg string | TarPanic

record tar_options =
  to_ignore_zeros :: bool
  to_encoding :: string
  to_gnu_incremental :: "bool option"
  to_recursive :: bool
  to_recursion_depth :: "i32 option"

text \<open>
  What the walk takes from outside: the decoders of \<open>encoding_rs\<close>, the iteration orders of hash maps and hash
  sets, the answers of the cancel hook, and the SQLite statements it runs.
\<close>

record 'db tar_env =
  te_encodings :: encodings
  te_xattr_order :: hash_order
  te_name_order :: "string list \<Rightarrow> string list"
  te_cancelled :: "nat \<Rightarrow> bool"
  te_sql :: "'db sql_engine"
  te_insert_xattr :: "'db \<Rightarrow> i64 \<Rightarrow> string \<Rightarrow> bytes \<Rightarrow> 'db \<times> (index_error + unit)"
  te_put_metadata :: "'db \<Rightarrow> string \<Rightarrow> string \<Rightarrow> 'db \<times> (index_error + unit)"
  te_metadata_rows :: "'db \<Rightarrow> index_error + (string \<times> string) list"

definition and_then :: "'e + 'a \<Rightarrow> ('a \<Rightarrow> 'e + 'b) \<Rightarrow> 'e + 'b" where
  "and_then r f = (case r of Inl e \<Rightarrow> Inl e | Inr x \<Rightarrow> f x)"

definition map_err :: "('e \<Rightarrow> 'f) \<Rightarrow> 'e + 'a \<Rightarrow> 'f + 'a" where
  "map_err g r = (case r of Inl e \<Rightarrow> Inl (g e) | Inr x \<Rightarrow> Inr x)"

definition map_extend :: "('k \<times> 'v) list \<Rightarrow> ('k \<times> 'v) list \<Rightarrow> ('k \<times> 'v) list" where
  "map_extend m new = foldl (\<lambda>m (k, v). AList.update k v m) m new"

section \<open>Reading through the window guard\<close>

definition seek_guard :: "u64 \<Rightarrow> u64 \<Rightarrow> io_error + unit" where
  "seek_guard min_abs n =
     (if sint n < 0 then Inl (IoError InvalidInput ''seek before start'')
      else if min_abs > 0 \<and> n < min_abs then
        Inl (IoError InvalidInput
          (''incremental TAR parse must not seek to '' @ show_nat (unat n) @ '' (below window start ''
           @ show_nat (unat min_abs) @ '')''))
      else Inr ())"

definition read_tar_header :: "reader \<Rightarrow> u64 \<Rightarrow> io_error + bytes option" where
  "read_tar_header rd pos =
     (let b = fill_buf rd (unat pos) 512 in
      if b = [] then Inr None
      else if length b < 512 then
        Inl (IoError UnexpectedEof (''truncated TAR header: '' @ show_nat (length b) @ '' of 512 bytes''))
      else Inr (Some b))"

definition seek_header :: "reader \<Rightarrow> u64 \<Rightarrow> u64 \<Rightarrow> tar_error + bytes option" where
  "seek_header rd min_abs pos =
     map_err TarIo (and_then (seek_guard min_abs pos) (\<lambda>_. read_tar_header rd pos))"

definition seek_exact :: "reader \<Rightarrow> u64 \<Rightarrow> u64 \<Rightarrow> u64 \<Rightarrow> tar_error + bytes" where
  "seek_exact rd min_abs pos n =
     map_err TarIo (and_then (seek_guard min_abs pos) (\<lambda>_.
       if n = 0 then Inr [] else read_exact rd (unat pos) (unat n)))"

definition check_header_payload_size :: "u64 \<Rightarrow> string \<Rightarrow> tar_error + unit" where
  "check_header_payload_size sz kind =
     (if sz > MAX_HEADER_PAYLOAD_BYTES then
        Inl (TarMsg (kind @ '' header payload size '' @ show_nat (unat sz) @ '' exceeds cap of ''
          @ show_nat (unat MAX_HEADER_PAYLOAD_BYTES) @ '' bytes''))
      else Inr ())"

definition peek_tar_magic_at :: "reader \<Rightarrow> u64 \<Rightarrow> u64 \<Rightarrow> bool" where
  "peek_tar_magic_at rd min_abs data_off =
     (let off = saturating_add data_off 257 in
      case seek_guard min_abs off of
        Inl _ \<Rightarrow> False
      | Inr _ \<Rightarrow>
          (case read_exact rd (unat off) 5 of
             Inl _ \<Rightarrow> False
           | Inr magic \<Rightarrow> magic = ''ustar'' \<or> magic = ''GNU  ''))"

section \<open>Sparse layouts\<close>

text \<open>The lines of a format 1.0 map after the count: the pairs, and the bytes used up.\<close>

definition parse_or_zero :: "bytes \<Rightarrow> u64" where
  "parse_or_zero b = unwrap_or (parse_u64 (trim (if utf8_valid b then b else ''0''))) 0"

fun sparse_lines :: "nat \<Rightarrow> bytes \<Rightarrow> (u64 \<times> u64) list \<times> nat" where
  "sparse_lines 0 b = ([], 0)"
| "sparse_lines (Suc n) b =
     (case position CHR 0x0A b of
        None \<Rightarrow> ([], 0)
      | Some nl1 \<Rightarrow>
          let b2 = drop (nl1 + 1) b in
          case position CHR 0x0A b2 of
            None \<Rightarrow> ([], nl1 + 1)
          | Some nl2 \<Rightarrow>
              let off = parse_or_zero (take nl1 b); len = parse_or_zero (take nl2 b2);
                  (m, used) = sparse_lines n (drop (nl2 + 1) b2)
              in ((if off \<noteq> 0 \<or> len \<noteq> 0 then (off, len) # m else m), nl1 + 1 + (nl2 + 1) + used))"

text \<open>One \<open>read\<close> of at most 64 blocks; the map's capacity is reserved from the count the archive claims.\<close>

definition parse_sparse_1_0_map :: "reader \<Rightarrow> u64 \<Rightarrow> u64 \<Rightarrow> tar_error + (u64 \<times> u64) list \<times> u64" where
  "parse_sparse_1_0_map rd min_abs data_start =
     and_then (map_err TarIo (seek_guard min_abs data_start)) (\<lambda>_.
       let b = take (512 * 64) (rd (unat data_start) (512 * 64)) in
       case position CHR 0x0A b of
         None \<Rightarrow> Inl (TarMsg ''sparse 1.0 map missing count'')
       | Some nl0 \<Rightarrow>
           let line = take nl0 b;
               n = unwrap_or (parse_usize (trim (if utf8_valid line then line else ''0''))) 0
           in if n * 16 \<ge> 2 ^ 63 then Inl TarPanic
              else
                let (m, used) = sparse_lines n (drop (nl0 + 1) b)
                in Inr (m, data_start + pad512 (of_nat (nl0 + 1 + used))))"

text \<open>The extension blocks of an old GNU sparse member; \<open>limit\<close> is the end of a nested region.\<close>

function skip_sparse_ext :: "reader \<Rightarrow> u64 \<Rightarrow> u64 option \<Rightarrow> u64 \<Rightarrow> bool \<Rightarrow> tar_error + u64" where
  "skip_sparse_ext rd min_abs limit data_off is_extended =
     (if \<not> is_extended then Inr data_off
      else if (case limit of Some e \<Rightarrow> data_off + BLOCK_SIZE > e | None \<Rightarrow> False) then Inr data_off
      else case seek_exact rd min_abs data_off BLOCK_SIZE of
        Inl e \<Rightarrow> Inl e
      | Inr ext \<Rightarrow> skip_sparse_ext rd min_abs limit (data_off + BLOCK_SIZE) (ext ! 504 \<noteq> CHR 0x00))"
  by pat_completeness auto
termination
proof (relation "measure (\<lambda>(rd, min_abs, limit, data_off, e). 2 ^ 64 - unat data_off)", goal_cases)
  case (2 rd min_abs limit data_off e ext)
  then have "\<not> sint data_off < 0"
    by (auto simp: seek_exact_def seek_guard_def and_then_def map_err_def split: if_splits)
  then have "unat data_off < 2 ^ 63"
    by (simp add: sint_neg_u64)
  then have "unat (data_off + BLOCK_SIZE) = unat data_off + 512"
    by (simp add: BLOCK_SIZE_def unat_word_ariths)
  then show ?case
    using \<open>unat data_off < 2 ^ 63\<close> by simp
qed simp

declare skip_sparse_ext.simps [simp del]

section \<open>Members\<close>

text \<open>The PAX state between members.\<close>

record tar_pax =
  tp_global :: "(string \<times> string) list"
  tp_global_xattrs :: "(string \<times> bytes) list"
  tp_pending :: pax_parsed
  tp_header_start :: "u64 option"

definition tar_pax_init :: tar_pax where
  "tar_pax_init = \<lparr>tp_global = [], tp_global_xattrs = [], tp_pending = pax_empty, tp_header_start = None\<rparr>"

text \<open>
  A PAX or GNU long name header at \<open>pos\<close>: the new PAX state and the position after it. In a nested region
  (\<open>limit\<close>) a payload that reaches past the end stops the walk (\<open>None\<close>).
\<close>

definition past_limit :: "u64 option \<Rightarrow> u64 \<Rightarrow> bool" where
  "past_limit limit e = (case limit of Some region_end \<Rightarrow> e > region_end | None \<Rightarrow> False)"

definition pax_header ::
    "'db tar_env \<Rightarrow> reader \<Rightarrow> u64 \<Rightarrow> u64 option \<Rightarrow> bytes \<Rightarrow> u64 \<Rightarrow> tar_pax \<Rightarrow> tar_error + (tar_pax \<times> u64) option" where
  "pax_header env rd min_abs limit header pos px =
     (let sz = header_size header; body_off = pos + BLOCK_SIZE in
      and_then (check_header_payload_size sz ''PAX'') (\<lambda>_.
      if past_limit limit (body_off + sz) then Inr None
      else and_then (seek_exact rd min_abs body_off sz) (\<lambda>body.
        case parse_pax_records (te_xattr_order env) body of
          None \<Rightarrow> Inl TarPanic
        | Some recs \<Rightarrow>
            Inr (Some
              (if typeflag_of header = CHR ''g'' then
                 px\<lparr>tp_global := map_extend (tp_global px) (pp_map recs),
                    tp_global_xattrs := map_extend (tp_global_xattrs px) (pp_fs_xattrs recs)\<rparr>
               else px\<lparr>tp_pending := recs, tp_header_start := Some pos\<rparr>,
               body_off + pad512 sz)))))"

definition drop_trailing_nuls :: "bytes \<Rightarrow> bytes" where
  "drop_trailing_nuls b = rev (dropWhile (\<lambda>c. c = CHR 0x00) (rev b))"

definition long_header ::
    "'db tar_env \<Rightarrow> string \<Rightarrow> reader \<Rightarrow> u64 \<Rightarrow> u64 option \<Rightarrow> bytes \<Rightarrow> u64 \<Rightarrow> tar_pax
      \<Rightarrow> tar_error + (tar_pax \<times> u64) option" where
  "long_header env encoding rd min_abs limit header pos px =
     (let sz = header_size header; is_name = (typeflag_of header = CHR ''L''); data_off_long = pos + BLOCK_SIZE in
      and_then (check_header_payload_size sz (if is_name then ''GNU long name'' else ''GNU long link'')) (\<lambda>_.
      if past_limit limit (data_off_long + sz) then Inr None
      else and_then (seek_exact rd min_abs data_off_long sz) (\<lambda>long.
        let long_str = decode_bytes (te_encodings env) (drop_trailing_nuls long) encoding;
            pend = tp_pending px
        in Inr (Some
             (px\<lparr>tp_pending := pend\<lparr>pp_map :=
                AList.update (if is_name then ''path'' else ''linkpath'') long_str (pp_map pend)\<rparr>\<rparr>,
              data_off_long + pad512 sz)))))"

record tar_member =
  tm_header_start :: u64
  tm_name :: string
  tm_linkname :: string
  tm_typeflag :: char
  tm_mtime :: f64
  tm_mode :: u32
  tm_uid :: i64
  tm_gid :: i64
  tm_pax :: "(string \<times> string) list"
  tm_sparse_pairs :: "(u64 \<times> u64) list"
  tm_xattrs :: "(string \<times> bytes) list"
  tm_issparse :: bool
  tm_logical_size :: u64
  tm_data_off :: u64
  tm_on_tape :: u64

definition fix_incremental_backup_name_prefixes :: "string \<Rightarrow> bytes \<Rightarrow> string" where
  "fix_incremental_backup_name_prefixes name header =
     (case split_once CHR ''/'' name of
        None \<Rightarrow> name
      | Some (pre, rest) \<Rightarrow>
          (if pre = [] \<or> \<not> list_all is_octal_digit pre then name
           else
             let raw_prefix = slice 345 500 header in
             if starts_with raw_prefix pre \<and> length pre < length raw_prefix \<and> raw_prefix ! length pre = CHR 0x00
             then rest else name))"

text \<open>The fields of a member before its layout on the tape is looked at; pending PAX state is used up.\<close>

definition merge_member :: "'db tar_env \<Rightarrow> string \<Rightarrow> bool \<Rightarrow> bytes \<Rightarrow> u64 \<Rightarrow> tar_pax \<Rightarrow> tar_member" where
  "merge_member env encoding is_gnu header pos px =
     (let sz = header_size header;
          pax_map = map_extend (tp_global px) (pp_map (tp_pending px));
          name =
            (case map_of pax_map ''path'' of
               Some p \<Rightarrow> p
             | None \<Rightarrow>
                 (case map_of pax_map ''GNU.sparse.name'' of
                    Some p \<Rightarrow> p
                  | None \<Rightarrow> parse_name (te_encodings env) header encoding))
      in \<lparr>tm_header_start = unwrap_or (tp_header_start px) pos,
          tm_name = (if is_gnu then fix_incremental_backup_name_prefixes name header else name),
          tm_linkname = unwrap_or (map_of pax_map ''linkpath'')
            (cstr_field_encoded (te_encodings env) (slice 157 257 header) encoding),
          tm_typeflag = typeflag_of header,
          tm_mtime = unwrap_or (Option.bind (map_of pax_map ''mtime'') parse_f64)
            (u64_to_f64 (unwrap_or (parse_octal (slice 136 148 header)) 0)),
          tm_mode = ucast (unwrap_or (parse_octal (slice 100 108 header)) 0x1A4),
          tm_uid = unwrap_or (parse_octal (slice 108 116 header)) 0,
          tm_gid = unwrap_or (parse_octal (slice 116 124 header)) 0,
          tm_pax = pax_map, tm_sparse_pairs = pp_sparse_pairs (tp_pending px),
          tm_xattrs = map_extend (tp_global_xattrs px) (pp_fs_xattrs (tp_pending px)),
          tm_issparse = False, tm_logical_size = sz, tm_data_off = pos + BLOCK_SIZE, tm_on_tape = sz\<rparr>)"

definition take_pending :: "tar_pax \<Rightarrow> tar_pax" where
  "take_pending px = px\<lparr>tp_pending := pax_empty, tp_header_start := None\<rparr>"

definition is_pax_sparse :: "tar_member \<Rightarrow> bool" where
  "is_pax_sparse m =
     (map_of (tm_pax m) ''GNU.sparse.size'' \<noteq> None \<or> map_of (tm_pax m) ''GNU.sparse.realsize'' \<noteq> None
      \<or> map_of (tm_pax m) ''GNU.sparse.map'' \<noteq> None
      \<or> map_of (tm_pax m) ''GNU.sparse.major'' = Some ''1'' \<or> tm_sparse_pairs m \<noteq> [])"

definition old_sparse_layout ::
    "reader \<Rightarrow> u64 \<Rightarrow> u64 option \<Rightarrow> bytes \<Rightarrow> tar_member \<Rightarrow> tar_error + tar_member" where
  "old_sparse_layout rd min_abs limit header m =
     (if tm_typeflag m \<noteq> CHR ''S'' then Inr m
      else and_then (skip_sparse_ext rd min_abs limit (tm_data_off m) (header ! 482 \<noteq> CHR 0x00)) (\<lambda>data_off.
        Inr (m\<lparr>tm_issparse := True,
          tm_logical_size := unwrap_or (parse_octal (slice 483 495 header)) (header_size header),
          tm_data_off := data_off\<rparr>)))"

definition pax_sparse_layout :: "reader \<Rightarrow> u64 \<Rightarrow> u64 option \<Rightarrow> bytes \<Rightarrow> tar_member \<Rightarrow> tar_error + tar_member" where
  "pax_sparse_layout rd min_abs limit header m =
     (if \<not> is_pax_sparse m then Inr m
      else
        let m1 = m\<lparr>tm_issparse := True, tm_name := unwrap_or (map_of (tm_pax m) ''GNU.sparse.name'') (tm_name m),
              tm_logical_size := unwrap_or
                (Option.bind
                  (case map_of (tm_pax m) ''GNU.sparse.realsize'' of
                     Some s \<Rightarrow> Some s | None \<Rightarrow> map_of (tm_pax m) ''GNU.sparse.size'') parse_u64)
                (header_size header)\<rparr>
        in if map_of (tm_pax m) ''GNU.sparse.major'' = Some ''1''
              \<and> (case limit of Some region_end \<Rightarrow> tm_data_off m < region_end | None \<Rightarrow> True) then
             and_then (parse_sparse_1_0_map rd min_abs (tm_data_off m)) (\<lambda>(_, content_off).
               Inr (m1\<lparr>tm_data_off :=
                 (case limit of Some region_end \<Rightarrow> min content_off region_end | None \<Rightarrow> content_off)\<rparr>))
           else Inr m1)"

definition pax_size_layout :: "tar_member \<Rightarrow> tar_member" where
  "pax_size_layout m =
     (if \<not> tm_issparse m \<and> is_regular_tar_member (tm_typeflag m) (tm_name m) then
        (case Option.bind (map_of (tm_pax m) ''size'') parse_u64 of
           Some pax_size \<Rightarrow> m\<lparr>tm_logical_size := pax_size, tm_on_tape := pax_size\<rparr>
         | None \<Rightarrow> m)
      else m)"

definition member_layout ::
    "reader \<Rightarrow> u64 \<Rightarrow> u64 option \<Rightarrow> bytes \<Rightarrow> tar_member \<Rightarrow> tar_error + tar_member" where
  "member_layout rd min_abs limit header m =
     and_then (old_sparse_layout rd min_abs limit header m) (\<lambda>m1.
     and_then (pax_sparse_layout rd min_abs limit header m1) (\<lambda>m2. Inr (pax_size_layout m2)))"

definition is_pax_placeholder :: "string \<Rightarrow> bool" where
  "is_pax_placeholder name = (contains_str name ''PaxHeaders/'' \<or> starts_with name ''./PaxHeaders/'')"

text \<open>The position of the header after a member at \<open>pos\<close>.\<close>

definition next_header :: "u64 \<Rightarrow> tar_member \<Rightarrow> u64" where
  "next_header pos m =
     (if tm_typeflag m \<in> {CHR ''5'', CHR ''1'', CHR ''2''} \<and> tm_on_tape m = 0 then pos + BLOCK_SIZE
      else pos + BLOCK_SIZE + pad512 (tm_on_tape m))"

section \<open>The walk over the outer archive\<close>

definition BATCH_FLUSH :: nat where "BATCH_FLUSH = 512"

text \<open>What the walks of the outer archive and of nested regions accumulate.\<close>

record tar_acc =
  ta_gnu :: bool
  ta_batch :: "file_row list"
  ta_xattrs :: "(i64 \<times> string \<times> bytes) list"
  ta_generated :: "string list"
  ta_nested :: "nested_pending list"

definition nested_entry :: "string \<Rightarrow> tar_member \<Rightarrow> nested_pending" where
  "nested_entry path m =
     \<lparr>np_member = \<lparr>nm_path = path, nm_offset = tm_data_off m, nm_size = tm_logical_size m\<rparr>,
      np_offsetheader = tm_header_start m, np_mtime = tm_mtime m, np_mode_bits = tm_mode m,
      np_uid = tm_uid m, np_gid = tm_gid m\<rparr>"

definition is_nested_candidate :: "reader \<Rightarrow> u64 \<Rightarrow> u64 option \<Rightarrow> tar_member \<Rightarrow> bool" where
  "is_nested_candidate rd min_abs limit m =
     (\<not> tm_issparse m \<and> is_regular_tar_member (tm_typeflag m) (tm_name m) \<and> tm_logical_size m \<ge> BLOCK_SIZE
      \<and> \<not> past_limit limit (tm_data_off m + min (tm_logical_size m) BLOCK_SIZE)
      \<and> (name_looks_like_tar (tm_name m) \<or> peek_tar_magic_at rd min_abs (tm_data_off m)))"

definition push_xattr_rows :: "hash_order \<Rightarrow> u64 \<Rightarrow> (string \<times> bytes) list \<Rightarrow> (i64 \<times> string \<times> bytes) list" where
  "push_xattr_rows order offsetheader fs_xattrs = map (\<lambda>(k, v). (offsetheader, k, v)) (order fs_xattrs)"

text \<open>The rows of a member under the name it gets in the index; \<open>rows\<close> are pushed before them.\<close>

definition push_member ::
    "'db tar_env \<Rightarrow> i64 \<Rightarrow> string \<Rightarrow> tar_member \<Rightarrow> bool \<Rightarrow> file_row list \<Rightarrow> tar_acc \<Rightarrow> tar_acc" where
  "push_member env depth full_name m istar before acc =
     (let (rows, generated) =
        (if tm_typeflag m = CHR ''D'' then
           push_dumpdir_entries full_name (tm_header_start m) (tm_data_off m) (tm_logical_size m) (tm_mtime m)
             (tm_mode m) (tm_linkname m) (tm_uid m) (tm_gid m) depth (ta_generated acc)
         else
           push_entry full_name (tm_header_start m) (tm_data_off m)
             (if tm_typeflag m = CHR ''5'' \<or> ends_with (tm_name m) ''/'' then 0 else tm_logical_size m)
             (tm_mtime m) (tm_mode m) (tm_typeflag m) (tm_linkname m) (tm_uid m) (tm_gid m) (tm_issparse m)
             istar depth (ta_generated acc))
      in acc\<lparr>ta_batch := ta_batch acc @ before @ rows, ta_generated := generated,
           ta_xattrs := ta_xattrs acc @ (if tm_xattrs m = [] then []
             else push_xattr_rows (te_xattr_order env) (tm_header_start m) (tm_xattrs m))\<rparr>)"

record 'db tar_walk =
  tw_pos :: u64
  tw_px :: tar_pax
  tw_acc :: tar_acc
  tw_dumpdir :: "(string \<times> string list) list"
  tw_ix :: "'db sqlite_index"
  tw_progress :: build_progress
  tw_ticks :: nat

definition flush_rows :: "'db tar_env \<Rightarrow> 'db tar_walk \<Rightarrow> tar_error + 'db tar_walk" where
  "flush_rows env st =
     (if ta_batch (tw_acc st) = [] then Inr st
      else
        case insert_files_batch_soa (te_sql env) (te_cancelled env (tw_ticks st)) (tw_ix st) (tw_progress st)
               (foldl push_file_row window_new (ta_batch (tw_acc st))) of
          (_, _, Inl e) \<Rightarrow> Inl (TarIndex e)
        | (ix, bp, Inr _) \<Rightarrow>
            Inr (st\<lparr>tw_ix := ix, tw_progress := bp, tw_ticks := tw_ticks st + 1,
                   tw_acc := (tw_acc st)\<lparr>ta_batch := []\<rparr>\<rparr>))"

fun insert_xattr_stmts :: "'db tar_env \<Rightarrow> 'db \<Rightarrow> (i64 \<times> string \<times> bytes) list \<Rightarrow> 'db \<times> (index_error + unit)" where
  "insert_xattr_stmts env db [] = (db, Inr ())"
| "insert_xattr_stmts env db ((oh, k, v) # rows) =
     (case te_insert_xattr env db oh k v of
        (db', Inl e) \<Rightarrow> (db', Inl e)
      | (db', Inr _) \<Rightarrow> insert_xattr_stmts env db' rows)"

definition insert_xattrs_batch ::
    "'db tar_env \<Rightarrow> 'db sqlite_index \<Rightarrow> (i64 \<times> string \<times> bytes) list \<Rightarrow> 'db sqlite_index \<times> (index_error + unit)" where
  "insert_xattrs_batch env ix rows =
     (if rows = [] then (ix, Inr ())
      else if ix_read_only ix then (ix, Inl (Invalid ''index is read-only''))
      else let (db, r) = insert_xattr_stmts env (ix_conn ix) rows in (ix\<lparr>ix_conn := db\<rparr>, r))"

definition flush_xattrs :: "'db tar_env \<Rightarrow> 'db tar_walk \<Rightarrow> tar_error + 'db tar_walk" where
  "flush_xattrs env st =
     (if ta_xattrs (tw_acc st) = [] then Inr st
      else
        case insert_xattrs_batch env (tw_ix st) (ta_xattrs (tw_acc st)) of
          (_, Inl e) \<Rightarrow> Inl (TarIndex e)
        | (ix, Inr _) \<Rightarrow> Inr (st\<lparr>tw_ix := ix, tw_acc := (tw_acc st)\<lparr>ta_xattrs := []\<rparr>\<rparr>))"

text \<open>A member's dumpdir payload; the buffer for it is reserved from the size the archive claims.\<close>

definition read_dumpdir :: "reader \<Rightarrow> u64 \<Rightarrow> tar_member \<Rightarrow> tar_error + bytes" where
  "read_dumpdir rd min_abs m =
     (if unat (tm_logical_size m) \<ge> 2 ^ 63 then Inl TarPanic
      else if tm_logical_size m = 0 then Inr []
      else seek_exact rd min_abs (tm_data_off m) (tm_logical_size m))"

definition member_step ::
    "'db tar_env \<Rightarrow> string \<Rightarrow> reader \<Rightarrow> u64 \<Rightarrow> bytes \<Rightarrow> 'db tar_walk \<Rightarrow> tar_error + 'db tar_walk" where
  "member_step env encoding rd min_abs header st =
     (let acc = tw_acc st; pos = tw_pos st;
          is_gnu = (ta_gnu acc \<or> typeflag_of header = CHR ''D'');
          px = take_pending (tw_px st)
      in and_then (member_layout rd min_abs None header (merge_member env encoding is_gnu header pos (tw_px st))) (\<lambda>m.
         if is_pax_placeholder (tm_name m) then
           Inr (st\<lparr>tw_pos := pos + BLOCK_SIZE + pad512 (tm_on_tape m), tw_px := px, tw_acc := acc\<lparr>ta_gnu := is_gnu\<rparr>\<rparr>)
         else
           let istar = is_nested_candidate rd min_abs None m;
               acc1 = acc\<lparr>ta_gnu := is_gnu, ta_nested := ta_nested acc @
                 (if istar then [nested_entry (normalize_member_path (tm_name m)) m] else [])\<rparr>
           in and_then
             (if tm_typeflag m = CHR ''D'' then
                and_then (read_dumpdir rd min_abs m) (\<lambda>payload.
                  Inr (apply_dumpdir_deletes (te_name_order env) (tm_name m) (tm_header_start m) payload
                    (tm_mtime m) (tm_uid m) (tm_gid m) 0 (tw_dumpdir st)))
              else Inr ([], tw_dumpdir st)) (\<lambda>(tombs, dumpdir).
             let st1 = st\<lparr>tw_px := px, tw_acc := push_member env 0 (tm_name m) m istar tombs acc1, tw_dumpdir := dumpdir\<rparr>
             in and_then (if length (ta_batch (tw_acc st1)) \<ge> BATCH_FLUSH then flush_rows env st1 else Inr st1) (\<lambda>st2.
                and_then (if length (ta_xattrs (tw_acc st2)) \<ge> BATCH_FLUSH then flush_xattrs env st2 else Inr st2) (\<lambda>st3.
                Inr (st3\<lparr>tw_pos := next_header pos m\<rparr>))))))"

text \<open>One round of the loop: an error, the end of the walk (\<open>None\<close>), or the next state.\<close>

definition tar_step ::
    "'db tar_env \<Rightarrow> tar_options \<Rightarrow> reader \<Rightarrow> u64 \<Rightarrow> 'db tar_walk \<Rightarrow> tar_error + 'db tar_walk option" where
  "tar_step env opts rd min_abs st0 =
     (if te_cancelled env (tw_ticks st0) then Inl (TarIndex Cancelled)
      else
        let st = st0\<lparr>tw_ticks := tw_ticks st0 + 1\<rparr>; pos = tw_pos st in
        and_then (seek_header rd min_abs pos) (\<lambda>h.
          case h of
            None \<Rightarrow> Inr None
          | Some header \<Rightarrow>
              (if all_zero header then
                 (if to_ignore_zeros opts then Inr (Some (st\<lparr>tw_pos := pos + BLOCK_SIZE\<rparr>))
                  else and_then (seek_header rd min_abs (pos + BLOCK_SIZE)) (\<lambda>_. Inr None))
               else if typeflag_of header = CHR ''x'' \<or> typeflag_of header = CHR ''g'' then
                 and_then (pax_header env rd min_abs None header pos (tw_px st))
                   (\<lambda>r. Inr (map_option (\<lambda>(px, p). st\<lparr>tw_px := px, tw_pos := p\<rparr>) r))
               else if typeflag_of header = CHR ''L'' \<or> typeflag_of header = CHR ''K'' then
                 and_then (long_header env (to_encoding opts) rd min_abs None header pos (tw_px st))
                   (\<lambda>r. Inr (map_option (\<lambda>(px, p). st\<lparr>tw_px := px, tw_pos := p\<rparr>) r))
               else and_then (member_step env (to_encoding opts) rd min_abs header st) (\<lambda>st'. Inr (Some st')))))"

partial_function (option) tar_loop ::
    "'db tar_env \<Rightarrow> tar_options \<Rightarrow> reader \<Rightarrow> u64 \<Rightarrow> 'db tar_walk \<Rightarrow> (tar_error + 'db tar_walk) option" where
  "tar_loop env opts rd min_abs st =
     (case tar_step env opts rd min_abs st of
        Inl e \<Rightarrow> Some (Inl e)
      | Inr None \<Rightarrow> Some (Inr st)
      | Inr (Some st') \<Rightarrow> tar_loop env opts rd min_abs st')"

declare tar_loop.simps [code]

end
