(* ===== verification/Tar_Write.thy ===== *)
theory Tar_Write
  imports Tar_Walk
begin

text \<open>
  The archive writer of \<open>ratarmount-formats-tar/src/write.rs\<close>: POSIX ustar members with a PAX header where a
  field does not fit. The sink is the byte sequence written so far; files of the host are the argument
  \<open>disk\<close>, the digest of the \<open>sha2\<close> crate is the argument \<open>sha\<close>. This is the Unix build.
\<close>

section \<open>Members\<close>

datatype ustar_payload = UFile bytes | UFileOnDisk string u64 bool | UDirectory | USymlink string

record ustar_member =
  um_path :: string
  um_payload :: ustar_payload
  um_mode :: u32
  um_uid :: u32
  um_gid :: u32
  um_mtime :: u64
  um_xattrs :: "(string \<times> bytes) list"

text \<open>What opening a file for reading gives: an error, or the bytes the descriptor reads.\<close>

type_synonym disk = "string \<Rightarrow> io_error + bytes"

definition PAX_HDR_PREFIX :: string where "PAX_HDR_PREFIX = ''PaxHeaders.0/''"
definition PAX_HDR_PATH_MAX :: nat where "PAX_HDR_PATH_MAX = USTAR_NAME_LEN - 13"

definition write_padding :: "u64 \<Rightarrow> bytes" where
  "write_padding data_len = replicate (unat ((BLOCK_SIZE - data_len mod BLOCK_SIZE) mod BLOCK_SIZE)) CHR 0x00"

definition is_char_boundary :: "string \<Rightarrow> nat \<Rightarrow> bool" where
  "is_char_boundary s i = (i = 0 \<or> i = length s \<or> i < length s \<and> \<not> is_cont (s ! i))"

fun char_floor :: "string \<Rightarrow> nat \<Rightarrow> nat" where
  "char_floor s 0 = 0"
| "char_floor s (Suc n) = (if is_char_boundary s (Suc n) then Suc n else char_floor s n)"

definition pax_header_name :: "string \<Rightarrow> string" where
  "pax_header_name path = PAX_HDR_PREFIX @ take (char_floor path (min (length path) PAX_HDR_PATH_MAX)) path"

definition last_bytes :: "bytes \<Rightarrow> nat \<Rightarrow> bytes" where
  "last_bytes b n = drop (length b - n) b"

definition dir_ustar_name :: "string \<Rightarrow> bytes" where
  "dir_ustar_name path = (if ends_with path ''/'' then path else path @ ''/'')"

definition needs_pax_path :: "bytes \<Rightarrow> bool" where
  "needs_pax_path ustar_name = (length ustar_name > USTAR_NAME_LEN)"

section \<open>Headers\<close>

definition rel_path :: "ustar_member \<Rightarrow> string" where
  "rel_path m = trim_start_matches CHR ''/'' (um_path m)"

text \<open>The type flag, the link target and the name for the ustar field.\<close>

definition member_kind :: "ustar_member \<Rightarrow> char \<times> string option \<times> bytes" where
  "member_kind m =
     (case um_payload m of
        UDirectory \<Rightarrow> (CHR ''5'', None, dir_ustar_name (rel_path m))
      | USymlink target \<Rightarrow> (CHR ''2'', Some target, rel_path m)
      | _ \<Rightarrow> (CHR ''0'', None, rel_path m))"

definition member_flag :: "ustar_member \<Rightarrow> char" where
  "member_flag m = fst (member_kind m)"

definition link_target :: "ustar_member \<Rightarrow> string option" where
  "link_target m = fst (snd (member_kind m))"

definition ustar_name :: "ustar_member \<Rightarrow> bytes" where
  "ustar_name m = snd (snd (member_kind m))"

definition need_pax_path :: "ustar_member \<Rightarrow> bool" where
  "need_pax_path m = needs_pax_path (ustar_name m)"

definition need_pax_link :: "ustar_member \<Rightarrow> bool" where
  "need_pax_link m = (case link_target m of Some t \<Rightarrow> length t > USTAR_LINK_LEN | None \<Rightarrow> False)"

definition need_pax_size :: "u64 \<Rightarrow> bool" where
  "need_pax_size body_size = (body_size > USTAR_MAX_SIZE)"

definition need_pax_uid :: "ustar_member \<Rightarrow> bool" where
  "need_pax_uid m = (ucast (um_uid m) > octal_digit_max 7)"

definition need_pax_gid :: "ustar_member \<Rightarrow> bool" where
  "need_pax_gid m = (ucast (um_gid m) > octal_digit_max 7)"

definition need_pax_mtime :: "ustar_member \<Rightarrow> bool" where
  "need_pax_mtime m = (um_mtime m > octal_digit_max 11)"

definition need_pax :: "ustar_member \<Rightarrow> u64 \<Rightarrow> bool" where
  "need_pax m body_size =
     (need_pax_path m \<or> need_pax_link m \<or> need_pax_size body_size \<or> need_pax_uid m \<or> need_pax_gid m
      \<or> need_pax_mtime m \<or> um_xattrs m \<noteq> [])"

text \<open>The fields that go to the PAX header, in the order they are written.\<close>

definition pax_fields :: "ustar_member \<Rightarrow> u64 \<Rightarrow> (string \<times> bytes) list" where
  "pax_fields m body_size =
     (if need_pax_path m then [(''path'', rel_path m)] else [])
     @ (if need_pax_link m then (case link_target m of Some t \<Rightarrow> [(''linkpath'', t)] | None \<Rightarrow> []) else [])
     @ (if need_pax_size body_size then [(''size'', show_nat (unat body_size))] else [])
     @ (if need_pax_uid m then [(''uid'', show_nat (unat (um_uid m)))] else [])
     @ (if need_pax_gid m then [(''gid'', show_nat (unat (um_gid m)))] else [])
     @ (if need_pax_mtime m then [(''mtime'', show_nat (unat (um_mtime m)))] else [])"

fun encode_fields :: "(string \<times> bytes) list \<Rightarrow> io_error + bytes" where
  "encode_fields [] = Inr []"
| "encode_fields ((k, v) # kvs) =
     and_then (encode_pax_record k v) (\<lambda>r. and_then (encode_fields kvs) (\<lambda>rs. Inr (r @ rs)))"

fun encode_xattrs :: "(string \<times> bytes) list \<Rightarrow> io_error + bytes" where
  "encode_xattrs [] = Inr []"
| "encode_xattrs ((name, v) # kvs) =
     (if CHR ''='' \<in> set name \<or> CHR 0x00 \<in> set name \<or> CHR 0x0A \<in> set name
      then Inl (IoError InvalidInput ''invalid xattr name'')
      else and_then (encode_pax_record (''SCHILY.xattr.'' @ name) v) (\<lambda>r.
             and_then (encode_xattrs kvs) (\<lambda>rs. Inr (r @ rs))))"

definition member_pax_body :: "ustar_member \<Rightarrow> u64 \<Rightarrow> io_error + bytes" where
  "member_pax_body m body_size =
     and_then (encode_fields (pax_fields m body_size)) (\<lambda>fields.
     and_then (encode_xattrs (um_xattrs m)) (\<lambda>xattrs. Inr (fields @ xattrs)))"

definition write_pax_header :: "ustar_member \<Rightarrow> u64 \<Rightarrow> io_error + bytes" where
  "write_pax_header m body_size =
     (if \<not> need_pax m body_size then Inr []
      else
        and_then (member_pax_body m body_size) (\<lambda>body.
        and_then (write_raw_ustar_header
            \<lparr>uf_name = pax_header_name (rel_path m), uf_size = of_nat (length body), uf_typeflag = CHR ''x'',
             uf_linkname = [], uf_mode = 0x1A4, uf_uid = 0, uf_gid = 0, uf_mtime = 0\<rparr>) (\<lambda>h.
        Inr (h @ body @ write_padding (of_nat (length body))))))"

definition ustar_fields :: "ustar_member \<Rightarrow> u64 \<Rightarrow> ustar_header_fields" where
  "ustar_fields m body_size =
     (let link_bytes = (case link_target m of Some t \<Rightarrow> t | None \<Rightarrow> []) in
      \<lparr>uf_name = (if need_pax_path m then last_bytes (ustar_name m) USTAR_NAME_LEN else ustar_name m),
       uf_size = (if need_pax_size body_size then 0 else body_size),
       uf_typeflag = member_flag m,
       uf_linkname = (if need_pax_link m then last_bytes link_bytes USTAR_LINK_LEN else link_bytes),
       uf_mode = um_mode m,
       uf_uid = (if need_pax_uid m then 0 else um_uid m),
       uf_gid = (if need_pax_gid m then 0 else um_gid m),
       uf_mtime = (if need_pax_mtime m then 0 else um_mtime m)\<rparr>)"

definition write_member_headers :: "ustar_member \<Rightarrow> u64 \<Rightarrow> io_error + bytes" where
  "write_member_headers m body_size =
     and_then (write_pax_header m body_size) (\<lambda>pax.
     and_then (write_raw_ustar_header (ustar_fields m body_size)) (\<lambda>h. Inr (pax @ h)))"

section \<open>Bodies\<close>

text \<open>The copy reads at most \<open>size\<close> bytes of the file; the digest is of the bytes copied.\<close>

definition write_file_on_disk ::
    "disk \<Rightarrow> (bytes \<Rightarrow> string) \<Rightarrow> string \<Rightarrow> u64 \<Rightarrow> bool \<Rightarrow> io_error + bytes \<times> string option" where
  "write_file_on_disk disk sha path sz want_digest =
     and_then (disk path) (\<lambda>content.
       let copied = take (unat sz) content in
       if length copied \<noteq> unat sz then
         Inl (IoError UnexpectedEof (''overlay file '' @ path @ '' ended after '' @ show_nat (length copied)
           @ '' bytes, expected '' @ show_nat (unat sz)))
       else Inr (copied @ write_padding sz, if want_digest then Some (sha copied) else None))"

definition write_member_body ::
    "disk \<Rightarrow> (bytes \<Rightarrow> string) \<Rightarrow> ustar_member \<Rightarrow> io_error + bytes \<times> string option" where
  "write_member_body disk sha m =
     (case um_payload m of
        UFile b \<Rightarrow> Inr (b @ write_padding (of_nat (length b)), None)
      | UFileOnDisk path sz want_digest \<Rightarrow> write_file_on_disk disk sha path sz want_digest
      | _ \<Rightarrow> Inr ([], None))"

definition body_size :: "ustar_member \<Rightarrow> u64" where
  "body_size m =
     (case um_payload m of UFile b \<Rightarrow> of_nat (length b) | UFileOnDisk _ sz _ \<Rightarrow> sz | _ \<Rightarrow> 0)"

text \<open>The bytes written and, per member, the digest stored in its slot.\<close>

fun write_ustar_members ::
    "disk \<Rightarrow> (bytes \<Rightarrow> string) \<Rightarrow> ustar_member list \<Rightarrow> io_error + bytes \<times> string option list" where
  "write_ustar_members disk sha [] = Inr ([], [])"
| "write_ustar_members disk sha (m # ms) =
     and_then (write_member_headers m (body_size m)) (\<lambda>h.
     and_then (write_member_body disk sha m) (\<lambda>(b, d).
     and_then (write_ustar_members disk sha ms) (\<lambda>(rest, ds). Inr (h @ b @ rest, d # ds))))"

definition write_tar_eof :: bytes where
  "write_tar_eof = replicate 1024 CHR 0x00"

definition normalize_archive_rel_path :: "string \<Rightarrow> string" where
  "normalize_archive_rel_path path =
     trim_start_matches CHR ''/'' (normpath (strip_dot_slash (trim_end_matches CHR ''/'' path)))"

end
