(* ===== verification/Nested_Json.thy ===== *)
theory Nested_Json
  imports Tar_Rows
begin

text \<open>
  The list of nested archives kept in the index metadata: its JSON writer and reader in
  \<open>ratarmount-formats-tar/src/lib.rs\<close>.
\<close>

section \<open>Writing\<close>

definition hex_digit :: "nat \<Rightarrow> char" where
  "hex_digit n = (if n < 10 then char_of (48 + n) else char_of (87 + n))"

text \<open>\<open>format!("\u{c:04x}")\<close> for a code below 256.\<close>

definition unicode_escape :: "nat \<Rightarrow> string" where
  "unicode_escape c = [CHR 0x5C, CHR ''u'', CHR ''0'', CHR ''0'', hex_digit (c div 16), hex_digit (c mod 16)]"

text \<open>
  The characters that are control characters are the bytes below 32 and 127, and the two-byte sequences of
  the codes 128 to 159; every other byte is copied.
\<close>

fun json_escape :: "string \<Rightarrow> string" where
  "json_escape [] = []"
| "json_escape (c # s) =
     (if c = CHR 0x22 then [CHR 0x5C, CHR 0x22] @ json_escape s
      else if c = CHR 0x5C then [CHR 0x5C, CHR 0x5C] @ json_escape s
      else if c = CHR 0x0A then [CHR 0x5C, CHR ''n''] @ json_escape s
      else if c = CHR 0x0D then [CHR 0x5C, CHR ''r''] @ json_escape s
      else if c = CHR 0x09 then [CHR 0x5C, CHR ''t''] @ json_escape s
      else if byte_val c < 32 \<or> byte_val c = 127 then unicode_escape (byte_val c) @ json_escape s
      else case s of
        d # s2 \<Rightarrow>
          (if c = CHR 0xC2 \<and> 128 \<le> byte_val d \<and> byte_val d < 160
           then unicode_escape (byte_val d) @ json_escape s2 else c # json_escape s)
      | [] \<Rightarrow> [c])"

definition json_escape_string :: "string \<Rightarrow> string" where
  "json_escape_string s = [CHR 0x22] @ json_escape s @ [CHR 0x22]"

definition member_json :: "nested_tar_member \<Rightarrow> string" where
  "member_json m =
     ''{'' @ [CHR 0x22] @ ''path'' @ [CHR 0x22] @ '':'' @ json_escape_string (nm_path m)
     @ '','' @ [CHR 0x22] @ ''offset'' @ [CHR 0x22] @ '':'' @ show_nat (unat (nm_offset m))
     @ '','' @ [CHR 0x22] @ ''size'' @ [CHR 0x22] @ '':'' @ show_nat (unat (nm_size m)) @ ''}''"

definition format_nested_tar_members_json :: "nested_tar_member list \<Rightarrow> string" where
  "format_nested_tar_members_json members = ''['' @ join_with '','' (map member_json members) @ '']''"

section \<open>Reading\<close>

text \<open>\<open>str::split_once\<close> with a string pattern.\<close>

fun split_once_str :: "string \<Rightarrow> string \<Rightarrow> (string \<times> string) option" where
  "split_once_str pat s =
     (if starts_with s pat then Some ([], drop (length pat) s)
      else case s of
        [] \<Rightarrow> None
      | c # s' \<Rightarrow> map_option (\<lambda>(a, b). (c # a, b)) (split_once_str pat s'))"

declare split_once_str.simps [simp del]

definition trim_start :: "string \<Rightarrow> string" where
  "trim_start s = strip_ws white_space s"

definition from_str_radix_16 :: "string \<Rightarrow> nat option" where
  "from_str_radix_16 s =
     (let ds = (if starts_with s ''+'' then drop 1 s else s) in
      if ds = [] then None
      else foldl (\<lambda>acc c. case (acc, from_hex_digit c) of (Some a, Some d) \<Rightarrow> Some (a * 16 + d) | _ \<Rightarrow> None) (Some 0) ds)"

text \<open>\<open>char::from_u32\<close> and its UTF-8 encoding, for a code of at most four hexadecimal digits.\<close>

definition push_code :: "nat \<Rightarrow> string option" where
  "push_code c =
     (if 0xD800 \<le> c \<and> c < 0xE000 then None
      else if c < 0x80 then Some [char_of c]
      else if c < 0x800 then Some [char_of (0xC0 + c div 64), char_of (0x80 + c mod 64)]
      else Some [char_of (0xE0 + c div 4096), char_of (0x80 + c div 64 mod 64), char_of (0x80 + c mod 64)])"

text \<open>The characters after the opening quote, up to the closing one.\<close>

definition width_at :: "string \<Rightarrow> nat" where
  "width_at s = (if s = [] then 0 else max 1 (seq_width (hd s)))"

fun take_chars :: "nat \<Rightarrow> string \<Rightarrow> string" where
  "take_chars 0 s = []"
| "take_chars (Suc n) s = (if s = [] then [] else take (width_at s) s @ take_chars n (drop (width_at s) s))"

function json_string_chars :: "string \<Rightarrow> string option" where
  "json_string_chars [] = None"
| "json_string_chars (c # s) =
     (if c = CHR 0x22 then Some []
      else if c = CHR 0x5C then
        (case s of
           [] \<Rightarrow> None
         | e # s2 \<Rightarrow>
             (if e = CHR ''n'' then map_option ((#) CHR 0x0A) (json_string_chars s2)
              else if e = CHR ''r'' then map_option ((#) CHR 0x0D) (json_string_chars s2)
              else if e = CHR ''t'' then map_option ((#) CHR 0x09) (json_string_chars s2)
              else if e = CHR ''u'' then
                (let h = take_chars 4 s2 in
                 if length h \<noteq> 4 then None
                 else case from_str_radix_16 h of
                   None \<Rightarrow> None
                 | Some code \<Rightarrow>
                     (case push_code code of
                        None \<Rightarrow> None
                      | Some u \<Rightarrow> map_option ((@) u) (json_string_chars (drop 4 s2))))
              else map_option ((#) e) (json_string_chars s2)))
      else map_option ((#) c) (json_string_chars s))"
  by pat_completeness auto
termination
  by (relation "measure length") auto

declare json_string_chars.simps(2) [simp del]

definition json_key :: "string \<Rightarrow> string" where
  "json_key key = [CHR 0x22] @ key @ [CHR 0x22]"

definition json_after_key :: "string \<Rightarrow> string \<Rightarrow> string option" where
  "json_after_key obj key =
     Option.bind (split_once_str (json_key key) obj) (\<lambda>(_, rest).
       map_option trim_start (strip_prefix (trim_start rest) '':''))"

definition json_extract_string_field :: "string \<Rightarrow> string \<Rightarrow> string option" where
  "json_extract_string_field obj key =
     Option.bind (json_after_key obj key) (\<lambda>rest.
       if \<not> starts_with rest [CHR 0x22] then None else json_string_chars (drop 1 rest))"

definition json_extract_u64_field :: "string \<Rightarrow> string \<Rightarrow> u64 option" where
  "json_extract_u64_field obj key =
     Option.bind (json_after_key obj key) (\<lambda>rest. parse_u64 (take_digits rest))"

definition parse_one_nested_member_object :: "string \<Rightarrow> nested_tar_member option" where
  "parse_one_nested_member_object obj =
     Option.bind (json_extract_string_field obj ''path'') (\<lambda>path.
     Option.bind (json_extract_u64_field obj ''offset'') (\<lambda>off.
     Option.bind (json_extract_u64_field obj ''size'') (\<lambda>sz.
       Some \<lparr>nm_path = path, nm_offset = off, nm_size = sz\<rparr>)))"

text \<open>The bytes of a quoted string before its closing quote, and those of an object up to its closing brace.\<close>

fun json_skip_string :: "string \<Rightarrow> nat" where
  "json_skip_string [] = 0"
| "json_skip_string (c # s) =
     (if c = CHR 0x5C then 2 + (case s of [] \<Rightarrow> 0 | _ # s2 \<Rightarrow> json_skip_string s2)
      else if c = CHR 0x22 then 0
      else 1 + json_skip_string s)"

function json_object_len :: "nat \<Rightarrow> string \<Rightarrow> nat" where
  "json_object_len depth [] = 0"
| "json_object_len depth (c # s) =
     (if depth = 0 then 0
      else if c = CHR ''{'' then 1 + json_object_len (depth + 1) s
      else if c = CHR ''}'' then 1 + json_object_len (depth - 1) s
      else if c = CHR 0x22 then
        let k = json_skip_string s in 1 + k + 1 + json_object_len depth (drop (k + 1) s)
      else 1 + json_object_len depth s)"
  by pat_completeness auto
termination
  by (relation "measure (\<lambda>(d, s). length s)") auto

declare json_object_len.simps(2) [simp del]

function json_objects :: "string \<Rightarrow> string list" where
  "json_objects s =
     (case dropWhile (\<lambda>c. c \<noteq> CHR ''{'') s of
        [] \<Rightarrow> []
      | c # rest \<Rightarrow>
          let k = json_object_len 1 rest in (c # take k rest) # json_objects (drop k rest))"
  by pat_completeness auto
termination
proof (relation "measure length", goal_cases)
  case (2 s c rest k)
  have "length (dropWhile (\<lambda>c. c \<noteq> CHR ''{'') s) \<le> length s" by (rule length_dropWhile_le)
  with 2 show ?case by simp
qed simp

declare json_objects.simps [simp del]

definition parse_nested_tar_members_json :: "string \<Rightarrow> nested_tar_member list" where
  "parse_nested_tar_members_json s0 =
     (let s = trim s0 in
      if s = [] \<or> s = ''[]'' then []
      else List.map_filter parse_one_nested_member_object (json_objects s))"

section \<open>Reading back what was written\<close>

lemma hex_digit_inverse: "n < 16 \<Longrightarrow> from_hex_digit (hex_digit n) = Some n"
  by (auto simp: from_hex_digit_def hex_digit_def Let_def byte_val_def)

lemma hex_digit_plain: "n < 16 \<Longrightarrow> is_ascii (hex_digit n) \<and> hex_digit n \<notin> {CHR 0x22, CHR 0x5C, CHR ''{'', CHR ''}'', CHR ''+''}"
proof -
  assume "n < 16"
  then have v: "48 \<le> byte_val (hex_digit n) \<and> byte_val (hex_digit n) < 58 \<or> 97 \<le> byte_val (hex_digit n) \<and> byte_val (hex_digit n) < 103"
    by (auto simp: hex_digit_def)
  have o: "map byte_val [CHR 0x22, CHR 0x5C, CHR ''{'', CHR ''}'', CHR ''+''] = [34, 92, 123, 125, 43]"
    by code_simp
  from v have "is_ascii (hex_digit n)" by (auto simp: is_ascii_def)
  moreover from v o have "hex_digit n \<noteq> x" if "x \<in> {CHR 0x22, CHR 0x5C, CHR ''{'', CHR ''}'', CHR ''+''}" for x
    using that by auto
  ultimately show ?thesis by blast
qed

lemma ascii_width: "is_ascii c \<Longrightarrow> width_at (c # s) = 1"
  by (simp add: width_at_def seq_width_def is_ascii_def Let_def)

lemma json_string_unicode:
  assumes "c < 256"
  shows "json_string_chars (unicode_escape c @ s) =
    Option.bind (push_code c) (\<lambda>u. map_option ((@) u) (json_string_chars s))"
proof -
  let ?h = "hex_digit (c div 16)" and ?l = "hex_digit (c mod 16)"
  have n: "c div 16 < 16" "c mod 16 < 16" using assms by (auto simp: div_less_iff_less_mult)
  have z: "is_ascii CHR ''0''" by code_simp
  have four: "(4 :: nat) = Suc (Suc (Suc (Suc 0)))" by simp
  have "take_chars 4 (CHR ''0'' # CHR ''0'' # ?h # ?l # s) = [CHR ''0'', CHR ''0'', ?h, ?l]"
    unfolding four using hex_digit_plain [OF n(1)] hex_digit_plain [OF n(2)] z by (simp add: ascii_width)
  moreover have "from_str_radix_16 [CHR ''0'', CHR ''0'', ?h, ?l] = Some c"
  proof -
    have "from_hex_digit CHR ''0'' = Some 0" by code_simp
    then show ?thesis
      by (simp add: from_str_radix_16_def hex_digit_inverse n starts_with_def)
  qed
  ultimately show ?thesis
    by (simp add: unicode_escape_def json_string_chars.simps(2) split: option.splits)
qed

lemma push_code_byte: "byte_val c < 128 \<Longrightarrow> push_code (byte_val c) = Some [c]"
  by (simp add: push_code_def byte_val_def)

lemma push_code_pair:
  "128 \<le> byte_val d \<Longrightarrow> byte_val d < 160 \<Longrightarrow> push_code (byte_val d) = Some [CHR 0xC2, d]"
proof -
  assume d: "128 \<le> byte_val d" "byte_val d < 160"
  then have q: "byte_val d div 64 = 2" by (simp add: div_nat_eqI)
  then have q2: "128 + byte_val d mod 64 = byte_val d"
    using div_mult_mod_eq [of "byte_val d" 64] by simp
  have "(char_of (byte_val d) :: char) = d" by (simp add: byte_val_def)
  moreover have "(char_of (194 :: nat) :: char) = CHR 0xC2" by code_simp
  ultimately show ?thesis
    using d q q2 by (simp add: push_code_def)
qed

text \<open>The branches of the escaper.\<close>

definition json_special :: "char \<Rightarrow> char option" where
  "json_special c =
     (if c = CHR 0x22 then Some CHR 0x22 else if c = CHR 0x5C then Some CHR 0x5C
      else if c = CHR 0x0A then Some CHR ''n'' else if c = CHR 0x0D then Some CHR ''r''
      else if c = CHR 0x09 then Some CHR ''t'' else None)"

lemma json_escape_cases:
  assumes "s \<noteq> []"
  obtains c e s' where "s = c # s'" "json_special c = Some e" "json_escape s = CHR 0x5C # e # json_escape s'"
  | c s' where "s = c # s'" "json_special c = None" "byte_val c < 128" "json_escape s = unicode_escape (byte_val c) @ json_escape s'"
  | d s' where "s = CHR 0xC2 # d # s'" "128 \<le> byte_val d" "byte_val d < 160"
      "json_escape s = unicode_escape (byte_val d) @ json_escape s'"
  | c s' where "s = c # s'" "json_special c = None" "json_escape s = c # json_escape s'"
proof -
  obtain c s' where s: "s = c # s'" using assms by (cases s) auto
  show thesis
  proof (cases "json_special c")
    case (Some e)
    then have "json_escape s = CHR 0x5C # e # json_escape s'"
      unfolding s json_escape.simps(2) by (auto simp: json_special_def split: if_split_asm)
    with s Some show ?thesis by (rule that(1))
  next
    case None
    then have n: "c \<noteq> CHR 0x22" "c \<noteq> CHR 0x5C" "c \<noteq> CHR 0x0A" "c \<noteq> CHR 0x0D" "c \<noteq> CHR 0x09"
      by (auto simp: json_special_def split: if_split_asm)
    note esc = json_escape.simps(2) [of c s', folded s]
    show ?thesis
    proof (cases "byte_val c < 32 \<or> byte_val c = 127")
      case True
      then have "json_escape s = unicode_escape (byte_val c) @ json_escape s'"
        unfolding esc by (simp only: n if_False if_True)
      moreover have "byte_val c < 128" using True by auto
      ultimately show ?thesis using that(2) [OF s None] by blast
    next
      case b: False
      show ?thesis
      proof (cases s')
        case Nil
        then have "json_escape s = c # json_escape s'"
          unfolding esc by (simp only: n b if_False list.case json_escape.simps(1))
        then show ?thesis using that(4) [OF s None] by blast
      next
        case (Cons d s2)
        show ?thesis
        proof (cases "c = CHR 0xC2 \<and> 128 \<le> byte_val d \<and> byte_val d < 160")
          case True
          have "json_escape s = unicode_escape (byte_val d) @ json_escape s2"
            unfolding esc Cons by (simp only: n b if_False list.case if_P [OF True])
          then show ?thesis using that(3) [of d s2] s Cons True by blast
        next
          case False
          have "json_escape s = c # json_escape s'"
            unfolding esc Cons by (simp only: n b if_False list.case if_not_P [OF False])
          then show ?thesis using that(4) [OF s None] by blast
        qed
      qed
    qed
  qed
qed

declare json_escape.simps(2) [simp del]

lemma json_special_read:
  assumes "json_special c = Some e"
  shows "json_string_chars (CHR 0x5C # e # s) = map_option ((#) c) (json_string_chars s)"
  using assms by (auto simp: json_special_def json_string_chars.simps(2) split: if_splits)

lemma json_plain_read:
  "json_special c = None \<Longrightarrow> json_string_chars (c # s) = map_option ((#) c) (json_string_chars s)"
  by (auto simp: json_special_def json_string_chars.simps(2) split: if_splits)

lemma json_escape_roundtrip: "json_string_chars (json_escape s @ CHR 0x22 # rest) = Some s"
proof (induction s rule: measure_induct_rule [of length])
  case (less s)
  show ?case
  proof (cases "s = []")
    case True
    then show ?thesis by (simp add: json_string_chars.simps(2))
  next
    case False
    then show ?thesis
    proof (cases rule: json_escape_cases)
      case (1 c e s')
      with less [of s'] show ?thesis by (simp add: json_special_read)
    next
      case (2 c s')
      with less [of s'] show ?thesis by (simp add: json_string_unicode push_code_byte)
    next
      case (3 d s')
      with less [of s'] show ?thesis by (simp add: json_string_unicode push_code_pair)
    next
      case (4 c s')
      with less [of s'] show ?thesis by (simp add: json_plain_read)
    qed
  qed
qed

text \<open>Scanning over an escaped string and over an object.\<close>

lemma json_skip_unicode: "c < 256 \<Longrightarrow> json_skip_string (unicode_escape c @ s) = 6 + json_skip_string s"
proof -
  assume "c < 256"
  then have n: "c div 16 < 16" "c mod 16 < 16" by (auto simp: div_less_iff_less_mult)
  show ?thesis
    using hex_digit_plain [OF n(1)] hex_digit_plain [OF n(2)] by (simp add: unicode_escape_def)
qed

lemma json_skip_escaped: "json_skip_string (json_escape s @ CHR 0x22 # rest) = length (json_escape s)"
proof (induction s rule: measure_induct_rule [of length])
  case (less s)
  show ?case
  proof (cases "s = []")
    case False
    then show ?thesis
    proof (cases rule: json_escape_cases)
      case (1 c e s')
      with less [of s'] show ?thesis by simp
    next
      case (2 c s')
      with less [of s'] show ?thesis by (simp add: json_skip_unicode) (simp add: unicode_escape_def)
    next
      case (3 d s')
      with less [of s'] show ?thesis by (simp add: json_skip_unicode) (simp add: unicode_escape_def)
    next
      case (4 c s')
      moreover have "c \<noteq> CHR 0x22" "c \<noteq> CHR 0x5C"
        using 4(2) by (auto simp: json_special_def split: if_split_asm)
      ultimately show ?thesis using less [of s'] by simp
    qed
  qed simp
qed

lemma json_len_plain:
  assumes "CHR 0x22 \<notin> set p" "CHR ''{'' \<notin> set p" "CHR ''}'' \<notin> set p"
  shows "json_object_len 1 (p @ s) = length p + json_object_len 1 s"
  using assms by (induction p) (auto simp: json_object_len.simps(2))

lemma json_len_string:
  assumes "json_skip_string (p @ CHR 0x22 # s) = length p"
  shows "json_object_len 1 (CHR 0x22 # p @ CHR 0x22 # s) = length p + 2 + json_object_len 1 s"
  using assms by (simp add: json_object_len.simps(2) Let_def)

lemma json_len_close: "json_object_len 1 (CHR ''}'' # s) = 1"
  by (cases s) (simp_all add: json_object_len.simps(2))

lemma show_nat_no: "\<not> is_ascii_digit c \<Longrightarrow> c \<notin> set (show_nat n)"
  using show_nat_digits by blast

text \<open>The text of an object after its opening brace, in the pieces the scanner sees.\<close>

definition member_tail :: "nested_tar_member \<Rightarrow> string" where
  "member_tail m =
     json_key ''path'' @ '':'' @ json_escape_string (nm_path m) @ '','' @ json_key ''offset''
     @ '':'' @ show_nat (unat (nm_offset m)) @ '','' @ json_key ''size'' @ '':'' @ show_nat (unat (nm_size m)) @ ''}''"

lemma member_json_alt: "member_json m = CHR ''{'' # member_tail m"
  by (simp add: member_json_def member_tail_def json_key_def)

lemma json_len_key:
  assumes "CHR 0x22 \<notin> set k" "CHR 0x5C \<notin> set k"
  shows "json_object_len 1 (json_key k @ s) = length (json_key k) + json_object_len 1 s"
proof -
  have "json_skip_string (k @ CHR 0x22 # s) = length k"
    using assms by (induction k) auto
  then show ?thesis
    using json_len_string [of k s] by (simp add: json_key_def)
qed

lemma json_object_len_member: "json_object_len 1 (member_tail m @ rest) = length (member_tail m)"
proof -
  have plain: "json_object_len 1 (CHR '':'' # s) = 1 + json_object_len 1 s"
    "json_object_len 1 (CHR '','' # s) = 1 + json_object_len 1 s" for s
    by (simp_all add: json_object_len.simps(2))
  have str: "json_object_len 1 (json_escape_string p @ s) = length (json_escape_string p) + json_object_len 1 s" for p s
    using json_len_string [of "json_escape p" s] json_skip_escaped [of p s] by (simp add: json_escape_string_def)
  have num: "json_object_len 1 (show_nat n @ s) = length (show_nat n) + json_object_len 1 s" for n s
    by (rule json_len_plain) (auto intro!: show_nat_no simp: is_ascii_digit_def)
  show ?thesis
    by (simp add: member_tail_def json_len_key plain str num json_len_close del: One_nat_def)
qed

lemma json_objects_skip: "c \<noteq> CHR ''{'' \<Longrightarrow> json_objects (c # s) = json_objects s"
  by (subst (1 2) json_objects.simps) simp

lemma json_objects_member:
  "json_objects (member_json m @ rest) = member_json m # json_objects rest"
  by (subst json_objects.simps) (simp add: member_json_alt json_object_len_member del: One_nat_def)

lemma json_objects_Nil [simp]: "json_objects [] = []"
  by (simp add: json_objects.simps)

lemma json_objects_members: "json_objects (join_with '','' (map member_json ms) @ '']'') = map member_json ms"
proof (induction ms rule: induct_list012)
  case 1
  show ?case by (simp add: json_objects_skip)
next
  case (2 m)
  show ?case by (simp add: json_objects_member json_objects_skip)
next
  case (3 m m' ms)
  then show ?case by (simp add: json_objects_member json_objects_skip)
qed

text \<open>Finding the fields.\<close>

lemma json_after_skip: "\<not> starts_with (c # s) (json_key k) \<Longrightarrow> json_after_key (c # s) k = json_after_key s k"
  by (subst (1 2) json_after_key_def, subst split_once_str.simps)
    (cases "split_once_str (json_key k) s", auto)

lemma json_after_plain: "CHR 0x22 \<notin> set p \<Longrightarrow> json_after_key (p @ s) k = json_after_key s k"
proof (induction p)
  case (Cons c p)
  then have "\<not> starts_with (c # p @ s) (json_key k)" by (auto simp: json_key_def)
  with Cons show ?case by (simp add: json_after_skip)
qed simp

lemma white_space_heads: "list_all (\<lambda>w. w \<noteq> [] \<and> hd w \<notin> {CHR '':'', CHR ''['', CHR '']'', CHR 0x22} \<and> \<not> is_ascii_digit (hd w)) (white_space @ map rev white_space)"
  by code_simp

lemma strip_ws_stop:
  assumes "set ws \<subseteq> set (white_space @ map rev white_space)"
    and "c \<in> {CHR '':'', CHR ''['', CHR '']'', CHR 0x22} \<or> is_ascii_digit c"
  shows "strip_ws ws (c # s) = c # s"
proof -
  have "find (starts_with (c # s)) ws = None"
  proof (rule find_None_iff [THEN iffD2], rule notI, elim exE conjE)
    fix w assume w: "w \<in> set ws" "starts_with (c # s) w"
    have h: "w \<noteq> []" "hd w \<notin> {CHR '':'', CHR ''['', CHR '']'', CHR 0x22}" "\<not> is_ascii_digit (hd w)"
      using white_space_heads assms(1) w(1) by (auto simp: list_all_iff)
    then obtain d u where "w = d # u" by (auto simp: neq_Nil_conv)
    with h w(2) assms(2) show False by auto
  qed
  then show ?thesis by (subst strip_ws.simps) (simp add: ws_len_def)
qed

lemma trim_start_stop: "c \<in> {CHR '':'', CHR ''['', CHR '']'', CHR 0x22} \<or> is_ascii_digit c \<Longrightarrow> trim_start (c # s) = c # s"
  unfolding trim_start_def by (rule strip_ws_stop) auto

lemma json_after_hit: "json_after_key (json_key k @ CHR '':'' # v) k = Some (trim_start v)"
proof -
  have "split_once_str (json_key k) (json_key k @ CHR '':'' # v) = Some ([], CHR '':'' # v)"
    by (subst split_once_str.simps) simp
  then show ?thesis
    by (simp add: json_after_key_def trim_start_stop strip_prefix_def starts_with_def)
qed

lemma trim_start_show_nat: "trim_start (show_nat n @ s) = show_nat n @ s"
proof -
  obtain c t where c: "show_nat n = c # t" by (cases "show_nat n") auto
  then have "is_ascii_digit c" by (rule show_nat_hd_digit)
  with c show ?thesis by (simp add: trim_start_stop)
qed

lemma take_digits_show_nat: "\<not> is_ascii_digit c \<Longrightarrow> take_digits (show_nat n @ c # s) = show_nat n"
  using show_nat_digits by (simp add: take_digits_def takeWhile_append2)

lemma parse_u64_show: "parse_u64 (show_nat (unat (v :: u64))) = Some v"
proof -
  have "unat v < 2 ^ 64" by (rule order_less_le_trans [OF unsigned_less]) simp
  then show ?thesis by (simp add: parse_u64_def)
qed

lemma json_escape_no_quote: "CHR 0x22 \<notin> set s \<Longrightarrow> CHR 0x22 \<notin> set (json_escape s)"
proof (induction s rule: measure_induct_rule [of length])
  case (less s)
  show ?case
  proof (cases "s = []")
    case False
    have u: "CHR 0x22 \<notin> set (unicode_escape c)" if "c < 256" for c
    proof -
      from that have "c div 16 < 16" "c mod 16 < 16" by (auto simp: div_less_iff_less_mult)
      then show ?thesis
        using hex_digit_plain [of "c div 16"] hex_digit_plain [of "c mod 16"] by (auto simp: unicode_escape_def)
    qed
    from False show ?thesis
    proof (cases rule: json_escape_cases)
      case (1 c e s')
      moreover have "e \<noteq> CHR 0x22"
        using 1 less.prems by (auto simp: json_special_def split: if_split_asm)
      ultimately show ?thesis using less.IH [of s'] less.prems by simp
    next
      case (2 c s')
      with less.IH [of s'] less.prems u [of "byte_val c"] show ?thesis by simp
    next
      case (3 d s')
      with less.IH [of s'] less.prems u [of "byte_val d"] show ?thesis by simp
    next
      case (4 c s')
      with less.IH [of s'] less.prems show ?thesis by simp
    qed
  qed simp
qed

lemma json_fields:
  assumes q: "CHR 0x22 \<notin> set (nm_path m)" and a: "starts_with (nm_path m) ''/''"
  shows "json_after_key (member_json m) ''path'' =
      Some (CHR 0x22 # json_escape (nm_path m) @ CHR 0x22 # '','' @ json_key ''offset''
        @ '':'' @ show_nat (unat (nm_offset m)) @ '','' @ json_key ''size'' @ '':'' @ show_nat (unat (nm_size m)) @ ''}'')"
    and "json_after_key (member_json m) ''offset'' =
      Some (show_nat (unat (nm_offset m)) @ '','' @ json_key ''size'' @ '':'' @ show_nat (unat (nm_size m)) @ ''}'')"
    and "json_after_key (member_json m) ''size'' = Some (show_nat (unat (nm_size m)) @ ''}'')"
proof -
  let ?r2 = "'','' @ json_key ''size'' @ '':'' @ show_nat (unat (nm_size m)) @ ''}''"
  let ?r1 = "'','' @ json_key ''offset'' @ '':'' @ show_nat (unat (nm_offset m)) @ ?r2"
  let ?p = "json_escape (nm_path m)"
  obtain t where t: "nm_path m = CHR ''/'' # t"
    using a by (cases "nm_path m") (auto simp: starts_with_def)
  then have "json_special CHR ''/'' = None" "\<not> (byte_val CHR ''/'' < 32 \<or> byte_val CHR ''/'' = 127)"
    by (auto simp: json_special_def byte_val_def)
  then obtain u where u: "?p = CHR ''/'' # u"
    unfolding t by (cases t) (auto simp: json_escape.simps(2))
  have nq: "CHR 0x22 \<notin> set ?p" using q by (rule json_escape_no_quote)
  have m: "member_json m = CHR ''{'' # json_key ''path'' @ CHR '':'' # CHR 0x22 # ?p @ CHR 0x22 # ?r1"
    by (simp add: member_json_alt member_tail_def json_escape_string_def)
  have "json_after_key (member_json m) ''path'' = json_after_key (json_key ''path'' @ CHR '':'' # CHR 0x22 # ?p @ CHR 0x22 # ?r1) ''path''"
    unfolding m by (rule json_after_skip) (simp add: json_key_def)
  then show "json_after_key (member_json m) ''path'' = Some (CHR 0x22 # ?p @ CHR 0x22 # ?r1)"
    by (simp add: json_after_hit trim_start_stop)
  have skip: "json_after_key (member_json m) k = json_after_key ?r1 k" if k: "k = ''offset'' \<or> k = ''size''" for k
    using k nq unfolding m
    by (elim disjE) (simp_all add: json_key_def json_after_skip u json_after_plain starts_with_def)
  have "json_after_key ?r1 ''offset'' = json_after_key (json_key ''offset'' @ '':'' @ show_nat (unat (nm_offset m)) @ ?r2) ''offset''"
    by (simp add: json_after_skip json_key_def starts_with_def)
  then show "json_after_key (member_json m) ''offset'' = Some (show_nat (unat (nm_offset m)) @ ?r2)"
    by (simp add: skip json_after_hit trim_start_show_nat)
  have num: "json_after_key (show_nat n @ s) k = json_after_key s k" for n s k
    by (rule json_after_plain) (auto intro!: show_nat_no simp: is_ascii_digit_def)
  have "json_after_key ?r1 ''size'' = json_after_key (json_key ''size'' @ '':'' @ show_nat (unat (nm_size m)) @ ''}'') ''size''"
    by (simp add: json_after_skip json_key_def starts_with_def num)
  then show "json_after_key (member_json m) ''size'' = Some (show_nat (unat (nm_size m)) @ ''}'')"
    by (simp add: skip json_after_hit trim_start_show_nat)
qed

lemma parse_member_json:
  assumes "CHR 0x22 \<notin> set (nm_path m)" "starts_with (nm_path m) ''/''"
  shows "parse_one_nested_member_object (member_json m) = Some m"
  using json_fields [OF assms] json_escape_roundtrip [of "nm_path m"]
  by (simp add: parse_one_nested_member_object_def json_extract_string_field_def json_extract_u64_field_def
      starts_with_def take_digits_show_nat parse_u64_show is_ascii_digit_def)

section \<open>Properties\<close>



text \<open>A path that ends in a double quote and a field name hides the field: the entry is dropped when read.\<close>

lemma nested_member_dropped:
  "parse_nested_tar_members_json (format_nested_tar_members_json
     [\<lparr>nm_path = ''/a'' @ [CHR 0x22] @ ''offset'', nm_offset = 512, nm_size = 1024\<rparr>]) = []"
  by code_simp

end
