(* ===== verification/Tar_Index.thy ===== *)
theory Tar_Index
  imports Tar_Walk Nested_Json
begin

unbundle bit_operations_syntax

text \<open>
  Indexing a whole archive: the walk over nested archives, whose rows go under the path of the member
  that holds them, the detection of GNU incremental archives, and the driver that flushes, records the
  nested archives and flattens them (\<open>walk_tar_region\<close>, \<open>flatten_nested_tars\<close>, \<open>detect_gnu_incremental\<close>,
  \<open>parse_tar_from\<close>, \<open>parse_tar_into_index\<close> of \<open>ratarmount-formats-tar/src/lib.rs\<close>).
\<close>

section \<open>Nested regions\<close>

definition NESTED_FLATTEN_MAX_BYTES :: u64 where "NESTED_FLATTEN_MAX_BYTES = 64 * 1024 * 1024"

definition max_recursion_depth :: "tar_options \<Rightarrow> i32" where
  "max_recursion_depth opts =
     (case to_recursion_depth opts of
        Some d \<Rightarrow> d
      | None \<Rightarrow> (if to_recursive opts then 0x7FFFFFFF else 0))"

definition should_flatten_nested :: "tar_options \<Rightarrow> u64 \<Rightarrow> i32 \<Rightarrow> bool" where
  "should_flatten_nested opts nested_size content_depth =
     (let mx = max_recursion_depth opts in
      if sint content_depth \<le> sint mx then True
      else mx = 0 \<and> content_depth = 1 \<and> nested_size \<le> NESTED_FLATTEN_MAX_BYTES)"

text \<open>The variables of a region walk; what it accumulated stays when it fails.\<close>

record tar_region =
  tr_pos :: u64
  tr_px :: tar_pax
  tr_acc :: tar_acc
  tr_found :: bool
  tr_ticks :: nat

datatype region_round = RFail tar_error tar_region | RStop tar_region | RNext tar_region

definition region_member ::
    "'db tar_env \<Rightarrow> string \<Rightarrow> reader \<Rightarrow> u64 \<Rightarrow> string \<Rightarrow> u64 \<Rightarrow> i32 \<Rightarrow> bytes \<Rightarrow> tar_region \<Rightarrow> region_round" where
  "region_member env encoding rd min_abs path_prefix region_end depth header st0 =
     (let pos = tr_pos st0;
          is_gnu = (ta_gnu (tr_acc st0) \<or> typeflag_of header = CHR ''D'');
          st = st0\<lparr>tr_px := take_pending (tr_px st0), tr_acc := (tr_acc st0)\<lparr>ta_gnu := is_gnu\<rparr>\<rparr>
      in case member_layout rd min_abs (Some region_end) header
                (merge_member env encoding is_gnu header pos (tr_px st0)) of
           Inl e \<Rightarrow> RFail e st
         | Inr m \<Rightarrow>
             (if is_pax_placeholder (tm_name m) then
                RNext (st\<lparr>tr_pos := pos + BLOCK_SIZE + pad512 (tm_on_tape m)\<rparr>)
              else
                let full_name = join_path_prefix path_prefix (tm_name m);
                    istar = is_nested_candidate rd min_abs (Some region_end) m;
                    acc = (tr_acc st)\<lparr>ta_nested := ta_nested (tr_acc st) @
                      (if istar then [nested_entry (normalize_member_path full_name) m] else [])\<rparr>;
                    st1 = st\<lparr>tr_acc := push_member env (scast depth) full_name m istar [] acc, tr_found := True,
                      tr_pos := next_header pos m\<rparr>
                in if tr_pos st1 > region_end then RStop st1 else RNext st1))"

definition region_step ::
    "'db tar_env \<Rightarrow> tar_options \<Rightarrow> reader \<Rightarrow> u64 \<Rightarrow> string \<Rightarrow> u64 \<Rightarrow> i32 \<Rightarrow> tar_region \<Rightarrow> region_round" where
  "region_step env opts rd min_abs path_prefix region_end depth st0 =
     (if te_cancelled env (tr_ticks st0) then RFail (TarIndex Cancelled) st0
      else
        let st = st0\<lparr>tr_ticks := tr_ticks st0 + 1\<rparr>; pos = tr_pos st in
        if pos + BLOCK_SIZE > region_end then RStop st
        else case seek_header rd min_abs pos of
          Inl e \<Rightarrow> RFail e st
        | Inr None \<Rightarrow> RStop st
        | Inr (Some header) \<Rightarrow>
            (if all_zero header then
               (if to_ignore_zeros opts then RNext (st\<lparr>tr_pos := pos + BLOCK_SIZE\<rparr>)
                else if pos + BLOCK_SIZE + BLOCK_SIZE \<le> region_end then
                  (case seek_header rd min_abs (pos + BLOCK_SIZE) of Inl e \<Rightarrow> RFail e st | Inr _ \<Rightarrow> RStop st)
                else RStop st)
             else if typeflag_of header = CHR ''x'' \<or> typeflag_of header = CHR ''g'' then
               (case pax_header env rd min_abs (Some region_end) header pos (tr_px st) of
                  Inl e \<Rightarrow> RFail e st
                | Inr None \<Rightarrow> RStop st
                | Inr (Some (px, p)) \<Rightarrow> RNext (st\<lparr>tr_px := px, tr_pos := p\<rparr>))
             else if typeflag_of header = CHR ''L'' \<or> typeflag_of header = CHR ''K'' then
               (case long_header env (to_encoding opts) rd min_abs (Some region_end) header pos (tr_px st) of
                  Inl e \<Rightarrow> RFail e st
                | Inr None \<Rightarrow> RStop st
                | Inr (Some (px, p)) \<Rightarrow> RNext (st\<lparr>tr_px := px, tr_pos := p\<rparr>))
             else region_member env (to_encoding opts) rd min_abs path_prefix region_end depth header st))"

partial_function (option) region_loop ::
    "'db tar_env \<Rightarrow> tar_options \<Rightarrow> reader \<Rightarrow> u64 \<Rightarrow> string \<Rightarrow> u64 \<Rightarrow> i32 \<Rightarrow> tar_region
      \<Rightarrow> (tar_error option \<times> tar_region) option" where
  "region_loop env opts rd min_abs path_prefix region_end depth st =
     (case region_step env opts rd min_abs path_prefix region_end depth st of
        RFail e st' \<Rightarrow> Some (Some e, st')
      | RStop st' \<Rightarrow> Some (None, st')
      | RNext st' \<Rightarrow> region_loop env opts rd min_abs path_prefix region_end depth st')"

declare region_loop.simps [code]

definition walk_tar_region ::
    "'db tar_env \<Rightarrow> tar_options \<Rightarrow> reader \<Rightarrow> u64 \<Rightarrow> string \<Rightarrow> u64 \<Rightarrow> u64 \<Rightarrow> i32 \<Rightarrow> tar_acc \<Rightarrow> nat
      \<Rightarrow> (tar_error option \<times> tar_region) option" where
  "walk_tar_region env opts rd min_abs path_prefix region_start region_end depth acc ticks =
     (let st = \<lparr>tr_pos = region_start, tr_px = tar_pax_init, tr_acc = acc, tr_found = False, tr_ticks = ticks\<rparr>
      in if region_end \<le> region_start + BLOCK_SIZE then Some (None, st)
         else region_loop env opts rd min_abs path_prefix region_end depth st)"

section \<open>Flattening\<close>

text \<open>The loop over the nested members of one layer. \<open>None\<close> is a walk that does not return.\<close>

fun flatten_members ::
    "'db tar_env \<Rightarrow> tar_options \<Rightarrow> reader \<Rightarrow> u64 \<Rightarrow> i32 \<Rightarrow> nested_pending list \<Rightarrow> 'db tar_walk
      \<Rightarrow> (tar_error + 'db tar_walk) option" where
  "flatten_members env opts rd min_abs depth [] st = Some (Inr st)"
| "flatten_members env opts rd min_abs depth (p # ps) st =
     (let m = np_member p in
      if \<not> should_flatten_nested opts (nm_size m) depth then flatten_members env opts rd min_abs depth ps st
      else
        let acc = (tw_acc st)\<lparr>ta_generated := List.insert (nm_path m) (ta_generated (tw_acc st))\<rparr> in
        case walk_tar_region env opts rd min_abs (nm_path m) (nm_offset m)
               (saturating_add (nm_offset m) (nm_size m)) depth acc (tw_ticks st) of
          None \<Rightarrow> None
        | Some (err, r) \<Rightarrow>
            let st1 = st\<lparr>tw_acc := tr_acc r, tw_ticks := tr_ticks r\<rparr> in
            (case err of
               Some e \<Rightarrow>
                 (if e = TarIndex Cancelled \<or> e = TarPanic then Some (Inl e)
                  else flatten_members env opts rd min_abs depth ps st1)
             | None \<Rightarrow>
                 (if \<not> tr_found r then flatten_members env opts rd min_abs depth ps st1
                  else
                    let (rows, generated) = push_nested_member_as_directory p depth (ta_generated (tr_acc r));
                        st2 = st1\<lparr>tw_acc := (tr_acc r)\<lparr>ta_batch := ta_batch (tr_acc r) @ rows,
                                ta_generated := generated\<rparr>\<rparr>
                    in case and_then
                         (if length (ta_batch (tw_acc st2)) \<ge> BATCH_FLUSH then flush_rows env st2 else Inr st2)
                         (\<lambda>st3. if length (ta_xattrs (tw_acc st3)) \<ge> BATCH_FLUSH then flush_xattrs env st3 else Inr st3) of
                           Inl e \<Rightarrow> Some (Inl e)
                         | Inr st4 \<Rightarrow> flatten_members env opts rd min_abs depth ps st4)))"

text \<open>Layer by layer; the depth guard ends the recursion.\<close>

function flatten_nested_tars ::
    "'db tar_env \<Rightarrow> tar_options \<Rightarrow> reader \<Rightarrow> u64 \<Rightarrow> nested_pending list \<Rightarrow> i32 \<Rightarrow> 'db tar_walk
      \<Rightarrow> (tar_error + 'db tar_walk) option" where
  "flatten_nested_tars env opts rd min_abs nested content_depth st =
     (if nested = [] \<or> sint content_depth < 0 \<or> sint content_depth > 64 then Some (Inr st)
      else
        let st0 = st\<lparr>tw_acc := (tw_acc st)\<lparr>ta_batch := [], ta_xattrs := [], ta_nested := []\<rparr>\<rparr> in
        case flatten_members env opts rd min_abs content_depth nested st0 of
          None \<Rightarrow> None
        | Some (Inl e) \<Rightarrow> Some (Inl e)
        | Some (Inr st1) \<Rightarrow>
            (case and_then (flush_rows env st1) (flush_xattrs env) of
               Inl e \<Rightarrow> Some (Inl e)
             | Inr st2 \<Rightarrow>
                 (if ta_nested (tw_acc st2) = [] then Some (Inr st2)
                  else flatten_nested_tars env opts rd min_abs (ta_nested (tw_acc st2)) (content_depth + 1) st2)))"
  by pat_completeness auto
termination
proof (relation "measure (\<lambda>(env, opts, rd, min_abs, nested, d :: i32, st). nat (65 - sint d))", goal_cases)
  case (2 env opts rd min_abs nested d st st0 r st1 st2)
  then have "sint (d + 1) = sint d + 1"
    by (simp add: sint_word_ariths signed_take_bit_int_eq_self)
  with 2 show ?case by simp
qed simp

declare flatten_nested_tars.simps [simp del]

section \<open>The driver\<close>

definition NESTED_TAR_MEMBERS_KEY :: string where "NESTED_TAR_MEMBERS_KEY = ''nestedTarMembers''"

definition store_metadata_key_value ::
    "'db tar_env \<Rightarrow> 'db sqlite_index \<Rightarrow> string \<Rightarrow> string \<Rightarrow> 'db sqlite_index \<times> (index_error + unit)" where
  "store_metadata_key_value env ix key val =
     (if ix_read_only ix then (ix, Inl (Invalid ''index is read-only''))
      else if ix_compact_only ix then (ix, Inr ())
      else let (db, r) = te_put_metadata env (ix_conn ix) key val in (ix\<lparr>ix_conn := db\<rparr>, r))"

definition store_nested_tar_members ::
    "'db tar_env \<Rightarrow> nested_tar_member list \<Rightarrow> 'db tar_walk \<Rightarrow> tar_error + 'db tar_walk" where
  "store_nested_tar_members env members st =
     (case store_metadata_key_value env (tw_ix st) NESTED_TAR_MEMBERS_KEY (format_nested_tar_members_json members) of
        (_, Inl e) \<Rightarrow> Inl (TarIndex e)
      | (ix, Inr _) \<Rightarrow> Inr (st\<lparr>tw_ix := ix\<rparr>))"

definition metadata :: "'db tar_env \<Rightarrow> 'db sqlite_index \<Rightarrow> index_error + (string \<times> string) list" where
  "metadata env ix =
     and_then (se_tables (te_sql env) (ix_conn ix)) (\<lambda>tables.
       if ''metadata'' \<notin> set tables then Inr []
       else and_then (te_metadata_rows env (ix_conn ix)) (\<lambda>rows. Inr (map_extend [] rows)))"

definition kept_nested_members ::
    "'db tar_env \<Rightarrow> u64 \<Rightarrow> 'db sqlite_index \<Rightarrow> tar_error + nested_tar_member list" where
  "kept_nested_members env start ix =
     (if start > 0 then
        and_then (map_err TarIndex (metadata env ix)) (\<lambda>md.
          case map_of md NESTED_TAR_MEMBERS_KEY of
            Some json \<Rightarrow> Inr (filter (\<lambda>m. nm_offset m < start) (parse_nested_tar_members_json json))
          | None \<Rightarrow> Inr [])
      else Inr [])"

definition walk_start :: "u64 \<Rightarrow> bool \<Rightarrow> 'db sqlite_index \<Rightarrow> build_progress \<Rightarrow> 'db tar_walk" where
  "walk_start start is_gnu ix bp =
     \<lparr>tw_pos = start, tw_px = tar_pax_init,
      tw_acc = \<lparr>ta_gnu = is_gnu, ta_batch = [], ta_xattrs = [], ta_generated = [], ta_nested = []\<rparr>,
      tw_dumpdir = [], tw_ix = ix, tw_progress = bp, tw_ticks = 0\<rparr>"

definition parse_tar_from ::
    "'db tar_env \<Rightarrow> tar_options \<Rightarrow> reader \<Rightarrow> u64 \<Rightarrow> bool \<Rightarrow> 'db sqlite_index \<Rightarrow> build_progress
      \<Rightarrow> (tar_error + 'db tar_walk) option" where
  "parse_tar_from env opts rd start is_gnu ix bp =
     (case tar_loop env opts rd start (walk_start start is_gnu ix bp) of
        None \<Rightarrow> None
      | Some (Inl e) \<Rightarrow> Some (Inl e)
      | Some (Inr st) \<Rightarrow>
          (case and_then (flush_rows env st) (\<lambda>st1.
                and_then (flush_xattrs env st1) (\<lambda>st2.
                and_then (kept_nested_members env start (tw_ix st2)) (\<lambda>kept.
                store_nested_tar_members env (kept @ map np_member (ta_nested (tw_acc st2))) st2))) of
             Inl e \<Rightarrow> Some (Inl e)
           | Inr st3 \<Rightarrow> flatten_nested_tars env opts rd start (ta_nested (tw_acc st3)) 1 st3))"

text \<open>
  The detector of GNU incremental archives reads at most 10000 headers and stops when its three seconds are over,
  which the host answers through \<open>timed_out\<close>. It seeks the reader itself, without the window guard.
\<close>

partial_function (option) detect_loop :: "reader \<Rightarrow> bool \<Rightarrow> (nat \<Rightarrow> bool) \<Rightarrow> nat \<Rightarrow> nat \<Rightarrow> u64 \<Rightarrow> (io_error + bool) option" where
  "detect_loop rd ignore_zeros timed_out tick remaining pos =
     (if remaining = 0 \<or> timed_out tick then Some (Inr False)
      else case read_tar_header rd pos of
        Inl e \<Rightarrow> Some (Inl e)
      | Inr None \<Rightarrow> Some (Inr False)
      | Inr (Some header) \<Rightarrow>
          (if all_zero header then
             (case read_tar_header rd (pos + BLOCK_SIZE) of
                Inl e \<Rightarrow> Some (Inl e)
              | Inr next \<Rightarrow>
                  (if (case next of None \<Rightarrow> True | Some h \<Rightarrow> all_zero h) \<and> ignore_zeros
                   then detect_loop rd ignore_zeros timed_out (tick + 1) remaining (pos + BLOCK_SIZE)
                   else Some (Inr False)))
           else if typeflag_of header = CHR ''D'' then Some (Inr True)
           else detect_loop rd ignore_zeros timed_out (tick + 1) (remaining - 1)
                  (pos + BLOCK_SIZE + pad512 (header_size header))))"

declare detect_loop.simps [code]

definition detect_gnu_incremental :: "reader \<Rightarrow> bool \<Rightarrow> (nat \<Rightarrow> bool) \<Rightarrow> (io_error + bool) option" where
  "detect_gnu_incremental rd ignore_zeros timed_out = detect_loop rd ignore_zeros timed_out 0 10000 0"

definition parse_tar_into_index ::
    "'db tar_env \<Rightarrow> tar_options \<Rightarrow> reader \<Rightarrow> (nat \<Rightarrow> bool) \<Rightarrow> 'db sqlite_index \<Rightarrow> build_progress
      \<Rightarrow> (tar_error + 'db tar_walk) option" where
  "parse_tar_into_index env opts rd timed_out ix bp =
     (case to_gnu_incremental opts of
        Some v \<Rightarrow> parse_tar_from env opts rd 0 v ix bp
      | None \<Rightarrow>
          (case detect_gnu_incremental rd (to_ignore_zeros opts) timed_out of
             None \<Rightarrow> None
           | Some (Inl e) \<Rightarrow> Some (Inl (TarIo e))
           | Some (Inr is_gnu) \<Rightarrow> parse_tar_from env opts rd 0 is_gnu ix bp))"

end
