(* ===== verification/Tar_Progress.thy ===== *)
theory Tar_Progress
  imports Tar_Index
begin

text \<open>
  Whether the header walk ends. Positions wrap in a release build, so the walk is not bounded by the
  archive alone: it returns unless it meets a member whose size on the tape is above \<open>2 ^ 62\<close>, and such a
  member can indeed hold it for ever.
\<close>

section \<open>Loops\<close>

text \<open>
  A loop as its step function: \<open>next_round\<close> gives the state of the next round, or nothing when the loop stops. A loop
  whose rounds lower a measure, on the states it goes through, returns.
\<close>

locale round_loop =
  fixes run :: "'s \<Rightarrow> 'r option" and next_round :: "'s \<Rightarrow> 's option"
  assumes run_next: "next_round s = Some s' \<Longrightarrow> run s = run s'"
    and run_stop: "next_round s = None \<Longrightarrow> \<exists>r. run s = Some r"
begin

lemma returns:
  fixes f :: "'s \<Rightarrow> nat"
  assumes "I s" and "\<And>s s'. I s \<Longrightarrow> next_round s = Some s' \<Longrightarrow> I s' \<and> f s' < f s"
  shows "\<exists>r. run s = Some r"
  using assms(1)
proof (induction "f s" arbitrary: s rule: less_induct)
  case less
  show ?case
  proof (cases "next_round s")
    case (Some s')
    then show ?thesis using less assms(2) [of s s'] run_next [of s s'] by simp
  qed (rule run_stop)
qed

text \<open>Counting rounds: a loop that stops from some count on returns.\<close>

lemma returns_by_count:
  fixes rounds :: "'s \<Rightarrow> nat"
  assumes "\<And>s s'. next_round s = Some s' \<Longrightarrow> rounds s < rounds s' \<and> rounds s < n"
  shows "\<exists>r. run s = Some r"
proof (rule returns [where I = "\<lambda>_. True" and f = "\<lambda>s. n - rounds s"])
  fix s s' assume "next_round s = Some s'"
  from assms [OF this] show "True \<and> n - rounds s' < n - rounds s" by auto
qed simp

end

definition tar_next :: "'db tar_env \<Rightarrow> tar_options \<Rightarrow> reader \<Rightarrow> u64 \<Rightarrow> 'db tar_walk \<Rightarrow> 'db tar_walk option" where
  "tar_next env opts rd min_abs st = (case tar_step env opts rd min_abs st of Inr (Some st') \<Rightarrow> Some st' | _ \<Rightarrow> None)"

interpretation outer: round_loop "tar_loop env opts rd min_abs" "tar_next env opts rd min_abs" for env opts rd min_abs
proof unfold_locales
  fix st st'
  assume "tar_next env opts rd min_abs st = Some st'"
  then show "tar_loop env opts rd min_abs st = tar_loop env opts rd min_abs st'"
    by (subst tar_loop.simps) (simp add: tar_next_def split: sum.splits option.splits)
next
  fix st
  assume "tar_next env opts rd min_abs st = None"
  then show "\<exists>r. tar_loop env opts rd min_abs st = Some r"
    by (subst tar_loop.simps) (auto simp: tar_next_def split: sum.splits option.splits)
qed

definition region_next ::
    "'db tar_env \<Rightarrow> tar_options \<Rightarrow> reader \<Rightarrow> u64 \<Rightarrow> string \<Rightarrow> u64 \<Rightarrow> i32 \<Rightarrow> tar_region \<Rightarrow> tar_region option" where
  "region_next env opts rd min_abs path_prefix region_end depth st =
     (case region_step env opts rd min_abs path_prefix region_end depth st of RNext st' \<Rightarrow> Some st' | _ \<Rightarrow> None)"

interpretation region: round_loop "region_loop env opts rd min_abs path_prefix region_end depth"
    "region_next env opts rd min_abs path_prefix region_end depth" for env opts rd min_abs path_prefix region_end depth
proof unfold_locales
  fix st st'
  assume "region_next env opts rd min_abs path_prefix region_end depth st = Some st'"
  then show "region_loop env opts rd min_abs path_prefix region_end depth st =
      region_loop env opts rd min_abs path_prefix region_end depth st'"
    by (subst region_loop.simps) (simp add: region_next_def split: region_round.splits)
next
  fix st
  assume "region_next env opts rd min_abs path_prefix region_end depth st = None"
  then show "\<exists>r. region_loop env opts rd min_abs path_prefix region_end depth st = Some r"
    by (subst region_loop.simps) (auto simp: region_next_def split: region_round.splits)
qed

section \<open>Positions advance\<close>

lemma unat_pad512:
  assumes "unat s \<le> 2 ^ 62"
  shows "unat (pad512 s) = (unat s + 511) div 512 * 512"
proof -
  have "(unat s + 511) div 512 * 512 \<le> unat s + 511"
    by simp
  then show ?thesis
    using assms unfolding pad512_def BLOCK_SIZE_def
    by (simp add: unat_mult_lem [THEN iffD1] unsigned_of_nat unat_word_ariths take_bit_nat_eq_self)
qed

lemma pad512_bounds:
  assumes "unat s \<le> 2 ^ 62"
  shows "unat s \<le> unat (pad512 s)" "unat (pad512 s) < unat s + 512" "512 dvd unat (pad512 s)"
  unfolding unat_pad512 [OF assms] by auto

lemma advance:
  assumes "unat pos < 2 ^ 63" "unat s \<le> 2 ^ 62"
  shows "unat (pos + BLOCK_SIZE) = unat pos + 512"
    "unat (pos + BLOCK_SIZE + pad512 s) = unat pos + 512 + unat (pad512 s)"
proof -
  show e: "unat (pos + BLOCK_SIZE) = unat pos + 512"
    using assms(1) by (simp add: BLOCK_SIZE_def unat_word_ariths)
  have "unat pos + 512 + unat (pad512 s) < 2 ^ 64"
    using pad512_bounds [OF assms(2)] assms by simp
  then show "unat (pos + BLOCK_SIZE + pad512 s) = unat pos + 512 + unat (pad512 s)"
    by (subst unat_word_ariths) (simp add: e)
qed

lemma seek_header_pos:
  assumes "seek_header rd min_abs pos = Inr r"
  shows "unat pos < 2 ^ 63"
  using assms by (auto simp: seek_header_def seek_guard_def and_then_def map_err_def sint_neg_u64 not_le split: if_splits)

lemma payload_cap: "check_header_payload_size sz kind = Inr u \<Longrightarrow> unat sz \<le> 2 ^ 62"
  by (auto simp: check_header_payload_size_def MAX_HEADER_PAYLOAD_BYTES_def word_less_nat_alt not_less split: if_splits)

lemma pax_header_advances:
  assumes "pax_header env rd min_abs limit header pos px = Inr (Some (px', p))" "unat pos < 2 ^ 63"
  shows "unat pos < unat p"
  using assms advance(2) [OF assms(2) payload_cap]
  by (auto simp: pax_header_def Let_def and_then_def split: sum.splits if_splits option.splits)

lemma long_header_advances:
  assumes "long_header env enc rd min_abs limit header pos px = Inr (Some (px', p))" "unat pos < 2 ^ 63"
  shows "unat pos < unat p"
  using assms advance(2) [OF assms(2) payload_cap]
  by (auto simp: long_header_def Let_def and_then_def split: sum.splits if_splits)

section \<open>The walk returns\<close>

text \<open>The member the walk finds in a state, and the states a walk goes through.\<close>

definition walk_member :: "'db tar_env \<Rightarrow> tar_options \<Rightarrow> reader \<Rightarrow> u64 \<Rightarrow> 'db tar_walk \<Rightarrow> tar_member option" where
  "walk_member env opts rd min_abs st =
     (case seek_header rd min_abs (tw_pos st) of
        Inr (Some header) \<Rightarrow>
          (case member_layout rd min_abs None header
             (merge_member env (to_encoding opts) (ta_gnu (tw_acc st) \<or> typeflag_of header = CHR ''D'') header
               (tw_pos st) (tw_px st)) of
             Inr m \<Rightarrow> Some m | Inl _ \<Rightarrow> None)
      | _ \<Rightarrow> None)"

inductive tar_reach :: "'db tar_env \<Rightarrow> tar_options \<Rightarrow> reader \<Rightarrow> u64 \<Rightarrow> 'db tar_walk \<Rightarrow> 'db tar_walk \<Rightarrow> bool"
  for env opts rd min_abs where
  reach_refl: "tar_reach env opts rd min_abs st st"
| reach_step: "tar_step env opts rd min_abs st = Inr (Some st1) \<Longrightarrow> tar_reach env opts rd min_abs st1 st2
    \<Longrightarrow> tar_reach env opts rd min_abs st st2"

lemma and_then_InrE:
  assumes "and_then r f = Inr y"
  obtains x where "r = Inr x" "f x = Inr y"
  using assms by (auto simp: and_then_def split: sum.splits)

lemma member_step_pos:
  assumes "member_step env enc rd min_abs header st = Inr st'"
  obtains m where "member_layout rd min_abs None header
      (merge_member env enc (ta_gnu (tw_acc st) \<or> typeflag_of header = CHR ''D'') header (tw_pos st) (tw_px st)) = Inr m"
    "tw_pos st' \<in> {tw_pos st + BLOCK_SIZE, tw_pos st + BLOCK_SIZE + pad512 (tm_on_tape m)}"
  using assms unfolding member_step_def Let_def
  by (elim and_then_InrE) (auto simp: next_header_def elim!: and_then_InrE split: if_splits prod.splits)

lemma tar_step_advances:
  assumes "tar_step env opts rd min_abs st = Inr (Some st')"
    and small: "\<And>m. walk_member env opts rd min_abs st = Some m \<Longrightarrow> unat (tm_on_tape m) \<le> 2 ^ 62"
  shows "unat (tw_pos st) < unat (tw_pos st')"
proof -
  let ?st = "st\<lparr>tw_ticks := tw_ticks st + 1\<rparr>"
  obtain header where h: "seek_header rd min_abs (tw_pos st) = Inr (Some header)"
    using assms(1) by (auto simp: tar_step_def Let_def elim!: and_then_InrE split: if_splits option.splits)
  have p: "unat (tw_pos st) < 2 ^ 63" by (rule seek_header_pos [OF h])
  have "unat (0 :: u64) \<le> 2 ^ 62" by simp
  note blk = advance(1) [OF p this]
  consider "tw_pos st' = tw_pos st + BLOCK_SIZE"
    | px where "pax_header env rd min_abs None header (tw_pos st) (tw_px st) = Inr (Some (px, tw_pos st'))"
    | px where "long_header env (to_encoding opts) rd min_abs None header (tw_pos st) (tw_px st) = Inr (Some (px, tw_pos st'))"
    | "member_step env (to_encoding opts) rd min_abs header ?st = Inr st'"
    using assms(1) h
    by (auto simp: tar_step_def Let_def and_then_def split: if_splits option.splits sum.splits)
  then show ?thesis
  proof cases
    case 1
    then show ?thesis using blk by simp
  next
    case 2
    then show ?thesis using pax_header_advances p by blast
  next
    case 3
    then show ?thesis using long_header_advances p by blast
  next
    case 4
    then obtain m where m: "walk_member env opts rd min_abs st = Some m"
      and pos: "tw_pos st' \<in> {tw_pos st + BLOCK_SIZE, tw_pos st + BLOCK_SIZE + pad512 (tm_on_tape m)}"
      by (rule member_step_pos) (simp add: walk_member_def h)
    then show ?thesis using advance [OF p small [OF m]] by auto
  qed
qed

text \<open>
  C0: The header walk over any stream returns, with a result or with an error, unless it reaches a member whose
  size on the tape is above \<open>2 ^ 62\<close> bytes.
\<close>

theorem tar_walk_returns:
  "(\<exists>r. tar_loop env opts rd min_abs st = Some r)
   \<or> (\<exists>st' m. tar_reach env opts rd min_abs st st' \<and> walk_member env opts rd min_abs st' = Some m
        \<and> 2 ^ 62 < unat (tm_on_tape m))"
proof -
  define small where "small = (\<lambda>st. \<forall>st' m. tar_reach env opts rd min_abs st st' \<longrightarrow>
    walk_member env opts rd min_abs st' = Some m \<longrightarrow> unat (tm_on_tape m) \<le> 2 ^ 62)"
  have "\<exists>r. tar_loop env opts rd min_abs st = Some r" if "small st"
  proof (rule outer.returns [where I = small and f = "\<lambda>st. 2 ^ 64 - unat (tw_pos st)", OF that])
    fix s s'
    assume sm: "small s" and "tar_next env opts rd min_abs s = Some s'"
    then have step: "tar_step env opts rd min_abs s = Inr (Some s')"
      by (simp add: tar_next_def split: sum.splits option.splits)
    have "small s'" using sm reach_step [OF step] unfolding small_def by blast
    moreover have "unat (tw_pos s) < unat (tw_pos s')"
      using tar_step_advances [OF step] sm reach_refl unfolding small_def by blast
    moreover have "unat (tw_pos s') < 2 ^ 64"
      by (rule order_less_le_trans [OF unsigned_less]) simp
    ultimately show "small s' \<and> 2 ^ 64 - unat (tw_pos s') < 2 ^ 64 - unat (tw_pos s)" by linarith
  qed
  then show ?thesis unfolding small_def using not_less by blast
qed

section \<open>Cancelling ends indexing\<close>

lemma flush_ticks:
  "flush_rows env st = Inr st' \<Longrightarrow> tw_ticks st \<le> tw_ticks st'"
  "flush_xattrs env st = Inr st' \<Longrightarrow> tw_ticks st \<le> tw_ticks st'"
  by (auto simp: flush_rows_def flush_xattrs_def split: if_splits prod.splits sum.splits)

lemma member_step_ticks: "member_step env enc rd min_abs header st = Inr st' \<Longrightarrow> tw_ticks st \<le> tw_ticks st'"
  unfolding member_step_def Let_def
  by (elim and_then_InrE) (force elim!: and_then_InrE dest!: flush_ticks split: if_splits prod.splits)

lemma tar_step_ticks:
  assumes "tar_step env opts rd min_abs st = Inr (Some st')"
  shows "\<not> te_cancelled env (tw_ticks st) \<and> tw_ticks st < tw_ticks st'"
  using assms
  by (auto simp: tar_step_def Let_def elim!: and_then_InrE dest!: member_step_ticks split: if_splits option.splits)

lemma region_step_ticks:
  assumes "region_step env opts rd min_abs path_prefix region_end depth st = RNext st'"
  shows "\<not> te_cancelled env (tr_ticks st) \<and> tr_ticks st < tr_ticks st'"
  using assms
  by (auto simp: region_step_def region_member_def Let_def split: if_splits option.splits sum.splits)

text \<open>From round \<open>n\<close> on, the hook answers that the build is cancelled.\<close>

definition cancelled_from :: "(nat \<Rightarrow> bool) \<Rightarrow> nat \<Rightarrow> bool" where
  "cancelled_from hook n \<longleftrightarrow> (\<forall>k \<ge> n. hook k)"

lemma cancelled_tar_loop:
  assumes "cancelled_from (te_cancelled env) n"
  shows "\<exists>r. tar_loop env opts rd min_abs st = Some r"
proof (rule outer.returns_by_count [where rounds = tw_ticks and n = n])
  fix s s' assume "tar_next env opts rd min_abs s = Some s'"
  then have "tar_step env opts rd min_abs s = Inr (Some s')"
    by (simp add: tar_next_def split: sum.splits option.splits)
  from tar_step_ticks [OF this] show "tw_ticks s < tw_ticks s' \<and> tw_ticks s < n"
    using assms unfolding cancelled_from_def by (meson not_le)
qed

lemma cancelled_region:
  assumes "cancelled_from (te_cancelled env) n"
  obtains r where "walk_tar_region env opts rd min_abs path_prefix region_start region_end depth acc ticks = Some r"
proof -
  have "\<exists>r. region_loop env opts rd min_abs path_prefix region_end depth st = Some r" for st
  proof (rule region.returns_by_count [where rounds = tr_ticks and n = n])
    fix s s' assume "region_next env opts rd min_abs path_prefix region_end depth s = Some s'"
    then have "region_step env opts rd min_abs path_prefix region_end depth s = RNext s'"
      by (simp add: region_next_def split: region_round.splits)
    from region_step_ticks [OF this] show "tr_ticks s < tr_ticks s' \<and> tr_ticks s < n"
      using assms unfolding cancelled_from_def by (meson not_le)
  qed
  then show thesis using that by (cases "region_end \<le> region_start + BLOCK_SIZE") (simp_all add: walk_tar_region_def, metis)
qed

lemma cancelled_flatten_members:
  assumes "cancelled_from (te_cancelled env) n"
  shows "\<exists>r. flatten_members env opts rd min_abs depth ps st = Some r"
proof (induction ps arbitrary: st)
  case (Cons p ps)
  obtain err r where "walk_tar_region env opts rd min_abs (nm_path (np_member p)) (nm_offset (np_member p))
      (saturating_add (nm_offset (np_member p)) (nm_size (np_member p))) depth
      ((tw_acc st)\<lparr>ta_generated := List.insert (nm_path (np_member p)) (ta_generated (tw_acc st))\<rparr>) (tw_ticks st) = Some (err, r)"
    using cancelled_region [OF assms] by (metis surj_pair)
  then show ?case
    using Cons.IH by (simp add: Let_def split: option.splits prod.splits sum.splits)
qed simp

lemma cancelled_flatten:
  "cancelled_from (te_cancelled env) n \<Longrightarrow> \<exists>r. flatten_nested_tars env opts rd min_abs nested depth st = Some r"
proof (induction env opts rd min_abs nested depth st rule: flatten_nested_tars.induct)
  case (1 env opts rd min_abs nested depth st)
  obtain r where r: "flatten_members env opts rd min_abs depth nested
      (st\<lparr>tw_acc := (tw_acc st)\<lparr>ta_batch := [], ta_xattrs := [], ta_nested := []\<rparr>\<rparr>) = Some r"
    using cancelled_flatten_members [OF "1.prems"] by metis
  show ?case
  proof (cases "nested = [] \<or> sint depth < 0 \<or> 64 < sint depth")
    case False
    show ?thesis
    proof (cases r)
      case (Inr st1)
      then show ?thesis
        using False r "1.IH" [OF False refl, of "Inr st1" st1] "1.prems"
        by (subst flatten_nested_tars.simps) (simp add: Let_def split: sum.splits)
    qed (use False r in \<open>subst flatten_nested_tars.simps, simp\<close>)
  qed (subst flatten_nested_tars.simps, simp)
qed

lemma timed_out_detect:
  assumes "cancelled_from timed_out n"
  shows "\<exists>r. detect_loop rd ignore_zeros timed_out tick remaining pos = Some r"
proof (induction "n - tick" arbitrary: ignore_zeros tick remaining pos rule: less_induct)
  case less
  show ?case
  proof (cases "timed_out tick")
    case False
    then have "n - Suc tick < n - tick"
      using assms unfolding cancelled_from_def by (metis diff_less_mono2 lessI linorder_not_less)
    note IH = less [OF this]
    show ?thesis
      by (subst detect_loop.simps) (auto split: sum.splits option.splits if_splits intro: IH)
  qed (subst detect_loop.simps, simp)
qed

text \<open>
  C0: Cancelling always ends indexing: when the cancel hook answers yes from some round on, and the detector's clock
  runs out at some point, indexing any stream returns, whatever the archive's headers say, nested archives
  included. In particular the walk that a crafted header keeps in one place ends.
\<close>

theorem cancel_ends_indexing:
  assumes "cancelled_from (te_cancelled env) n" "cancelled_from timed_out t"
  shows "\<exists>r. parse_tar_into_index env opts rd timed_out ix bp = Some r"
proof -
  have "\<exists>r. parse_tar_from env opts rd 0 is_gnu ix bp = Some r" for is_gnu
  proof -
    obtain r where "tar_loop env opts rd 0 (walk_start 0 is_gnu ix bp) = Some r"
      using cancelled_tar_loop [OF assms(1)] by blast
    then show ?thesis
      using cancelled_flatten [OF assms(1)] by (simp add: parse_tar_from_def split: sum.splits)
  qed
  moreover obtain d where "detect_gnu_incremental rd (to_ignore_zeros opts) timed_out = Some d"
    using timed_out_detect [OF assms(2)] unfolding detect_gnu_incremental_def by blast
  ultimately show ?thesis
    by (simp add: parse_tar_into_index_def split: option.splits sum.splits)
qed

section \<open>A walk that never returns\<close>

text \<open>
  A header whose size field, in base 256, is \<open>2 ^ 64 - 512\<close>: the position after it is its own position. The name
  makes it a placeholder, so no row is ever staged.
\<close>

definition looping_header :: bytes where
  "looping_header = ''PaxHeaders/a'' @ replicate 112 CHR 0x00
     @ [CHR 0x80, CHR 0x00, CHR 0x00, CHR 0x00, CHR 0xFF, CHR 0xFF, CHR 0xFF, CHR 0xFF, CHR 0xFF, CHR 0xFF, CHR 0xFE, CHR 0x00]
     @ replicate 376 CHR 0x00"

lemma looping_slices:
  "slice 0 100 looping_header = ''PaxHeaders/a'' @ replicate 88 CHR 0x00"
  "slice 345 500 looping_header = [] @ replicate 155 CHR 0x00"
  "slice 124 136 looping_header = [CHR 0x80, CHR 0x00, CHR 0x00, CHR 0x00, CHR 0xFF, CHR 0xFF, CHR 0xFF, CHR 0xFF,
     CHR 0xFF, CHR 0xFF, CHR 0xFE, CHR 0x00]"
  by (simp_all add: looping_header_def slice_def )

lemma looping_header_facts:
  "length looping_header = 512" "\<not> all_zero looping_header" "typeflag_of looping_header = CHR 0x00"
  "header_size looping_header = - 512" "parse_name encs looping_header ''utf-8'' = ''PaxHeaders/a''"
proof -
  show "length looping_header = 512" "\<not> all_zero looping_header" "typeflag_of looping_header = CHR 0x00"
    by (simp_all add: looping_header_def all_zero_def typeflag_of_def nth_append)
  have "unwrap_or (parse_octal [CHR 0x80, CHR 0x00, CHR 0x00, CHR 0x00, CHR 0xFF, CHR 0xFF, CHR 0xFF, CHR 0xFF,
     CHR 0xFF, CHR 0xFF, CHR 0xFE, CHR 0x00]) 0 = - 512"
    by code_simp
  then show "header_size looping_header = - 512"
    by (simp add: header_size_def looping_slices)
  have "decode_bytes encs [] ''utf-8'' = []" "decode_bytes encs ''PaxHeaders/a'' ''utf-8'' = ''PaxHeaders/a''"
    by code_simp+
  then show "parse_name encs looping_header ''utf-8'' = ''PaxHeaders/a''"
    unfolding parse_name_def Let_def looping_slices cstr_field_encoded_def by (subst until_nul_pad, simp)+ simp
qed

lemma looping_header_Nil: "looping_header \<noteq> []"
  by (simp add: looping_header_def)

lemma looping_step:
  assumes rd: "reads rd (looping_header @ rest)" and c: "\<And>n. \<not> te_cancelled env n"
    and enc: "to_encoding opts = ''utf-8''"
    and st: "tw_pos st = 0" "tw_px st = tar_pax_init" "\<not> ta_gnu (tw_acc st)"
  obtains st' where "tar_step env opts rd 0 st = Inr (Some st')"
    "tw_pos st' = 0" "tw_px st' = tar_pax_init" "\<not> ta_gnu (tw_acc st')"
proof -
  have h: "seek_header rd 0 0 = Inr (Some looping_header)"
    by (simp add: seek_header_def seek_guard_def read_tar_header_def and_then_def map_err_def Let_def
        fill_buf_reads [OF rd] looping_header_facts looping_header_Nil)
  let ?m = "merge_member env ''utf-8'' False looping_header 0 tar_pax_init"
  have m: "tm_name ?m = ''PaxHeaders/a''" "tm_on_tape ?m = - 512" "tm_pax ?m = []" "tm_sparse_pairs ?m = []"
    "tm_typeflag ?m = CHR 0x00" "\<not> tm_issparse ?m"
    by (simp_all add: merge_member_def Let_def tar_pax_init_def pax_empty_def map_extend_def looping_header_facts)
  have l: "member_layout rd 0 None looping_header ?m = Inr ?m"
    by (simp add: member_layout_def old_sparse_layout_def pax_sparse_layout_def is_pax_sparse_def pax_size_layout_def
        and_then_def m)
  have "is_pax_placeholder ''PaxHeaders/a''" by code_simp
  moreover have "BLOCK_SIZE + pad512 (- 512) = 0" by code_simp
  moreover have "take_pending tar_pax_init = tar_pax_init" by (simp add: take_pending_def tar_pax_init_def)
  ultimately show thesis
    by (intro that) (auto simp: tar_step_def member_step_def Let_def c st enc h l m and_then_def looping_header_facts)
qed

lemma looping_walk:
  assumes "tar_loop env' opts' rd' min_abs st = Some r"
    and rd: "reads rd (looping_header @ rest)" and c: "\<And>n. \<not> te_cancelled env n"
    and enc: "to_encoding opts = ''utf-8''"
  shows "\<not> (env' = env \<and> opts' = opts \<and> rd' = rd \<and> min_abs = 0
    \<and> tw_pos st = 0 \<and> tw_px st = tar_pax_init \<and> \<not> ta_gnu (tw_acc st))"
proof (rule tar_loop.raw_induct [where P = "\<lambda>env' opts' rd' min_abs st r. \<not> (env' = env \<and> opts' = opts \<and> rd' = rd
    \<and> min_abs = 0 \<and> tw_pos st = 0 \<and> tw_px st = tar_pax_init \<and> \<not> ta_gnu (tw_acc st))", OF _ assms(1)], goal_cases)
  case (1 loop env' opts' rd' min_abs st r)
  show ?case
  proof
    assume eq: "env' = env \<and> opts' = opts \<and> rd' = rd \<and> min_abs = 0
      \<and> tw_pos st = 0 \<and> tw_px st = tar_pax_init \<and> \<not> ta_gnu (tw_acc st)"
    then obtain st' where "tar_step env opts rd 0 st = Inr (Some st')"
      and st': "tw_pos st' = 0" "tw_px st' = tar_pax_init" "\<not> ta_gnu (tw_acc st')"
      using looping_step [OF rd c enc, of st] by auto
    then have "loop env opts rd 0 st' = Some r"
      using 1(2) eq by simp
    then show False using 1(1) st' by blast
  qed
qed

text \<open>C35: An archive that starts with one crafted header of 512 bytes, whose size field wraps the position of the
  next header back to zero, is never indexed: the walk does not return unless it is cancelled.\<close>

theorem tar_walk_diverges:
  assumes "reads rd (looping_header @ rest)" and "\<forall>n. \<not> te_cancelled env n" and "to_encoding opts = ''utf-8''"
  shows "parse_tar_from env opts rd 0 False ix bp = None"
proof -
  have "tar_loop env opts rd 0 (walk_start 0 False ix bp) = None"
    using looping_walk [OF _ assms(1) _ assms(3), where env' = env and opts' = opts and rd' = rd and min_abs = 0
        and st = "walk_start 0 False ix bp"] assms(2)
    by (cases "tar_loop env opts rd 0 (walk_start 0 False ix bp)") (auto simp: walk_start_def)
  then show ?thesis by (simp add: parse_tar_from_def)
qed

theorem tar_walk_diverges_witness:
  "parse_tar_from \<lparr>te_encodings = (\<lambda>_. None), te_xattr_order = (\<lambda>m. m), te_name_order = (\<lambda>m. m), te_cancelled = (\<lambda>n. False),
      te_sql = list_engine, te_insert_xattr = (\<lambda>db _ _ _. (db, Inr ())), te_put_metadata = (\<lambda>db _ _. (db, Inr ())),
      te_metadata_rows = (\<lambda>_. Inr [])\<rparr>
     \<lparr>to_ignore_zeros = False, to_encoding = ''utf-8'', to_gnu_incremental = None, to_recursive = False, to_recursion_depth = None\<rparr>
     (full_reader looping_header) 0 False (create_compact_only []) \<lparr>bp_entries = 0, bp_bytes_scanned = 0\<rparr> = None"
  by (rule tar_walk_diverges [where rest = "[]"]) simp_all

text \<open>The walk over the looping header ends when the user cancels after a thousand rounds.\<close>

definition cancelling_env :: "sql_row list tar_env" where
  "cancelling_env =
     \<lparr>te_encodings = (\<lambda>_. None), te_xattr_order = (\<lambda>m. m), te_name_order = (\<lambda>m. m), te_cancelled = (\<lambda>n. 1000 \<le> n),
      te_sql = list_engine, te_insert_xattr = (\<lambda>db _ _ _. (db, Inr ())), te_put_metadata = (\<lambda>db _ _. (db, Inr ())),
      te_metadata_rows = (\<lambda>_. Inr [])\<rparr>"

theorem cancel_ends_indexing_witness:
  "\<exists>r. parse_tar_into_index cancelling_env
     \<lparr>to_ignore_zeros = False, to_encoding = ''utf-8'', to_gnu_incremental = None, to_recursive = False, to_recursion_depth = None\<rparr>
     (full_reader looping_header) (\<lambda>n. 3 \<le> n) (create_compact_only []) \<lparr>bp_entries = 0, bp_bytes_scanned = 0\<rparr> = Some r"
proof (rule cancel_ends_indexing)
  show "cancelled_from (te_cancelled cancelling_env) 1000" "cancelled_from (\<lambda>n. 3 \<le> n) 3"
    by (simp_all add: cancelled_from_def cancelling_env_def)
qed

end
