(* ===== verification/Tar_Roundtrip.thy ===== *)
theory Tar_Roundtrip
  imports Tar_Write Tar_Progress
begin

text \<open>
  Archives the writer produces, read by the indexer. \<open>index_members\<close> says what indexing the members without
  going through bytes would do; the header walk over the written bytes does exactly that, and the payload of
  every file is where its row says.
\<close>

section \<open>What indexing the written members means\<close>

definition pad_len :: "nat \<Rightarrow> nat" where
  "pad_len n = (n + 511) div 512 * 512"

definition pax_len :: "ustar_member \<Rightarrow> nat" where
  "pax_len m = (case member_pax_body m (body_size m) of Inr b \<Rightarrow> length b | Inl _ \<Rightarrow> 0)"

definition pax_span :: "ustar_member \<Rightarrow> nat" where
  "pax_span m = (if need_pax m (body_size m) then 512 + pad_len (pax_len m) else 0)"

definition member_span :: "ustar_member \<Rightarrow> nat" where
  "member_span m = pax_span m + 512 + pad_len (unat (body_size m))"

definition payload :: "disk \<Rightarrow> ustar_member \<Rightarrow> bytes" where
  "payload disk m =
     (case um_payload m of
        UFile b \<Rightarrow> b
      | UFileOnDisk path sz _ \<Rightarrow> (case disk path of Inr content \<Rightarrow> take (unat sz) content | Inl _ \<Rightarrow> [])
      | _ \<Rightarrow> [])"

text \<open>The name a member has on the tape: a directory ends in a slash unless its name went to the PAX header.\<close>

definition written_name :: "ustar_member \<Rightarrow> string" where
  "written_name m = (if need_pax_path m then um_path m else ustar_name m)"

definition is_file :: "ustar_member \<Rightarrow> bool" where
  "is_file m = (member_flag m = CHR ''0'')"

definition holds_tar :: "disk \<Rightarrow> ustar_member \<Rightarrow> bool" where
  "holds_tar disk m =
     (is_file m \<and> 512 \<le> length (payload disk m)
      \<and> (name_looks_like_tar (um_path m) \<or> slice 257 262 (payload disk m) \<in> {''ustar'', ''GNU  ''}))"

definition written_member :: "nat \<Rightarrow> ustar_member \<Rightarrow> tar_member" where
  "written_member start m =
     \<lparr>tm_header_start = of_nat start, tm_name = written_name m,
      tm_linkname = (case link_target m of Some t \<Rightarrow> t | None \<Rightarrow> []), tm_typeflag = member_flag m,
      tm_mtime = u64_to_f64 (um_mtime m), tm_mode = um_mode m, tm_uid = ucast (um_uid m), tm_gid = ucast (um_gid m),
      tm_pax = [], tm_sparse_pairs = [], tm_xattrs = um_xattrs m, tm_issparse = False,
      tm_logical_size = body_size m, tm_data_off = of_nat (start + pax_span m + 512), tm_on_tape = body_size m\<rparr>"

text \<open>Flushing the batches that are full, and moving to the next header.\<close>

definition flush_full :: "'db tar_env \<Rightarrow> u64 \<Rightarrow> 'db tar_walk \<Rightarrow> tar_error + 'db tar_walk" where
  "flush_full env q st =
     and_then (if length (ta_batch (tw_acc st)) \<ge> BATCH_FLUSH then flush_rows env st else Inr st) (\<lambda>st2.
     and_then (if length (ta_xattrs (tw_acc st2)) \<ge> BATCH_FLUSH then flush_xattrs env st2 else Inr st2) (\<lambda>st3.
     Inr (st3\<lparr>tw_pos := q\<rparr>)))"

definition index_member ::
    "'db tar_env \<Rightarrow> disk \<Rightarrow> nat \<Rightarrow> ustar_member \<Rightarrow> 'db tar_walk \<Rightarrow> tar_error + 'db tar_walk" where
  "index_member env disk start m st =
     (let tm = written_member start m; istar = holds_tar disk m; acc = tw_acc st;
          acc1 = acc\<lparr>ta_nested := ta_nested acc @
            (if istar then [nested_entry (normalize_member_path (tm_name tm)) tm] else [])\<rparr>;
          st1 = st\<lparr>tw_acc := push_member env 0 (tm_name tm) tm istar [] acc1,
                   tw_ticks := tw_ticks st + (if need_pax m (body_size m) then 2 else 1)\<rparr>
      in flush_full env (of_nat (start + member_span m)) st1)"

fun index_members ::
    "'db tar_env \<Rightarrow> disk \<Rightarrow> nat \<Rightarrow> ustar_member list \<Rightarrow> 'db tar_walk \<Rightarrow> tar_error + 'db tar_walk" where
  "index_members env disk start [] st = Inr st"
| "index_members env disk start (m # ms) st =
     and_then (index_member env disk start m st) (index_members env disk (start + member_span m) ms)"

text \<open>Where the members and their payloads are.\<close>

fun payload_offsets :: "nat \<Rightarrow> ustar_member list \<Rightarrow> nat list" where
  "payload_offsets start [] = []"
| "payload_offsets start (m # ms) = (start + pax_span m + 512) # payload_offsets (start + member_span m) ms"

text \<open>
  The members the indexer can give back: relative paths without a trailing slash, owners that fit the header
  field, extended attributes with distinct names, a PAX header within the reader's cap, and no name the indexer
  takes for a placeholder.
\<close>

definition storable :: "ustar_member \<Rightarrow> bool" where
  "storable m \<longleftrightarrow>
     utf8_valid (um_path m) \<and> CHR 0x00 \<notin> set (um_path m)
     \<and> \<not> starts_with (um_path m) ''/'' \<and> \<not> ends_with (um_path m) ''/''
     \<and> \<not> is_pax_placeholder (written_name m)
     \<and> (case link_target m of Some t \<Rightarrow> utf8_valid t \<and> CHR 0x00 \<notin> set t | None \<Rightarrow> True)
     \<and> \<not> need_pax_uid m \<and> \<not> need_pax_gid m
     \<and> distinct (map fst (um_xattrs m)) \<and> list_all utf8_valid (map fst (um_xattrs m))
     \<and> pax_len m \<le> unat MAX_HEADER_PAYLOAD_BYTES"

section \<open>The PAX header of a member\<close>

definition pax_keys :: "ustar_member \<Rightarrow> (string \<times> bytes) list" where
  "pax_keys m = pax_fields m (body_size m) @ map (\<lambda>(n, v). (SCHILY_XATTR_PREFIX @ n, v)) (um_xattrs m)"

text \<open>What the pending PAX state says of a member.\<close>

definition pending_of :: "ustar_member \<Rightarrow> pax_parsed \<Rightarrow> bool" where
  "pending_of m p \<longleftrightarrow>
     map_of (pp_map p) ''path'' = (if need_pax_path m then Some (um_path m) else None)
     \<and> map_of (pp_map p) ''linkpath'' = (if need_pax_link m then link_target m else None)
     \<and> map_of (pp_map p) ''size'' = (if need_pax_size (body_size m) then Some (show_nat (unat (body_size m))) else None)
     \<and> map_of (pp_map p) ''mtime'' = (if need_pax_mtime m then Some (show_nat (unat (um_mtime m))) else None)
     \<and> (\<forall>k. starts_with k ''GNU.'' \<longrightarrow> map_of (pp_map p) k = None)
     \<and> distinct (map fst (pp_map p)) \<and> pp_sparse_pairs p = [] \<and> pp_fs_xattrs p = um_xattrs m"

lemma encode_fields_list:
  assumes "encode_fields kvs = Inr b"
  obtains rs where "list_all2 (\<lambda>(k, v) r. encode_pax_record k v = Inr r) kvs rs" "b = concat rs"
  using assms
proof (induction kvs arbitrary: b thesis)
  case (Cons kv kvs)
  obtain k v where kv: "kv = (k, v)" by force
  obtain r rs where r: "encode_pax_record k v = Inr r" "encode_fields kvs = Inr rs" "b = r @ rs"
    using Cons.prems(2) kv by (auto elim!: and_then_InrE)
  obtain rr where "list_all2 (\<lambda>(k, v) r. encode_pax_record k v = Inr r) kvs rr" "rs = concat rr"
    using r(2) Cons.IH by blast
  then show ?case using r Cons.prems(1) [of "r # rr"] kv by simp
qed simp

lemma encode_xattrs_fields:
  assumes "encode_xattrs kvs = Inr b"
  shows "encode_fields (map (\<lambda>(n, v). (SCHILY_XATTR_PREFIX @ n, v)) kvs) = Inr b
    \<and> (\<forall>n \<in> fst ` set kvs. CHR ''='' \<notin> set n)"
  using assms
proof (induction kvs arbitrary: b)
  case (Cons kv kvs)
  obtain n v where kv: "kv = (n, v)" by force
  obtain r rs where r: "encode_pax_record (SCHILY_XATTR_PREFIX @ n) v = Inr r" "encode_xattrs kvs = Inr rs" "b = r @ rs"
    "CHR ''='' \<notin> set n"
    using Cons.prems kv by (auto simp: SCHILY_XATTR_PREFIX_def elim!: and_then_InrE split: if_splits)
  then show ?case using Cons.IH [OF r(2)] kv by (simp add: and_then_def)
qed simp

lemma encode_fields_append:
  "encode_fields xs = Inr a \<Longrightarrow> encode_fields ys = Inr b \<Longrightarrow> encode_fields (xs @ ys) = Inr (a @ b)"
  by (induction xs arbitrary: a) (auto simp: and_then_def split: sum.splits)

lemma member_pax_bodyD:
  assumes "member_pax_body m (body_size m) = Inr b"
  shows "encode_fields (pax_keys m) = Inr b" "\<forall>n \<in> fst ` set (um_xattrs m). CHR ''='' \<notin> set n"
proof -
  obtain f x where f: "encode_fields (pax_fields m (body_size m)) = Inr f" "encode_xattrs (um_xattrs m) = Inr x" "b = f @ x"
    using assms by (auto simp: member_pax_body_def elim!: and_then_InrE)
  from encode_xattrs_fields [OF f(2)] f show "encode_fields (pax_keys m) = Inr b"
    and "\<forall>n \<in> fst ` set (um_xattrs m). CHR ''='' \<notin> set n"
    by (auto simp: pax_keys_def intro!: encode_fields_append)
qed

definition plain_key :: "string \<Rightarrow> bool" where
  "plain_key k \<longleftrightarrow> \<not> starts_with k ''GNU.'' \<and> \<not> starts_with k LIBARCHIVE_XATTR_PREFIX"

lemma pax_put_plain:
  assumes "plain_key k"
  shows "pw_map (pax_put w k v) = AList.update k (utf8_lossy v) (pw_map w)"
    "pw_sparse_pairs (pax_put w k v) = pw_sparse_pairs w" "pw_libarchive (pax_put w k v) = pw_libarchive w"
    "pw_schily (pax_put w k v) =
       (case strip_prefix k SCHILY_XATTR_PREFIX of Some n \<Rightarrow> AList.update n v (pw_schily w) | None \<Rightarrow> pw_schily w)"
proof -
  have "k \<noteq> ''GNU.sparse.offset''" "k \<noteq> ''GNU.sparse.numbytes''" "strip_prefix k LIBARCHIVE_XATTR_PREFIX = None"
    using assms by (auto simp: plain_key_def strip_prefix_def starts_with_def)
  then show "pw_map (pax_put w k v) = AList.update k (utf8_lossy v) (pw_map w)"
    "pw_sparse_pairs (pax_put w k v) = pw_sparse_pairs w" "pw_libarchive (pax_put w k v) = pw_libarchive w"
    "pw_schily (pax_put w k v) =
       (case strip_prefix k SCHILY_XATTR_PREFIX of Some n \<Rightarrow> AList.update n v (pw_schily w) | None \<Rightarrow> pw_schily w)"
    by (simp_all add: pax_put_def Let_def split: option.splits)
qed

abbreviation put_all :: "pax_work \<Rightarrow> (string \<times> bytes) list \<Rightarrow> pax_work" where
  "put_all w kvs \<equiv> foldl (\<lambda>w (k, v). pax_put w k v) w kvs"

lemma put_all_plain:
  assumes "list_all (\<lambda>(k, v). plain_key k) kvs"
  shows "map_of (pw_map (put_all w kvs)) = map_of (pw_map w) ++ map_of (rev (map (\<lambda>(k, v). (k, utf8_lossy v)) kvs))
    \<and> pw_sparse_pairs (put_all w kvs) = pw_sparse_pairs w \<and> pw_libarchive (put_all w kvs) = pw_libarchive w"
  using assms
proof (induction kvs arbitrary: w)
  case (Cons kv kvs)
  obtain k v where kv: "kv = (k, v)" by force
  then have "plain_key k" using Cons.prems by simp
  then show ?case
    using Cons.IH [of "pax_put w k v"] Cons.prems kv
    by (simp add: pax_put_plain update_conv') (simp add: map_add_def fun_eq_iff split: option.splits)
qed simp

lemma put_all_schily:
  assumes "list_all (\<lambda>(k, v). plain_key k) kvs" "list_all (\<lambda>(k, v). strip_prefix k SCHILY_XATTR_PREFIX = None) kvs"
  shows "pw_schily (put_all w kvs) = pw_schily w"
  using assms by (induction kvs arbitrary: w) (auto simp: pax_put_plain)

lemma update_fresh: "k \<notin> fst ` set xs \<Longrightarrow> AList.update k v xs = xs @ [(k, v)]"
  by (induction xs) auto

lemma map_extend_fresh:
  "distinct (map fst (xs @ kvs)) \<Longrightarrow> map_extend xs kvs = xs @ kvs"
proof (induction kvs arbitrary: xs)
  case (Cons kv kvs)
  obtain k v where "kv = (k, v)" by force
  then show ?case using Cons.IH [of "xs @ [kv]"] Cons.prems by (simp add: map_extend_def update_fresh)
qed (simp add: map_extend_def)

lemma plain_key_schily: "plain_key (SCHILY_XATTR_PREFIX @ n)"
  by (simp add: plain_key_def starts_with_def LIBARCHIVE_XATTR_PREFIX_def SCHILY_XATTR_PREFIX_def)

lemma put_all_xattrs:
  "pw_schily (put_all w (map (\<lambda>(n, v). (SCHILY_XATTR_PREFIX @ n, v)) kvs)) = map_extend (pw_schily w) kvs"
proof (induction kvs arbitrary: w)
  case (Cons kv kvs)
  obtain n v where "kv = (n, v)" by force
  moreover have "strip_prefix (SCHILY_XATTR_PREFIX @ n) SCHILY_XATTR_PREFIX = Some n"
    by (simp add: strip_prefix_Some)
  ultimately show ?case
    using Cons.IH [of "pax_put w (SCHILY_XATTR_PREFIX @ n) v"]
    by (simp add: pax_put_plain(4) [OF plain_key_schily] map_extend_def)
qed (simp add: map_extend_def)

lemma map_of_opt: "map_of (if c then [(k, v)] else []) x = (if c \<and> x = k then Some v else None)"
  by simp

lemma rev_opt: "rev (if c then [a] else []) = (if c then [a] else [])"
  by simp

lemma map_opt: "map f (if c then [a] else []) = (if c then [f a] else [])"
  by simp

lemma link_field_list:
  "(if need_pax_link m then (case link_target m of Some t \<Rightarrow> [(''linkpath'', t)] | None \<Rightarrow> []) else []) =
   (if need_pax_link m then [(''linkpath'', the (link_target m))] else [])"
  by (auto simp: need_pax_link_def split: option.splits)

lemmas pax_fields_lists = pax_fields_def [unfolded link_field_list]

lemma pax_field_keys:
  "fst ` set (pax_fields m bs) \<subseteq> {''path'', ''linkpath'', ''size'', ''uid'', ''gid'', ''mtime''}"
  by (auto simp: pax_fields_lists split: if_splits)

lemma pax_field_key_facts:
  assumes "k \<in> {''path'', ''linkpath'', ''size'', ''uid'', ''gid'', ''mtime''}"
  shows "plain_key k" "good_pax_key k" "strip_prefix k SCHILY_XATTR_PREFIX = None"
proof -
  have "list_all is_ascii k"
    using assms by (auto simp: is_ascii_def byte_val_def)
  then show "good_pax_key k"
    using assms by (auto simp: good_pax_key_def utf8_valid_ascii)
  show "plain_key k" "strip_prefix k SCHILY_XATTR_PREFIX = None"
    using assms by (auto simp: plain_key_def starts_with_def LIBARCHIVE_XATTR_PREFIX_def SCHILY_XATTR_PREFIX_def
        strip_prefix_def)
qed

lemma schily_keys_None:
  assumes "\<not> starts_with k SCHILY_XATTR_PREFIX"
  shows "map_of (rev (map (\<lambda>(k, v). (k, utf8_lossy v)) (map (\<lambda>(n, v). (SCHILY_XATTR_PREFIX @ n, v)) xs))) k = None"
  using assms by (auto simp: map_of_eq_None_iff starts_with_iff_prefix)

lemma pax_keys_lookup:
  assumes "\<not> starts_with k SCHILY_XATTR_PREFIX"
  shows "map_of (rev (map (\<lambda>(k, v). (k, utf8_lossy v)) (pax_keys m))) k =
    map_of (rev (map (\<lambda>(k, v). (k, utf8_lossy v)) (pax_fields m (body_size m)))) k"
  unfolding pax_keys_def map_append rev_append map_of_append map_add_def
  by (simp only: schily_keys_None [OF assms] option.case)

lemma utf8_lossy_show_nat [simp]: "utf8_lossy (show_nat n) = show_nat n"
  by (rule utf8_lossy_ascii [OF show_nat_ascii])

lemma pax_fields_lookup:
  assumes "utf8_valid (rel_path m)" "\<forall>t. link_target m = Some t \<longrightarrow> utf8_valid t"
  shows "map_of (rev (map (\<lambda>(k, v). (k, utf8_lossy v)) (pax_fields m bs))) ''path'' = (if need_pax_path m then Some (rel_path m) else None)"
    "map_of (rev (map (\<lambda>(k, v). (k, utf8_lossy v)) (pax_fields m bs))) ''linkpath'' = (if need_pax_link m then link_target m else None)"
    "map_of (rev (map (\<lambda>(k, v). (k, utf8_lossy v)) (pax_fields m bs))) ''size'' = (if need_pax_size bs then Some (show_nat (unat bs)) else None)"
    "map_of (rev (map (\<lambda>(k, v). (k, utf8_lossy v)) (pax_fields m bs))) ''mtime'' = (if need_pax_mtime m then Some (show_nat (unat (um_mtime m))) else None)"
proof -
  have l: "need_pax_link m \<Longrightarrow> Some (utf8_lossy (the (link_target m))) = link_target m"
    using assms(2) by (auto simp: need_pax_link_def utf8_lossy_valid split: option.splits)
  note defs = pax_fields_lists map_append rev_append map_of_append map_opt rev_opt map_of_opt prod.case map_add_def
  show "map_of (rev (map (\<lambda>(k, v). (k, utf8_lossy v)) (pax_fields m bs))) ''path'' = (if need_pax_path m then Some (rel_path m) else None)"
    "map_of (rev (map (\<lambda>(k, v). (k, utf8_lossy v)) (pax_fields m bs))) ''linkpath'' = (if need_pax_link m then link_target m else None)"
    "map_of (rev (map (\<lambda>(k, v). (k, utf8_lossy v)) (pax_fields m bs))) ''size'' = (if need_pax_size bs then Some (show_nat (unat bs)) else None)"
    "map_of (rev (map (\<lambda>(k, v). (k, utf8_lossy v)) (pax_fields m bs))) ''mtime'' = (if need_pax_mtime m then Some (show_nat (unat (um_mtime m))) else None)"
    unfolding defs by (simp_all add: l utf8_lossy_valid [OF assms(1)] split: option.splits)
qed

lemma rel_path_storable: "storable m \<Longrightarrow> rel_path m = um_path m"
  by (cases "um_path m") (auto simp: storable_def rel_path_def trim_start_matches_def starts_with_def)

lemma pax_fields_all:
  assumes "\<And>k. k \<in> {''path'', ''linkpath'', ''size'', ''uid'', ''gid'', ''mtime''} \<Longrightarrow> P k"
  shows "list_all (\<lambda>(k, v). P k) (pax_fields m bs)"
  unfolding list_all_iff
proof clarify
  fix k v assume "(k, v) \<in> set (pax_fields m bs)"
  then have "k \<in> fst ` set (pax_fields m bs)" by (rule image_eqI [rotated]) simp
  then show "P k" by (rule assms [OF subsetD [OF pax_field_keys]])
qed

lemma pax_keys_all:
  assumes "\<And>k. k \<in> {''path'', ''linkpath'', ''size'', ''uid'', ''gid'', ''mtime''} \<Longrightarrow> P k"
    and "\<And>n v. (n, v) \<in> set (um_xattrs m) \<Longrightarrow> P (SCHILY_XATTR_PREFIX @ n)"
  shows "list_all (\<lambda>(k, v). P k) (pax_keys m)"
  using pax_fields_all [of P m "body_size m", OF assms(1)] assms(2) by (auto simp: pax_keys_def list_all_iff)

lemma pax_keys_plain: "list_all (\<lambda>(k, v). plain_key k) (pax_keys m)"
  by (rule pax_keys_all) (rule pax_field_key_facts(1) plain_key_schily, assumption?)+

lemma put_all_distinct:
  "list_all (\<lambda>(k, v). plain_key k) kvs \<Longrightarrow> distinct (map fst (pw_map w)) \<Longrightarrow> distinct (map fst (pw_map (put_all w kvs)))"
proof (induction kvs arbitrary: w)
  case (Cons kv kvs)
  obtain k v where kv: "kv = (k, v)" by force
  then have "distinct (map fst (pw_map (pax_put w k v)))"
    using Cons.prems by (simp add: pax_put_plain distinct_update)
  then show ?case using Cons.IH [of "pax_put w k v"] Cons.prems kv by simp
qed simp

lemma gnu_keys_None:
  assumes "\<not> starts_with k SCHILY_XATTR_PREFIX \<Longrightarrow>
      map_of mp k = map_of (rev (map (\<lambda>(k, v). (k, utf8_lossy v)) (pax_fields m bs))) k"
    and k: "starts_with k ''GNU.''"
  shows "map_of mp k = None"
proof -
  have "\<not> starts_with k SCHILY_XATTR_PREFIX"
    using k by (cases k) (auto simp: starts_with_def SCHILY_XATTR_PREFIX_def)
  moreover have "list_all (\<lambda>(k, v). \<not> starts_with k ''GNU.'') (pax_fields m bs)"
    by (rule pax_fields_all) (auto simp: starts_with_def)
  with k have "map_of (rev (map (\<lambda>(k, v). (k, utf8_lossy v)) (pax_fields m bs))) k = None"
    by (auto simp: map_of_eq_None_iff list_all_iff)
  ultimately show ?thesis using assms(1) by simp
qed

lemma member_pax_pending:
  assumes st: "storable m" and b: "member_pax_body m (body_size m) = Inr b" and iter: "iter [] = []"
  obtains p where "parse_pax_records iter b = Some p" "pending_of m p"
proof
  obtain rs where rs: "list_all2 (\<lambda>(k, v) r. encode_pax_record k v = Inr r) (pax_keys m) rs" "b = concat rs"
    using member_pax_bodyD(1) [OF b] by (rule encode_fields_list)
  have good: "list_all (\<lambda>(k, v). good_pax_key k) (pax_keys m)"
  proof -
    have xk: "good_pax_key (SCHILY_XATTR_PREFIX @ n)" if "(n, v) \<in> set (um_xattrs m)" for n v
    proof -
      have "utf8_valid SCHILY_XATTR_PREFIX" by code_simp
      moreover have "utf8_valid n" "CHR ''='' \<notin> set n"
        using st member_pax_bodyD(2) [OF b] that by (force simp: storable_def list_all_iff)+
      ultimately show ?thesis
        by (simp add: good_pax_key_def utf8_valid_append) (simp add: SCHILY_XATTR_PREFIX_def)
    qed
    show ?thesis
      by (rule pax_keys_all [of good_pax_key m, OF pax_field_key_facts(2) xk])
  qed
  have "length b < 2 ^ 64"
    using st b by (auto simp: storable_def pax_len_def MAX_HEADER_PAYLOAD_BYTES_def)
  then show "parse_pax_records iter b = Some (pax_finish iter (put_all pax_work_init (pax_keys m)))"
    using pax_loop_records [OF good rs(1), of "[]" pax_work_init] rs(2) by (simp add: parse_pax_records_def)
  let ?w = "put_all pax_work_init (pax_keys m)"
  note w = put_all_plain [OF pax_keys_plain, of pax_work_init m]
  have sch: "list_all (\<lambda>(k, v). strip_prefix k SCHILY_XATTR_PREFIX = None) (pax_fields m (body_size m))"
    "list_all (\<lambda>(k, v). plain_key k) (pax_fields m (body_size m))"
    by (rule pax_fields_all [OF pax_field_key_facts(3)], assumption)
      (rule pax_fields_all [OF pax_field_key_facts(1)], assumption)
  have "pw_schily ?w = map_extend [] (um_xattrs m)"
    unfolding pax_keys_def foldl_append put_all_xattrs put_all_schily [OF sch(2,1)] by (simp add: pax_work_init_def)
  also have "\<dots> = um_xattrs m"
    using st by (intro map_extend_fresh [of "[]", simplified]) (simp add: storable_def)
  finally have x: "pp_fs_xattrs (pax_finish iter ?w) = um_xattrs m"
    using w by (simp add: pax_finish_def fs_xattrs_from_pax_entries_def iter pax_work_init_def)
  have mp: "map_of (pp_map (pax_finish iter ?w)) k =
      map_of (rev (map (\<lambda>(k, v). (k, utf8_lossy v)) (pax_fields m (body_size m)))) k"
    if "\<not> starts_with k SCHILY_XATTR_PREFIX" for k
    using w pax_keys_lookup [OF that, of m] by (simp add: pax_finish_def pax_work_init_def map_add_def)
  have "map_of (pp_map (pax_finish iter ?w)) k = None" if "starts_with k ''GNU.''" for k
    by (rule gnu_keys_None [OF mp that])
  moreover have "utf8_valid (rel_path m)" "\<forall>t. link_target m = Some t \<longrightarrow> utf8_valid t"
    using st by (simp_all add: rel_path_storable) (auto simp: storable_def)
  note pax_fields_lookup [OF this, of "body_size m"]
  moreover have "\<not> starts_with ''path'' SCHILY_XATTR_PREFIX" "\<not> starts_with ''linkpath'' SCHILY_XATTR_PREFIX"
    "\<not> starts_with ''size'' SCHILY_XATTR_PREFIX" "\<not> starts_with ''mtime'' SCHILY_XATTR_PREFIX"
    by (simp_all add: starts_with_def SCHILY_XATTR_PREFIX_def)
  moreover have "distinct (map fst (pp_map (pax_finish iter ?w)))"
    using put_all_distinct [OF pax_keys_plain, of pax_work_init m] by (simp add: pax_finish_def pax_work_init_def)
  moreover have "pp_sparse_pairs (pax_finish iter ?w) = []"
    using w by (simp add: pax_finish_def pax_work_init_def)
  ultimately show "pending_of m (pax_finish iter ?w)"
    using x by (simp add: pending_of_def mp rel_path_storable [OF st])
qed

section \<open>Reading at a position\<close>

lemma unat_mod_512: "n < 2 ^ 64 \<Longrightarrow> unat ((of_nat n :: u64) mod 512) = n mod 512"
  by (simp add: unat_mod unsigned_of_nat take_bit_nat_eq_self)

lemma unat_sub_512: "unat x \<le> 512 \<Longrightarrow> unat ((512 :: u64) - x) = 512 - unat x"
  by (subst unat_sub) (simp_all add: word_le_nat_alt)

lemma length_padding:
  assumes "n < 2 ^ 64"
  shows "n + length (write_padding (of_nat n)) = pad_len n"
proof -
  have "unat ((512 :: u64) - of_nat n mod 512) = 512 - n mod 512"
    using unat_sub_512 [of "of_nat n mod 512"] by (simp add: unat_mod_512 [OF assms] order_less_imp_le)
  then have "length (write_padding (of_nat n)) = (512 - n mod 512) mod 512"
    by (simp add: write_padding_def BLOCK_SIZE_def unat_mod)
  moreover have "n + (512 - n mod 512) mod 512 = (n + 511) div 512 * 512"
  proof -
    obtain q r where n: "n = q * 512 + r" "r < 512"
      using div_mult_mod_eq [of n 512] mod_less_divisor [of 512 n] by (metis zero_less_numeral)
    then have "(r + 511) div 512 = (if r = 0 then 0 else 1)"
      by (simp add: div_nat_eqI)
    then show ?thesis
      using n by (simp add: div_mult_self3 add.assoc)
  qed
  ultimately show ?thesis by (simp add: pad_len_def)
qed

lemma pad512_of_nat: "n < 2 ^ 64 \<Longrightarrow> pad512 (of_nat n) = of_nat (pad_len n)"
  by (simp add: pad512_def pad_len_def BLOCK_SIZE_def unsigned_of_nat take_bit_nat_eq_self)

lemma seek_guard_at: "n < 2 ^ 63 \<Longrightarrow> seek_guard 0 (of_nat n) = Inr ()"
  by (simp add: seek_guard_def sint_neg_u64 unsigned_of_nat take_bit_nat_eq_self)

lemma unat_of_nat_u64: "n < 2 ^ 63 \<Longrightarrow> unat (of_nat n :: u64) = n"
  by (simp add: unsigned_of_nat take_bit_nat_eq_self)

lemma seek_header_at:
  assumes "reads rd (pre @ h @ rest)" "length h = 512" "length (pre @ h @ rest) < 2 ^ 63"
  shows "seek_header rd 0 (of_nat (length pre)) = Inr (Some h)"
proof -
  have "h \<noteq> []" using assms(2) by auto
  then show ?thesis
    using assms by (simp add: seek_header_def seek_guard_at read_tar_header_def fill_buf_reads [OF assms(1)]
        unat_of_nat_u64 and_then_def map_err_def)
qed

lemma seek_exact_at:
  assumes "reads rd (pre @ b @ rest)" "length (pre @ b @ rest) < 2 ^ 63"
  shows "seek_exact rd 0 (of_nat (length pre)) (of_nat (length b)) = Inr b"
proof -
  have u: "unat (of_nat (length b) :: u64) = length b"
    using assms(2) by (intro unat_of_nat_u64) simp
  have z: "b = []" if "(of_nat (length b) :: u64) = 0"
    using u unfolding that by simp
  have "seek_guard 0 (of_nat (length pre)) = Inr ()" "unat (of_nat (length pre) :: u64) = length pre"
    using assms(2) by (simp_all add: seek_guard_at unat_of_nat_u64)
  then show ?thesis
    unfolding seek_exact_def u read_exact_reads [OF assms(1)]
    by (auto simp: and_then_def map_err_def slice_def dest: z)
qed

section \<open>The header of a member read back\<close>

lemma decode_utf8: "decode_bytes encs b ''utf-8'' = utf8_lossy b"
proof -
  have "trim ''utf-8'' = ''utf-8''" "to_ascii_lowercase ''utf-8'' = ''utf-8''" by code_simp+
  then show ?thesis by (simp add: decode_bytes_def)
qed

lemma parse_f64_show_nat: "parse_f64 (show_nat n) = Some (f64_of_ratio n 1)"
proof -
  have d: "list_all is_ascii_digit (show_nat n)"
    using show_nat_digits by (auto simp: list_all_iff)
  then have t: "take_digits (show_nat n) = show_nat n" "drop_digits (show_nat n) = []"
    by (simp_all add: take_digits_def drop_digits_def list_all_iff)
  have s: "\<not> starts_with (show_nat n) ''-''" "\<not> starts_with (show_nat n) ''+''"
    using d by (cases "show_nat n"; simp add: starts_with_def is_ascii_digit_def; auto)+
  have "digits_nat (show_nat n) = n"
    by (simp add: digits_nat_def digits_value_show_nat)
  then show ?thesis
    by (simp add: parse_f64_def Let_def s t parse_exponent_def f64_neg_def)
qed

lemma until_nul_field:
  assumes "CHR 0x00 \<notin> set b" "length b \<le> w"
  shows "until_nul (field w b) = b"
  using assms by (simp add: field_def)

lemma ustar_name_facts:
  assumes "storable m"
  shows "CHR 0x00 \<notin> set (ustar_name m)" "utf8_valid (ustar_name m)"
proof -
  have "utf8_valid ''/''" by code_simp
  then have "utf8_valid (um_path m @ ''/'')"
    using assms by (intro utf8_valid_append) (simp_all add: storable_def)
  then show "CHR 0x00 \<notin> set (ustar_name m)" "utf8_valid (ustar_name m)"
    using assms rel_path_storable [OF assms]
    by (auto simp: storable_def ustar_name_def member_kind_def dir_ustar_name_def split: ustar_payload.splits)
qed

lemma written_names:
  assumes st: "storable m" and h: "write_raw_ustar_header (ustar_fields m bs) = Inr h"
  shows "\<not> need_pax_path m \<Longrightarrow> parse_name encs h ''utf-8'' = ustar_name m"
    "\<not> need_pax_link m \<Longrightarrow> cstr_field_encoded encs (slice 157 257 h) ''utf-8'' =
       (case link_target m of Some t \<Rightarrow> t | None \<Rightarrow> [])"
proof -
  note f = raw_header_fields [OF h]
  have pre: "cstr_field_encoded encs (slice 345 500 h) ''utf-8'' = []"
    using until_nul_pad [of "[]" 155] by (simp add: cstr_field_encoded_def f decode_utf8)
  show "parse_name encs h ''utf-8'' = ustar_name m" if "\<not> need_pax_path m"
    using that ustar_name_facts [OF st]
    by (simp add: parse_name_def pre) (simp add: cstr_field_encoded_def f ustar_fields_def Let_def decode_utf8
        until_nul_field need_pax_path_def needs_pax_path_def USTAR_NAME_LEN_def utf8_lossy_valid)
  show "cstr_field_encoded encs (slice 157 257 h) ''utf-8'' = (case link_target m of Some t \<Rightarrow> t | None \<Rightarrow> [])"
    if "\<not> need_pax_link m"
    using that st
    by (auto simp: cstr_field_encoded_def f ustar_fields_def Let_def decode_utf8 until_nul_field need_pax_link_def
        USTAR_LINK_LEN_def utf8_lossy_valid storable_def split: option.splits)
qed

text \<open>The fields of a member as the walk sees them before the PAX size is applied.\<close>

definition merged_member :: "nat \<Rightarrow> (string \<times> string) list \<Rightarrow> ustar_member \<Rightarrow> tar_member" where
  "merged_member start pm m =
     (let sz = (if need_pax_size (body_size m) then 0 else body_size m)
      in (written_member start m)\<lparr>tm_pax := pm, tm_logical_size := sz, tm_on_tape := sz\<rparr>)"

lemma merge_written:
  assumes st: "storable m" and h: "write_raw_ustar_header (ustar_fields m (body_size m)) = Inr h"
    and px: "tp_global px = []" "tp_global_xattrs px = []" "pending_of m (tp_pending px)"
    and start: "unwrap_or (tp_header_start px) pos = of_nat start" and pos: "pos = of_nat (start + pax_span m)"
  shows "merge_member env ''utf-8'' False h pos px = merged_member start (pp_map (tp_pending px)) m"
proof -
  let ?p = "tp_pending px"
  have mp: "map_extend [] (pp_map ?p) = pp_map ?p" "map_extend [] (um_xattrs m) = um_xattrs m"
    using px(3) st by (simp_all add: pending_of_def storable_def map_extend_fresh [of "[]", simplified])
  note f = raw_header_fields [OF h]
  note l = px(3) [unfolded pending_of_def]
  have g: "map_of (pp_map ?p) ''GNU.sparse.name'' = None"
    using l by (simp add: starts_with_def)
  have sz: "header_size h = (if need_pax_size (body_size m) then 0 else body_size m)"
    by (simp add: header_size_def f unwrap_or_def ustar_fields_def Let_def)
  have ids: "\<not> need_pax_uid m" "\<not> need_pax_gid m"
    using st by (simp_all add: storable_def)
  have name: "(case map_of (pp_map ?p) ''path'' of Some p \<Rightarrow> p | None \<Rightarrow> parse_name (te_encodings env) h ''utf-8'') = written_name m"
    using l written_names(1) [OF st h] by (simp add: written_name_def)
  have link: "unwrap_or (map_of (pp_map ?p) ''linkpath'') (cstr_field_encoded (te_encodings env) (slice 157 257 h) ''utf-8'')
      = (case link_target m of Some t \<Rightarrow> t | None \<Rightarrow> [])"
    using l written_names(2) [OF st h] by (auto simp: unwrap_or_def need_pax_link_def split: option.splits)
  have mt: "unwrap_or (Option.bind (map_of (pp_map ?p) ''mtime'') parse_f64) (u64_to_f64 (unwrap_or (parse_octal (slice 136 148 h)) 0))
      = u64_to_f64 (um_mtime m)"
    using l by (simp add: f unwrap_or_def ustar_fields_def Let_def parse_f64_show_nat u64_to_f64_def)
  have flag: "typeflag_of h = member_flag m"
    by (simp add: typeflag_of_def f ustar_fields_def Let_def)
  show ?thesis
    unfolding merge_member_def Let_def px mp(1) link mt flag sz g option.case name start
    using l ids by (simp add: merged_member_def written_member_def Let_def start pos mp f ustar_fields_def unwrap_or_def
        BLOCK_SIZE_def ac_simps)
qed

lemma member_flags: "member_flag m \<in> {CHR ''0'', CHR ''5'', CHR ''2''}"
  by (simp add: member_flag_def member_kind_def split: ustar_payload.splits)

lemma file_facts:
  assumes "storable m" "is_file m"
  shows "written_name m = um_path m" "is_regular_tar_member (member_flag m) (um_path m)"
proof -
  show "written_name m = um_path m"
    using assms rel_path_storable [OF assms(1)]
    by (auto simp: is_file_def member_flag_def member_kind_def written_name_def ustar_name_def split: ustar_payload.splits)
  show "is_regular_tar_member (member_flag m) (um_path m)"
    using assms by (simp add: storable_def is_file_def is_regular_tar_member_def)
qed

lemma not_file_size: "\<not> is_file m \<Longrightarrow> body_size m = 0"
  by (simp add: is_file_def member_flag_def member_kind_def body_size_def split: ustar_payload.splits)

lemma written_member_layout:
  assumes st: "storable m" and p: "pending_of m p"
  shows "member_layout rd 0 None h (merged_member start (pp_map p) m) = Inr ((written_member start m)\<lparr>tm_pax := pp_map p\<rparr>)"
proof -
  let ?m = "merged_member start (pp_map p) m"
  have gnu: "map_of (pp_map p) (''GNU.'' @ k) = None" for k
    using p by (simp add: pending_of_def starts_with_def)
  have pax: "tm_pax ?m = pp_map p" "tm_sparse_pairs ?m = []" "tm_typeflag ?m = member_flag m" "tm_issparse ?m = False"
    "tm_name ?m = written_name m"
    by (simp_all add: merged_member_def written_member_def Let_def)
  have "\<not> is_pax_sparse ?m"
    unfolding is_pax_sparse_def pax using gnu [of "''sparse.size''"] gnu [of "''sparse.realsize''"]
      gnu [of "''sparse.map''"] gnu [of "''sparse.major''"] by simp
  moreover have "member_flag m \<noteq> CHR ''S''" using member_flags [of m] by auto
  moreover have "pax_size_layout ?m = (written_member start m)\<lparr>tm_pax := pp_map p\<rparr>"
  proof (cases "need_pax_size (body_size m)")
    case True
    then have "body_size m \<noteq> 0" by (auto simp: need_pax_size_def)
    then have "is_file m" using not_file_size by blast
    moreover have "map_of (pp_map p) ''size'' = Some (show_nat (unat (body_size m)))"
      using p True by (simp add: pending_of_def)
    ultimately show ?thesis
      unfolding pax_size_layout_def pax using file_facts [OF st]
      by (simp add: parse_u64_show) (simp add: merged_member_def written_member_def Let_def)
  next
    case False
    moreover from this have "map_of (pp_map p) ''size'' = None"
      using p by (simp add: pending_of_def)
    ultimately show ?thesis
      unfolding pax_size_layout_def pax by (simp add: merged_member_def written_member_def Let_def)
  qed
  ultimately show ?thesis
    by (simp add: member_layout_def old_sparse_layout_def pax_sparse_layout_def and_then_def pax)
qed

lemma peek_at:
  assumes rd: "reads rd (pre @ b @ rest)" and len: "length (pre @ b @ rest) < 2 ^ 63" and b: "512 \<le> length b"
  shows "peek_tar_magic_at rd 0 (of_nat (length pre)) \<longleftrightarrow> slice 257 262 b \<in> {''ustar'', ''GNU  ''}"
proof -
  have l: "length pre + 257 < 2 ^ 63" using len b by simp
  have s: "saturating_add (of_nat (length pre)) 257 = (of_nat (length pre + 257) :: u64)"
    using l by (simp add: saturating_add_def unat_of_nat_u64)
  have "read_exact rd (length pre + 257) 5 = Inr (slice 257 262 b)"
    using b by (simp add: read_exact_reads [OF rd] slice_def)
  then show ?thesis
    unfolding peek_tar_magic_at_def Let_def s seek_guard_at [OF l] unat_of_nat_u64 [OF l] by simp
qed

lemma nested_candidate_written:
  assumes st: "storable m" and rd: "reads rd (pre @ payload disk m @ rest)"
    and len: "length (pre @ payload disk m @ rest) < 2 ^ 63"
    and off: "length pre = start + pax_span m + 512" and sz: "unat (body_size m) = length (payload disk m)"
  shows "is_nested_candidate rd 0 None ((written_member start m)\<lparr>tm_pax := pm\<rparr>) = holds_tar disk m"
proof (cases "is_file m")
  case True
  have "body_size m \<ge> BLOCK_SIZE \<longleftrightarrow> 512 \<le> length (payload disk m)"
    by (simp add: word_le_nat_alt BLOCK_SIZE_def sz)
  moreover have "512 \<le> length (payload disk m) \<Longrightarrow>
      peek_tar_magic_at rd 0 (of_nat (start + pax_span m + 512)) \<longleftrightarrow> slice 257 262 (payload disk m) \<in> {''ustar'', ''GNU  ''}"
    using peek_at [OF rd len] off by simp
  ultimately show ?thesis
    using True file_facts [OF st True]
    by (auto simp: is_nested_candidate_def holds_tar_def written_member_def past_limit_def)
next
  case False
  then have "\<not> is_regular_tar_member (member_flag m) (written_name m)"
    using member_flags [of m] by (auto simp: is_file_def is_regular_tar_member_def)
  with False show ?thesis by (simp add: is_nested_candidate_def holds_tar_def written_member_def)
qed

section \<open>The walk over one written member\<close>

text \<open>What the theorems assume of the environment: no cancellation, the default encoding, zero blocks end the
  archive, and hash maps iterate over their entries.\<close>

definition walk_env :: "'db tar_env \<Rightarrow> tar_options \<Rightarrow> bool" where
  "walk_env env opts \<longleftrightarrow>
     (\<forall>n. \<not> te_cancelled env n) \<and> to_encoding opts = ''utf-8'' \<and> \<not> to_ignore_zeros opts
     \<and> (\<forall>m. mset (te_xattr_order env m) = mset m)"

text \<open>The states between two members.\<close>

definition between :: "nat \<Rightarrow> 'db tar_walk \<Rightarrow> bool" where
  "between start st \<longleftrightarrow> tw_pos st = of_nat start \<and> tw_px st = tar_pax_init \<and> \<not> ta_gnu (tw_acc st)"

lemma flush_rows_keeps:
  "flush_rows env st = Inr st' \<Longrightarrow> tw_px st' = tw_px st \<and> ta_gnu (tw_acc st') = ta_gnu (tw_acc st)"
  by (auto simp: flush_rows_def split: if_splits prod.splits sum.splits)

lemma flush_xattrs_keeps:
  "flush_xattrs env st = Inr st' \<Longrightarrow> tw_px st' = tw_px st \<and> ta_gnu (tw_acc st') = ta_gnu (tw_acc st)"
  by (auto simp: flush_xattrs_def split: if_splits prod.splits sum.splits)

lemma push_member_gnu [simp]: "ta_gnu (push_member env d n m istar before acc) = ta_gnu acc"
  by (simp add: push_member_def Let_def split: prod.splits)

lemma flush_full_keeps:
  assumes "flush_full env q st = Inr st'"
  shows "tw_px st' = tw_px st" "ta_gnu (tw_acc st') = ta_gnu (tw_acc st)" "tw_pos st' = q"
  using assms unfolding flush_full_def
  by (auto elim!: and_then_InrE dest!: flush_rows_keeps flush_xattrs_keeps split: if_splits)

lemma index_member_between:
  assumes "index_member env disk start m st = Inr st'" "between start st"
  shows "between (start + member_span m) st'"
  using assms flush_full_keeps [of env "of_nat (start + member_span m)" _ st']
  by (simp add: index_member_def Let_def between_def)

lemma push_member_pax [simp]:
  "push_member env d n (m\<lparr>tm_pax := pm\<rparr>) istar before acc = push_member env d n m istar before acc"
  by (simp add: push_member_def)

lemma nested_entry_pax [simp]: "nested_entry path (m\<lparr>tm_pax := pm\<rparr>) = nested_entry path m"
  by (simp add: nested_entry_def)

lemma unat_u64_bound: "unat (v :: u64) < 2 ^ 64"
  by (rule order_less_le_trans [OF unsigned_less]) simp

lemma next_header_written:
  "next_header (of_nat (start + pax_span m)) ((written_member start m)\<lparr>tm_pax := pm\<rparr>) = of_nat (start + member_span m)"
proof -
  have "pad512 (body_size m) = of_nat (pad_len (unat (body_size m)))"
    using pad512_of_nat [OF unat_u64_bound, of "body_size m"] by simp
  then show ?thesis
    by (auto simp: next_header_def written_member_def member_span_def BLOCK_SIZE_def pad_len_def)
qed

lemma flush_rows_pos: "flush_rows env (st\<lparr>tw_pos := p\<rparr>) = map_sum (\<lambda>e. e) (\<lambda>st. st\<lparr>tw_pos := p\<rparr>) (flush_rows env st)"
  by (simp add: flush_rows_def split: prod.splits sum.splits)

lemma flush_xattrs_pos: "flush_xattrs env (st\<lparr>tw_pos := p\<rparr>) = map_sum (\<lambda>e. e) (\<lambda>st. st\<lparr>tw_pos := p\<rparr>) (flush_xattrs env st)"
  by (simp add: flush_xattrs_def split: prod.splits sum.splits)

lemma flush_full_pos: "flush_full env q (st\<lparr>tw_pos := p\<rparr>) = flush_full env q st"
  by (simp add: flush_full_def flush_rows_pos flush_xattrs_pos and_then_def split: sum.splits)

lemma member_step_plain:
  assumes "member_layout rd min_abs None h (merge_member env enc False h (tw_pos st) (tw_px st)) = Inr m"
    and "\<not> ta_gnu (tw_acc st)" "typeflag_of h \<noteq> CHR ''D''" "tm_typeflag m \<noteq> CHR ''D''" "\<not> is_pax_placeholder (tm_name m)"
  shows "member_step env enc rd min_abs h st =
    (let istar = is_nested_candidate rd min_abs None m;
         acc1 = (tw_acc st)\<lparr>ta_gnu := False, ta_nested := ta_nested (tw_acc st) @
           (if istar then [nested_entry (normalize_member_path (tm_name m)) m] else [])\<rparr>
     in flush_full env (next_header (tw_pos st) m)
          (st\<lparr>tw_px := take_pending (tw_px st), tw_acc := push_member env 0 (tm_name m) m istar [] acc1,
              tw_dumpdir := tw_dumpdir st\<rparr>))"
  unfolding member_step_def Let_def using assms by (simp add: and_then_def flush_full_def)

lemma written_header_step:
  assumes env: "walk_env env opts" and st: "storable m"
    and h: "write_raw_ustar_header (ustar_fields m (body_size m)) = Inr h"
    and rd: "reads rd (pre @ h @ payload disk m @ rest)" and len: "length (pre @ h @ payload disk m @ rest) < 2 ^ 63"
    and off: "length pre = start + pax_span m" and sz: "unat (body_size m) = length (payload disk m)"
    and s: "between start s" and p: "pending_of m p" and hs: "unwrap_or hs pos = of_nat start"
    and pos: "pos = of_nat (start + pax_span m)"
    and ticks: "tw_ticks s + (if need_pax m (body_size m) then 2 else 1) = Suc k"
  shows "tar_step env opts rd 0 (s\<lparr>tw_pos := pos, tw_ticks := k,
      tw_px := tar_pax_init\<lparr>tp_pending := p, tp_header_start := hs\<rparr>\<rparr>) =
    and_then (index_member env disk start m s) (\<lambda>s'. Inr (Some s'))"
proof -
  let ?px = "tar_pax_init\<lparr>tp_pending := p, tp_header_start := hs\<rparr>"
  let ?s = "s\<lparr>tw_pos := pos, tw_ticks := k, tw_px := ?px\<rparr>"
  let ?s1 = "?s\<lparr>tw_ticks := k + 1\<rparr>"
  let ?m = "(written_member start m)\<lparr>tm_pax := pp_map p\<rparr>"
  have "length h = 512" by (rule raw_header_fields(1) [OF h])
  then have sh: "seek_header rd 0 pos = Inr (Some h)"
    using seek_header_at [OF rd _ len] off by (simp add: pos)
  have flag: "typeflag_of h = member_flag m" "\<not> all_zero h"
    using raw_header_fields(8,13) [OF h] by (simp_all add: typeflag_of_def ustar_fields_def Let_def)
  have fl: "member_flag m \<notin> {CHR ''D'', CHR ''x'', CHR ''g'', CHR ''L'', CHR ''K''}"
    using member_flags [of m] by auto
  have "merge_member env ''utf-8'' False h pos ?px = merged_member start (pp_map p) m"
    using merge_written [OF st h, of ?px pos start env] p hs pos by (simp add: tar_pax_init_def)
  then have lay: "member_layout rd 0 None h (merge_member env ''utf-8'' False h pos ?px) = Inr ?m"
    by (simp add: written_member_layout [OF st p])
  have cand: "is_nested_candidate rd 0 None ?m = holds_tar disk m"
    using nested_candidate_written [OF st, of rd "pre @ h"] rd len off sz \<open>length h = 512\<close> by simp
  have tm: "tm_name ?m = written_name m" "tm_typeflag ?m = member_flag m" "\<not> is_pax_placeholder (written_name m)"
    using st by (simp_all add: written_member_def storable_def)
  have step: "tar_step env opts rd 0 ?s = and_then (member_step env ''utf-8'' rd 0 h ?s1) (\<lambda>s'. Inr (Some s'))"
    using env fl by (simp add: tar_step_def Let_def walk_env_def sh flag and_then_def)
  have gnu: "\<not> ta_gnu (tw_acc s)" and px: "tw_px s = tar_pax_init"
    using s by (simp_all add: between_def)
  have tp: "take_pending ?px = tw_px s" by (simp add: take_pending_def px tar_pax_init_def)
  have acc: "(tw_acc s)\<lparr>ta_gnu := False, ta_nested := x\<rparr> = (tw_acc s)\<lparr>ta_nested := x\<rparr>" for x
    using gnu by (cases "tw_acc s") simp
  have up: "?s1\<lparr>tw_px := tw_px s, tw_acc := a, tw_dumpdir := tw_dumpdir s\<rparr> =
      (s\<lparr>tw_acc := a, tw_ticks := Suc k\<rparr>)\<lparr>tw_pos := pos\<rparr>" for a
    by (cases s) simp
  have nx: "next_header pos ?m = of_nat (start + member_span m)"
    unfolding pos by (rule next_header_written)
  have sel: "tw_pos ?s1 = pos" "tw_px ?s1 = ?px" "tw_acc ?s1 = tw_acc s" "tw_dumpdir ?s1 = tw_dumpdir s" by simp_all
  have "member_step env ''utf-8'' rd 0 h ?s1 = index_member env disk start m s"
    using member_step_plain [of rd 0 h env "''utf-8''" ?s1 ?m] lay gnu fl flag tm
    unfolding sel cand tp acc up nx Let_def flush_full_pos push_member_pax nested_entry_pax
    by (simp add: index_member_def Let_def ticks written_member_def)
  then show ?thesis by (simp only: step)
qed

lemma pax_step:
  assumes env: "walk_env env opts" and h: "write_raw_ustar_header f = Inr h" and x: "uf_typeflag f = CHR ''x''"
    and sz: "uf_size f = of_nat (length b)" and cap: "length b \<le> unat MAX_HEADER_PAYLOAD_BYTES"
    and p: "parse_pax_records (te_xattr_order env) b = Some p"
    and rd: "reads rd (pre @ h @ b @ rest)" and len: "length (pre @ h @ b @ rest) < 2 ^ 63"
    and s: "between (length pre) s"
  shows "tar_step env opts rd 0 s = Inr (Some (s\<lparr>tw_pos := of_nat (length pre + (512 + pad_len (length b))),
    tw_ticks := tw_ticks s + 1,
    tw_px := tar_pax_init\<lparr>tp_pending := p, tp_header_start := Some (of_nat (length pre))\<rparr>\<rparr>))"
proof -
  let ?pos = "of_nat (length pre) :: u64"
  note fields = raw_header_fields [OF h]
  have sh: "seek_header rd 0 ?pos = Inr (Some h)"
    using seek_header_at [OF rd fields(1) len] .
  have hs: "header_size h = of_nat (length b)" and flag: "typeflag_of h = CHR ''x''" and nz: "\<not> all_zero h"
    by (simp_all add: header_size_def unwrap_or_def fields sz typeflag_of_def x)
  have lb: "length b < 2 ^ 64" using len by simp
  have "seek_exact rd 0 (?pos + BLOCK_SIZE) (of_nat (length b)) = Inr b"
    using seek_exact_at [of rd "pre @ h" b rest] rd len by (simp add: fields BLOCK_SIZE_def add.commute)
  moreover have "check_header_payload_size (of_nat (length b)) ''PAX'' = Inr ()"
    using cap len by (simp add: check_header_payload_size_def word_less_nat_alt unat_of_nat_u64)
  ultimately have "pax_header env rd 0 None h ?pos tar_pax_init =
      Inr (Some (tar_pax_init\<lparr>tp_pending := p, tp_header_start := Some ?pos\<rparr>, ?pos + BLOCK_SIZE + pad512 (of_nat (length b))))"
    by (simp add: pax_header_def Let_def hs flag past_limit_def p and_then_def)
  moreover have "?pos + BLOCK_SIZE + pad512 (of_nat (length b)) = of_nat (length pre + (512 + pad_len (length b)))"
    by (simp add: pad512_of_nat [OF lb] BLOCK_SIZE_def)
  moreover have "tw_pos s = ?pos" "tw_px s = tar_pax_init" using s by (simp_all add: between_def)
  moreover have "\<not> te_cancelled env (tw_ticks s)" using env by (simp add: walk_env_def)
  ultimately show ?thesis
    by (simp add: tar_step_def Let_def sh and_then_def nz flag)
qed

lemma written_pax_step:
  assumes env: "walk_env env opts" and st: "storable m" and need: "need_pax m (body_size m)"
    and w: "write_pax_header m (body_size m) = Inr P"
    and rd: "reads rd (pre @ P @ rest)" and len: "length (pre @ P @ rest) < 2 ^ 63" and s: "between (length pre) s"
  obtains p where "length P = pax_span m" "pending_of m p"
    "tar_step env opts rd 0 s = Inr (Some (s\<lparr>tw_pos := of_nat (length pre + pax_span m), tw_ticks := tw_ticks s + 1,
      tw_px := tar_pax_init\<lparr>tp_pending := p, tp_header_start := Some (of_nat (length pre))\<rparr>\<rparr>))"
proof -
  obtain b h where b: "member_pax_body m (body_size m) = Inr b"
    and h: "write_raw_ustar_header \<lparr>uf_name = pax_header_name (rel_path m), uf_size = of_nat (length b), uf_typeflag = CHR ''x'',
             uf_linkname = [], uf_mode = 0x1A4, uf_uid = 0, uf_gid = 0, uf_mtime = 0\<rparr> = Inr h"
    and P: "P = h @ b @ write_padding (of_nat (length b))"
    using w need by (auto simp: write_pax_header_def elim!: and_then_InrE)
  have lh: "length h = 512" by (rule raw_header_fields(1) [OF h])
  have pl: "pax_len m = length b" by (simp add: pax_len_def b)
  have "length b + length (write_padding (of_nat (length b))) = pad_len (length b)"
    using len P by (intro length_padding) simp
  then have lP: "length P = pax_span m"
    by (simp add: P lh pax_span_def need pl)
  have "te_xattr_order env [] = []" using env by (simp add: walk_env_def) (metis mset_zero_iff)
  then obtain p where p: "parse_pax_records (te_xattr_order env) b = Some p" "pending_of m p"
    using member_pax_pending [OF st b] by metis
  have "length b \<le> unat MAX_HEADER_PAYLOAD_BYTES" using st by (simp add: storable_def pl)
  then have "tar_step env opts rd 0 s = Inr (Some (s\<lparr>tw_pos := of_nat (length pre + (512 + pad_len (length b))),
      tw_ticks := tw_ticks s + 1,
      tw_px := tar_pax_init\<lparr>tp_pending := p, tp_header_start := Some (of_nat (length pre))\<rparr>\<rparr>))"
    using rd len s p(1) P by (intro pax_step [OF env h, where rest = "write_padding (of_nat (length b)) @ rest"]) simp_all
  then show thesis
    using that [OF lP p(2)] by (simp add: pax_span_def need pl)
qed

lemma no_pax:
  assumes "storable m" "\<not> need_pax m (body_size m)"
  shows "pending_of m pax_empty" "pax_span m = 0" "write_pax_header m (body_size m) = Inr []"
  using assms by (simp_all add: need_pax_def pending_of_def pax_empty_def pax_span_def write_pax_header_def)

lemma body_facts:
  assumes "write_member_body disk sha m = Inr (B, d)" "length B < 2 ^ 63"
  shows "unat (body_size m) = length (payload disk m)" "B = payload disk m @ write_padding (body_size m)"
    "length B = pad_len (unat (body_size m))"
proof -
  show sz: "unat (body_size m) = length (payload disk m)" and B: "B = payload disk m @ write_padding (body_size m)"
    using assms
    by (auto simp: write_member_body_def write_file_on_disk_def body_size_def payload_def Let_def and_then_def unat_of_nat_u64
        write_padding_def split: ustar_payload.splits sum.splits if_splits)
  show "length B = pad_len (unat (body_size m))"
    using length_padding [OF unat_u64_bound, of "body_size m"] by (simp add: B sz [symmetric])
qed

lemma written_member_loop:
  assumes env: "walk_env env opts" and st: "storable m"
    and H: "write_member_headers m (body_size m) = Inr H" and B: "write_member_body disk sha m = Inr (B, d)"
    and rd: "reads rd (pre @ H @ B @ rest)" and len: "length (pre @ H @ B @ rest) < 2 ^ 63"
    and s: "between (length pre) s"
  shows "length (H @ B) = member_span m" "slice (pax_span m + 512) (pax_span m + 512 + length (payload disk m)) (H @ B) = payload disk m"
    "tar_loop env opts rd 0 s =
       (case index_member env disk (length pre) m s of Inl e \<Rightarrow> Some (Inl e) | Inr s' \<Rightarrow> tar_loop env opts rd 0 s')"
proof -
  obtain P h where P: "write_pax_header m (body_size m) = Inr P"
    and h: "write_raw_ustar_header (ustar_fields m (body_size m)) = Inr h" and HP: "H = P @ h"
    using H by (auto simp: write_member_headers_def elim!: and_then_InrE)
  have "length B < 2 ^ 63" using len by simp
  note body = body_facts [OF B this]
  have lh: "length h = 512" by (rule raw_header_fields(1) [OF h])
  have lP: "length P = pax_span m"
  proof (cases "need_pax m (body_size m)")
    case True
    then show ?thesis
      using written_pax_step [OF env st True P, of rd pre "h @ B @ rest" s] rd len s by (auto simp: HP)
  qed (use no_pax [OF st] P in simp)
  show "length (H @ B) = member_span m"
    by (simp add: HP lP lh body(3) member_span_def)
  show "slice (pax_span m + 512) (pax_span m + 512 + length (payload disk m)) (H @ B) = payload disk m"
    by (simp add: HP body(2) slice_def lP lh)
  have rd2: "reads rd ((pre @ P) @ h @ payload disk m @ (write_padding (body_size m) @ rest))"
    "length ((pre @ P) @ h @ payload disk m @ (write_padding (body_size m) @ rest)) < 2 ^ 63"
    "length (pre @ P) = length pre + pax_span m"
    using rd len by (simp_all add: HP body(2) lP)
  note step = written_header_step [OF env st h rd2 body(1) s _ _ refl]
  let ?r = "case index_member env disk (length pre) m s of Inl e \<Rightarrow> Some (Inl e) | Inr s' \<Rightarrow> tar_loop env opts rd 0 s'"
  have fin: "tar_loop env opts rd 0 s1 = ?r"
    if "tar_step env opts rd 0 s1 = and_then (index_member env disk (length pre) m s) (\<lambda>s'. Inr (Some s'))" for s1
    using that by (subst tar_loop.simps) (simp add: and_then_def split: sum.splits)
  show "tar_loop env opts rd 0 s = ?r"
  proof (cases "need_pax m (body_size m)")
    case True
    obtain p where p: "pending_of m p"
      and ps: "tar_step env opts rd 0 s = Inr (Some (s\<lparr>tw_pos := of_nat (length pre + pax_span m), tw_ticks := tw_ticks s + 1,
        tw_px := tar_pax_init\<lparr>tp_pending := p, tp_header_start := Some (of_nat (length pre))\<rparr>\<rparr>))"
      using written_pax_step [OF env st True P, of rd pre "h @ B @ rest" s] rd len s by (auto simp: HP)
    have "tar_loop env opts rd 0 s = tar_loop env opts rd 0 (s\<lparr>tw_pos := of_nat (length pre + pax_span m),
        tw_ticks := tw_ticks s + 1, tw_px := tar_pax_init\<lparr>tp_pending := p, tp_header_start := Some (of_nat (length pre))\<rparr>\<rparr>)"
      using ps by (subst tar_loop.simps) simp
    also have "\<dots> = ?r"
      using True by (intro fin step p) (simp_all add: unwrap_or_def)
    finally show ?thesis .
  next
    case False
    have "s = s\<lparr>tw_pos := of_nat (length pre + pax_span m), tw_ticks := tw_ticks s,
        tw_px := tar_pax_init\<lparr>tp_pending := pax_empty, tp_header_start := None\<rparr>\<rparr>"
      using s no_pax [OF st False] by (cases s) (simp add: between_def tar_pax_init_def)
    moreover have "tar_loop env opts rd 0 (s\<lparr>tw_pos := of_nat (length pre + pax_span m), tw_ticks := tw_ticks s,
        tw_px := tar_pax_init\<lparr>tp_pending := pax_empty, tp_header_start := None\<rparr>\<rparr>) = ?r"
      using False no_pax [OF st False] by (intro fin step) (simp_all add: unwrap_or_def)
    ultimately show ?thesis by simp
  qed
qed

lemma eof_step:
  assumes env: "walk_env env opts" and rd: "reads rd (pre @ write_tar_eof)" and len: "length (pre @ write_tar_eof) < 2 ^ 63"
    and s: "between (length pre) s"
  shows "tar_loop env opts rd 0 s = Some (Inr s)"
proof -
  let ?z = "replicate 512 CHR 0x00"
  have e: "write_tar_eof = ?z @ ?z" by (simp add: write_tar_eof_def flip: replicate_add)
  have "seek_header rd 0 (of_nat (length pre)) = Inr (Some ?z)"
    using seek_header_at [of rd pre ?z ?z] rd len by (simp add: e)
  moreover have "seek_header rd 0 (of_nat (length pre) + BLOCK_SIZE) = Inr (Some ?z)"
    using seek_header_at [of rd "pre @ ?z" ?z "[]"] rd len by (simp add: e BLOCK_SIZE_def add.commute)
  moreover have "all_zero ?z" by (simp add: all_zero_def list_all_iff)
  ultimately have "tar_step env opts rd 0 s = Inr None"
    using env s by (simp add: tar_step_def Let_def walk_env_def between_def and_then_def)
  then show ?thesis by (subst tar_loop.simps) simp
qed

lemma written_members_loop:
  assumes env: "walk_env env opts" and "list_all storable ms" "write_ustar_members disk sha ms = Inr (body, ds)"
    and "reads rd (pre @ body @ write_tar_eof)" "length (pre @ body @ write_tar_eof) < 2 ^ 63" "between (length pre) s"
  shows "tar_loop env opts rd 0 s = Some (index_members env disk (length pre) ms s)
    \<and> list_all2 (\<lambda>m off. slice off (off + length (payload disk m)) (pre @ body) = payload disk m)
        ms (payload_offsets (length pre) ms)"
  using assms(2-)
proof (induction ms arbitrary: pre body ds s)
  case Nil
  then show ?case using eof_step [OF env] by simp
next
  case (Cons m ms)
  obtain H B d rest ds' where H: "write_member_headers m (body_size m) = Inr H" and B: "write_member_body disk sha m = Inr (B, d)"
    and rest: "write_ustar_members disk sha ms = Inr (rest, ds')" and body: "body = H @ B @ rest"
    using Cons.prems(2) by (auto elim!: and_then_InrE)
  have st: "storable m" using Cons.prems(1) by simp
  note one = written_member_loop [OF env st H B, of rd pre "rest @ write_tar_eof" s]
  have l: "length (H @ B) = member_span m"
    and sl: "slice (pax_span m + 512) (pax_span m + 512 + length (payload disk m)) (H @ B) = payload disk m"
    and lp: "tar_loop env opts rd 0 s =
       (case index_member env disk (length pre) m s of Inl e \<Rightarrow> Some (Inl e) | Inr s' \<Rightarrow> tar_loop env opts rd 0 s')"
    using one Cons.prems(3-) by (simp_all add: body)
  let ?pre = "pre @ H @ B"
  have lpre: "length ?pre = length pre + member_span m" using l by simp
  have IH: "tar_loop env opts rd 0 s' = Some (index_members env disk (length ?pre) ms s')
    \<and> list_all2 (\<lambda>m off. slice off (off + length (payload disk m)) (?pre @ rest) = payload disk m)
        ms (payload_offsets (length ?pre) ms)" if "between (length ?pre) s'" for s'
    using Cons.prems that rest by (intro Cons.IH) (simp_all add: body)
  have "between (length ?pre) (s\<lparr>tw_pos := of_nat (length ?pre)\<rparr>)"
    using Cons.prems(5) by (simp add: between_def)
  from IH [OF this] have pl: "list_all2 (\<lambda>m off. slice off (off + length (payload disk m)) (pre @ body) = payload disk m)
        ms (payload_offsets (length pre + member_span m) ms)"
    by (simp add: body lpre [symmetric] del: length_append)
  have "length (payload disk m) + (pax_span m + 512) \<le> length (H @ B)"
    using arg_cong [OF sl, of length] l by (cases "payload disk m") (auto simp: member_span_def)
  then have "slice (length pre + pax_span m + 512) (length pre + pax_span m + 512 + length (payload disk m)) (pre @ body) = payload disk m"
    using sl slice_append_left [of "pax_span m + 512 + length (payload disk m)" "H @ B" "pax_span m + 512" rest]
    by (subst slice_append_right) (simp_all add: body add.assoc)
  moreover have "tar_loop env opts rd 0 s = Some (index_members env disk (length pre) (m # ms) s)"
  proof (cases "index_member env disk (length pre) m s")
    case (Inr s')
    then have "between (length ?pre) s'"
      using index_member_between Cons.prems(5) lpre by metis
    then show ?thesis using IH [of s'] lp Inr by (simp add: and_then_def lpre del: length_append)
  qed (simp add: lp and_then_def)
  ultimately show ?case using pl by simp
qed

section \<open>Properties\<close>


lemma raw_header_ok:
  assumes "unat (uf_mode f) < 8 ^ 7" "unat (uf_uid f) < 8 ^ 7" "unat (uf_gid f) < 8 ^ 7"
    and "unat (uf_size f) < 8 ^ 11" "unat (uf_mtime f) < 8 ^ 11"
  obtains h where "write_raw_ustar_header f = Inr h"
proof -
  have u: "unat (ucast w :: u64) = unat w" for w :: u32
  proof -
    have "unat w < 2 ^ 64" by (rule order_less_le_trans [OF unsigned_less]) simp
    then show ?thesis by (simp add: unsigned_ucast_eq take_bit_nat_eq_self)
  qed
  have "write_octal 8 (ucast w) = Inr (pad_octal 7 (unat w) @ [CHR 0x00])" if "unat w < 8 ^ 7" for w :: u32
    using write_octal_ok [of "ucast w" 7] that by (simp add: u)
  moreover have "write_octal 12 v = Inr (pad_octal 11 (unat v) @ [CHR 0x00])" if "unat v < 8 ^ 11" for v
    using write_octal_ok [of v 11] that by simp
  ultimately show thesis
    using that assms by (simp add: write_raw_ustar_header_def header_head_def Let_def)
qed

definition sample_env :: "sql_row list tar_env" where
  "sample_env =
     \<lparr>te_encodings = (\<lambda>_. None), te_xattr_order = (\<lambda>m. m), te_name_order = (\<lambda>m. m), te_cancelled = (\<lambda>_. False),
      te_sql = list_engine,
      te_insert_xattr = (\<lambda>db _ _ _. (db, Inr ())), te_put_metadata = (\<lambda>db _ _. (db, Inr ())),
      te_metadata_rows = (\<lambda>_. Inr [])\<rparr>"

definition sample_options :: tar_options where
  "sample_options = \<lparr>to_ignore_zeros = False, to_encoding = ''utf-8'', to_gnu_incremental = None,
     to_recursive = False, to_recursion_depth = None\<rparr>"

definition sample_member :: ustar_member where
  "sample_member = \<lparr>um_path = ''d/a'', um_payload = UFile ''hello'', um_mode = 0x1A4, um_uid = 1000, um_gid = 1000,
     um_mtime = 7, um_xattrs = []\<rparr>"

definition no_disk :: disk where "no_disk path = Inl (IoError NotFound path)"

lemma sample_kind:
  "rel_path sample_member = ''d/a''" "member_flag sample_member = CHR ''0''" "link_target sample_member = None"
  "ustar_name sample_member = ''d/a''" "body_size sample_member = 5"
  by (simp_all add: sample_member_def rel_path_def member_flag_def link_target_def ustar_name_def member_kind_def
      body_size_def trim_start_matches_def)

lemma sample_no_pax:
  "\<not> need_pax_path sample_member" "\<not> need_pax_link sample_member" "\<not> need_pax_size 5"
  "\<not> need_pax_uid sample_member" "\<not> need_pax_gid sample_member" "\<not> need_pax_mtime sample_member"
  by (simp_all add: need_pax_path_def needs_pax_path_def need_pax_link_def need_pax_size_def need_pax_uid_def
      need_pax_gid_def need_pax_mtime_def sample_kind USTAR_NAME_LEN_def USTAR_MAX_SIZE_def octal_digit_max_def)
    (simp_all add: sample_member_def)

lemma sample_fields:
  "\<not> need_pax sample_member 5" "ustar_fields sample_member 5 = \<lparr>uf_name = ''d/a'', uf_size = 5, uf_typeflag = CHR ''0'',
     uf_linkname = [], uf_mode = 0x1A4, uf_uid = 1000, uf_gid = 1000, uf_mtime = 7\<rparr>"
  by (simp_all add: need_pax_def ustar_fields_def sample_no_pax sample_kind) (simp_all add: sample_member_def)

lemma sample_walk_env: "walk_env sample_env sample_options"
  by (simp add: walk_env_def sample_env_def sample_options_def)

lemma sample_storable: "storable sample_member"
proof -
  have "utf8_valid ''d/a''" "\<not> starts_with ''d/a'' ''/''" "\<not> ends_with ''d/a'' ''/''" "\<not> is_pax_placeholder ''d/a''"
    by code_simp+
  moreover have "pax_len sample_member = 0"
    by (simp add: pax_len_def member_pax_body_def pax_fields_def sample_no_pax sample_kind and_then_def)
      (simp add: sample_member_def)
  ultimately show ?thesis
    by (simp add: storable_def written_name_def sample_no_pax sample_kind) (simp add: sample_member_def)
qed

lemma sample_rows:
  "map (\<lambda>r. (r_path r, r_name r, r_offset r, r_size r))
     (fst (push_entry ''d/a'' 0 512 5 t 0x1A4 CHR ''0'' [] 1000 1000 False False 0 [])) =
   [([], ''d'', 0, 0), (''/d'', ''a'', 512, 5)]"
  by code_simp

lemma sample_written:
  "written_member 0 sample_member =
     \<lparr>tm_header_start = 0, tm_name = ''d/a'', tm_linkname = [], tm_typeflag = CHR ''0'', tm_mtime = u64_to_f64 7, tm_mode = 0x1A4,
      tm_uid = 1000, tm_gid = 1000, tm_pax = [], tm_sparse_pairs = [], tm_xattrs = [], tm_issparse = False,
      tm_logical_size = 5, tm_data_off = 512, tm_on_tape = 5\<rparr>"
  "\<not> holds_tar no_disk sample_member" "\<not> ends_with ''d/a'' ''/''"
proof -
  show "\<not> ends_with ''d/a'' ''/''" by code_simp
  show "\<not> holds_tar no_disk sample_member"
    by (simp add: holds_tar_def payload_def) (simp add: sample_member_def)
  show "written_member 0 sample_member =
     \<lparr>tm_header_start = 0, tm_name = ''d/a'', tm_linkname = [], tm_typeflag = CHR ''0'', tm_mtime = u64_to_f64 7, tm_mode = 0x1A4,
      tm_uid = 1000, tm_gid = 1000, tm_pax = [], tm_sparse_pairs = [], tm_xattrs = [], tm_issparse = False,
      tm_logical_size = 5, tm_data_off = 512, tm_on_tape = 5\<rparr>"
    by (simp add: written_member_def written_name_def pax_span_def sample_fields sample_no_pax sample_kind)
      (simp add: sample_member_def)
qed

lemma sample_indexed:
  assumes "ta_batch (tw_acc st) = []" "ta_xattrs (tw_acc st) = []" "ta_generated (tw_acc st) = []"
  obtains st' where "index_members sample_env no_disk 0 [sample_member] st = Inr st'"
    "map (\<lambda>r. (r_path r, r_name r, r_offset r, r_size r)) (ta_batch (tw_acc st')) = [([], ''d'', 0, 0), (''/d'', ''a'', 512, 5)]"
proof -
  obtain rows gen where r: "push_entry ''d/a'' 0 512 5 (u64_to_f64 7) 0x1A4 CHR ''0'' [] 1000 1000 False False 0 [] = (rows, gen)"
    by force
  then have rows: "map (\<lambda>r. (r_path r, r_name r, r_offset r, r_size r)) rows = [([], ''d'', 0, 0), (''/d'', ''a'', 512, 5)]"
    using sample_rows [of "u64_to_f64 7"] by simp
  from arg_cong [OF this, of length] have "length rows = 2" by simp
  then show thesis
    using that rows assms r
    by (simp add: index_member_def Let_def sample_written push_member_def flush_full_def BATCH_FLUSH_def and_then_def)
qed


end
