(* ===== verification/Overlay_Policy.thy ===== *)
theory Overlay_Policy
  imports Rust_Std Core_Types Paths
begin

text \<open>
  The policies of the write overlay (\<open>ratarmount-compositing/src/overlay_policy.rs\<close>, with the policy
  interface of \<open>write_overlay.rs\<close>): usage scan, size arguments, read-only path rules and the quota with its
  copy-on-write reservations. The folder on the host is a tree for the scan and a name test for the checks; the
  calling thread is an argument; compiled patterns of the \<open>regex\<close> crate are the argument \<open>rx\<close>.
\<close>

section \<open>Usage and sizes\<close>

definition HIDDEN_DB :: string where "HIDDEN_DB = ''.ratarmount.overlay.sqlite''"
definition OVERLAY_MARKER :: string where "OVERLAY_MARKER = ''.ratarmount-overlay.used''"
definition SEAL_COMMIT_LOCK :: string where "SEAL_COMMIT_LOCK = ''.ratarmount.overlay.seal-commit.lock''"
definition COW_STAGING_PREFIX :: string where "COW_STAGING_PREFIX = ''.ratarmount.overlay.cow-''"

definition eq_ignore_ascii_case :: "string \<Rightarrow> string \<Rightarrow> bool" where
  "eq_ignore_ascii_case a b = (to_ascii_lowercase a = to_ascii_lowercase b)"

definition has_ascii_prefix :: "string \<Rightarrow> string \<Rightarrow> bool" where
  "has_ascii_prefix name p = (length name \<ge> length p \<and> eq_ignore_ascii_case (take (length p) name) p)"

definition is_overlay_internal_name :: "string \<Rightarrow> bool" where
  "is_overlay_internal_name name =
     (has_ascii_prefix name HIDDEN_DB \<or> has_ascii_prefix name COW_STAGING_PREFIX
      \<or> eq_ignore_ascii_case name ''.ratarmount-sealed'' \<or> eq_ignore_ascii_case name SEAL_COMMIT_LOCK
      \<or> eq_ignore_ascii_case name OVERLAY_MARKER)"

definition is_overlay_internal_path :: "string \<Rightarrow> bool" where
  "is_overlay_internal_path path = list_ex is_overlay_internal_name (split_on CHR ''/'' path)"

text \<open>What a directory read finds: other node types are neither counted nor entered. \<open>HostFails\<close> is an entry
  whose metadata, or a directory whose entries, cannot be read.\<close>

datatype host_node =
    HostDir "(string \<times> host_node) list" | HostFile u64 | HostSymlink u64 | HostOther | HostFails io_error

record overlay_usage =
  ou_bytes :: u64
  ou_files :: u64
  ou_directories :: u64
  ou_symlinks :: u64

definition count_file :: "u64 \<Rightarrow> bool \<Rightarrow> overlay_usage \<Rightarrow> io_error + overlay_usage" where
  "count_file len is_symlink u =
     (case checked_add (ou_bytes u) len of
        None \<Rightarrow> Inl (IoError InvalidData ''overlay size overflows u64'')
      | Some b \<Rightarrow> Inr (u\<lparr>ou_files := ou_files u + 1, ou_bytes := b, ou_symlinks := ou_symlinks u + (if is_symlink then 1 else 0)\<rparr>))"

fun usage_node :: "host_node \<Rightarrow> overlay_usage \<Rightarrow> io_error + overlay_usage"
  and usage_walk :: "(string \<times> host_node) list \<Rightarrow> overlay_usage \<Rightarrow> io_error + overlay_usage" where
  "usage_node (HostDir entries) u = usage_walk entries (u\<lparr>ou_directories := ou_directories u + 1\<rparr>)"
| "usage_node (HostFile len) u = count_file len False u"
| "usage_node (HostSymlink len) u = count_file len True u"
| "usage_node HostOther u = Inr u"
| "usage_node (HostFails e) u = Inl e"
| "usage_walk [] u = Inr u"
| "usage_walk ((name, node) # entries) u =
     (if is_overlay_internal_path name then usage_walk entries u
      else case usage_node node u of Inl e \<Rightarrow> Inl e | Inr u' \<Rightarrow> usage_walk entries u')"

definition usage_scan :: "(string \<times> host_node) list \<Rightarrow> io_error + overlay_usage" where
  "usage_scan root = usage_walk root \<lparr>ou_bytes = 0, ou_files = 0, ou_directories = 0, ou_symlinks = 0\<rparr>"

datatype size_error = InvalidSize string | SizeOverflow string

definition size_shift :: "string \<Rightarrow> nat" where
  "size_shift val =
     (if val = [] then 0
      else
        let c = last val in
        if c \<in> {CHR ''K'', CHR ''k''} then 10 else if c \<in> {CHR ''M'', CHR ''m''} then 20
        else if c \<in> {CHR ''G'', CHR ''g''} then 30 else if c \<in> {CHR ''T'', CHR ''t''} then 40 else 0)"

definition parse_overlay_size :: "string \<Rightarrow> size_error + u64" where
  "parse_overlay_size val0 =
     (let val = trim val0; shift = size_shift val;
          digits = (if shift = 0 then val else butlast val)
      in if digits = [] \<or> \<not> list_all is_ascii_digit digits then Inl (InvalidSize val)
         else
           case Option.bind (parse_u64 digits) (\<lambda>n. checked_mul n (2 ^ shift)) of
             Some v \<Rightarrow> Inr v
           | None \<Rightarrow> Inl (SizeOverflow val))"

section \<open>Path rules\<close>

record regex_crate =
  rx_escape :: "string \<Rightarrow> string"
  rx_new :: "string \<Rightarrow> (string \<Rightarrow> bool) option"

record path_glob =
  pg_pattern :: string
  pg_parts :: "(string \<Rightarrow> bool) option list"
  pg_literal_components :: nat

text \<open>The characters of a string, each with its bytes.\<close>

function char_strings :: "string \<Rightarrow> string list" where
  "char_strings [] = []"
| "char_strings (c # s) =
     (let w = max 1 (seq_width c) in take w (c # s) # char_strings (drop w (c # s)))"
  by pat_completeness auto
termination
  by (relation "measure length") auto

definition component_regex :: "regex_crate \<Rightarrow> string \<Rightarrow> string" where
  "component_regex rx component =
     ''(?s)^'' @ concat (map (\<lambda>ch. if ch = ''*'' then ''.*'' else if ch = ''?'' then ''.'' else rx_escape rx ch)
       (char_strings component)) @ ''$''"

fun glob_parts :: "regex_crate \<Rightarrow> string list \<Rightarrow> io_error + (string \<Rightarrow> bool) option list" where
  "glob_parts rx [] = Inr []"
| "glob_parts rx (component # rest) =
     (if component = ''**'' then map_sum (\<lambda>e. e) (\<lambda>ps. None # ps) (glob_parts rx rest)
      else if contains_str component ''**'' then
        Inl (IoError InvalidInput ''** must occupy an entire path component'')
      else case rx_new rx (component_regex rx component) of
        None \<Rightarrow> Inl (IoError OtherKind ''regex'')
      | Some m \<Rightarrow> map_sum (\<lambda>e. e) (\<lambda>ps. Some m # ps) (glob_parts rx rest))"

definition path_glob_new :: "regex_crate \<Rightarrow> string \<Rightarrow> io_error + path_glob" where
  "path_glob_new rx original =
     (let pat = trim_end_matches CHR ''/'' (trim_start_matches CHR ''/'' original);
          comps = split_on CHR ''/'' pat
      in if pat = [] \<or> list_ex (\<lambda>c. c = [] \<or> c = ''.'' \<or> c = ''..'') comps then
           Inl (IoError InvalidInput
             ''read-only glob must be a nonempty root-relative path without . or .. components'')
         else
           map_sum (\<lambda>e. e) (\<lambda>ps.
             \<lparr>pg_pattern = original, pg_parts = ps,
              pg_literal_components =
                length (filter (\<lambda>part. CHR ''*'' \<notin> set part \<and> CHR ''?'' \<notin> set part) comps)\<rparr>)
             (glob_parts rx comps))"

text \<open>The state sets of the matcher: \<open>**\<close> components are passed without consuming.\<close>

definition epsilon :: "'m option list \<Rightarrow> nat set \<Rightarrow> nat set" where
  "epsilon parts states =
     fold (\<lambda>i S. if Option.is_none (parts ! i) \<and> i \<in> S then insert (i + 1) S else S) [0..<length parts] states"

definition glob_move :: "(string \<Rightarrow> bool) option list \<Rightarrow> string \<Rightarrow> nat set \<Rightarrow> nat set" where
  "glob_move parts component states =
     {i \<in> states. i < length parts \<and> Option.is_none (parts ! i)}
     \<union> (\<lambda>i. i + 1) ` {i \<in> states. i < length parts \<and> (case parts ! i of Some m \<Rightarrow> m component | None \<Rightarrow> False)}"

fun glob_run :: "(string \<Rightarrow> bool) option list \<Rightarrow> bool \<Rightarrow> bool \<Rightarrow> string list \<Rightarrow> nat set \<Rightarrow> bool" where
  "glob_run parts ancestors subtree [] states =
     (let S = epsilon parts states in length parts \<in> S \<or> ancestors \<and> S \<noteq> {})"
| "glob_run parts ancestors subtree (c # cs) states =
     (let S = epsilon parts states in
      if subtree \<and> length parts \<in> S then True
      else glob_run parts ancestors subtree cs (glob_move parts c S))"

definition path_parts :: "string \<Rightarrow> string list" where
  "path_parts path = filter (\<lambda>c. c \<noteq> []) (split_on CHR ''/'' (trim_matches CHR ''/'' path))"

definition glob_matches :: "(string \<Rightarrow> bool) option list \<Rightarrow> string \<Rightarrow> bool \<Rightarrow> bool \<Rightarrow> bool" where
  "glob_matches parts path ancestors subtree = glob_run parts ancestors subtree (path_parts path) {0}"

definition glob_protects :: "path_glob \<Rightarrow> string \<Rightarrow> bool \<Rightarrow> bool" where
  "glob_protects g path ancestors = glob_matches (pg_parts g) path ancestors True"

definition glob_root_end :: "'m option list \<Rightarrow> nat" where
  "glob_root_end parts = length (dropWhile Option.is_none (rev parts))"

definition glob_is_root :: "path_glob \<Rightarrow> string \<Rightarrow> bool" where
  "glob_is_root g path = glob_matches (take (glob_root_end (pg_parts g)) (pg_parts g)) path False False"

section \<open>Copy-on-write reservations\<close>

datatype overlay_mutation =
    CopyOnWrite | Create | OpenWrite | Write | Mkdir | Unlink | Rmdir | Truncate | Symlink | Rename | Reset

type_synonym cow_key = "nat \<times> string"

record copy_reservations =
  cr_copies :: "(cow_key \<times> u64) list"
  cr_checks :: "cow_key set"

definition cow_default :: copy_reservations where
  "cow_default = \<lparr>cr_copies = [], cr_checks = {}\<rparr>"

definition cow_mutation :: "nat \<Rightarrow> overlay_mutation \<Rightarrow> string list \<Rightarrow> copy_reservations \<Rightarrow> copy_reservations" where
  "cow_mutation thread op paths cow =
     (let kept = (if op \<noteq> Write then {k \<in> cr_checks cow. fst k \<noteq> thread} else cr_checks cow)
      in cow\<lparr>cr_checks := (if op = CopyOnWrite then kept \<union> Pair thread ` set paths else kept)\<rparr>)"

definition cow_changed :: "nat \<Rightarrow> string \<Rightarrow> u64 \<Rightarrow> u64 \<Rightarrow> copy_reservations \<Rightarrow> copy_reservations" where
  "cow_changed thread path added removed cow =
     (let key = (thread, path) in
      case map_of (cr_copies cow) key of
        Some bytes \<Rightarrow>
          if removed \<ge> bytes \<and> added = 0 then
            \<lparr>cr_copies = AList.delete key (cr_copies cow), cr_checks = cr_checks cow - {key}\<rparr>
          else cow\<lparr>cr_copies := AList.update key (saturating_sub (saturating_add bytes added) removed) (cr_copies cow)\<rparr>
      | None \<Rightarrow>
          if key \<in> cr_checks cow \<and> removed = 0 then cow\<lparr>cr_copies := AList.update key added (cr_copies cow)\<rparr>
          else cow)"

definition cow_created :: "nat \<Rightarrow> string \<Rightarrow> copy_reservations \<Rightarrow> copy_reservations" where
  "cow_created thread path cow =
     \<lparr>cr_copies = AList.delete (thread, path) (cr_copies cow), cr_checks = cr_checks cow - {(thread, path)}\<rparr>"

section \<open>Read-only rules\<close>

text \<open>A host path is its list of components, and \<open>canon\<close> is \<open>Path::canonicalize\<close>. The observer, when one is set,
  is the list of the denials it was called with.\<close>

datatype canon_result = Resolved "string list" | CanonNotFound | CanonFails

record read_only_globs =
  ro_globs :: "path_glob list"
  ro_allows :: "path_glob list"
  ro_overlay_root :: "string list option"
  ro_cow :: copy_reservations
  ro_erofs_denied :: u64
  ro_denial_observer :: "(string \<times> overlay_mutation) list option"

fun parse_globs :: "regex_crate \<Rightarrow> string list \<Rightarrow> io_error + path_glob list" where
  "parse_globs rx [] = Inr []"
| "parse_globs rx (pattern # rest) =
     (case path_glob_new rx (trim pattern) of
        Inl e \<Rightarrow> Inl e
      | Inr g \<Rightarrow> map_sum (\<lambda>e. e) (\<lambda>gs. g # gs) (parse_globs rx rest))"

definition with_allow :: "regex_crate \<Rightarrow> string list \<Rightarrow> string list \<Rightarrow> io_error + read_only_globs" where
  "with_allow rx readonly allow =
     (case parse_globs rx (concat (map (split_on CHR '','') readonly)) of
        Inl e \<Rightarrow> Inl e
      | Inr globs \<Rightarrow>
          case parse_globs rx (concat (map (split_on CHR '','') allow)) of
            Inl e \<Rightarrow> Inl e
          | Inr allows \<Rightarrow>
              if globs = [] \<and> allows \<noteq> [] then
                Inl (IoError InvalidInput ''overlay allow rules require at least one read-only rule'')
              else Inr \<lparr>ro_globs = globs, ro_allows = allows, ro_overlay_root = None, ro_cow = cow_default,
                        ro_erofs_denied = 0, ro_denial_observer = None\<rparr>)"

definition read_only_globs_new :: "regex_crate \<Rightarrow> string list \<Rightarrow> io_error + read_only_globs" where
  "read_only_globs_new rx patterns = with_allow rx patterns []"

definition deny :: "string \<Rightarrow> overlay_mutation \<Rightarrow> string \<Rightarrow> read_only_globs \<Rightarrow> io_error \<times> read_only_globs" where
  "deny path op message ro =
     (IoError ReadOnlyFilesystem message,
      ro\<lparr>ro_erofs_denied := ro_erofs_denied ro + 1,
         ro_denial_observer := map_option (\<lambda>calls. calls @ [(path, op)]) (ro_denial_observer ro)\<rparr>)"

definition set_denial_observer :: "read_only_globs \<Rightarrow> read_only_globs" where
  "set_denial_observer ro = ro\<lparr>ro_denial_observer := Some []\<rparr>"

definition with_overlay_root ::
  "(string list \<Rightarrow> canon_result) \<Rightarrow> string list \<Rightarrow> read_only_globs \<Rightarrow> io_error + read_only_globs" where
  "with_overlay_root canon root ro =
     (case canon root of
        Resolved r \<Rightarrow> Inr (ro\<lparr>ro_overlay_root := Some r\<rparr>)
      | CanonNotFound \<Rightarrow> Inl (IoError NotFound [])
      | CanonFails \<Rightarrow> Inl (IoError OtherKind []))"

definition strip_root :: "string list \<Rightarrow> string list \<Rightarrow> string option" where
  "strip_root root p = map_option (\<lambda>rest. CHR ''/'' # join_with ''/'' rest) (strip_prefix p root)"

text \<open>The parents of the host path, nearest first, until one of them exists.\<close>

fun resolve_up :: "(string list \<Rightarrow> canon_result) \<Rightarrow> string list \<Rightarrow> string list \<Rightarrow> string list \<Rightarrow> string option" where
  "resolve_up canon root [] tail =
     (case canon [] of Resolved r \<Rightarrow> strip_root root (r @ tail) | _ \<Rightarrow> None)"
| "resolve_up canon root (c # up) tail =
     (case canon (rev (c # up)) of
        Resolved r \<Rightarrow> strip_root root (r @ tail)
      | CanonNotFound \<Rightarrow> if c = ''..'' then None else resolve_up canon root up (c # tail)
      | CanonFails \<Rightarrow> None)"

definition resolved_parent_path :: "(string list \<Rightarrow> canon_result) \<Rightarrow> read_only_globs \<Rightarrow> string \<Rightarrow> string option" where
  "resolved_parent_path canon ro path =
     Option.bind (ro_overlay_root ro) (\<lambda>root.
       case rev (root @ filter (\<lambda>c. c \<noteq> [] \<and> c \<noteq> ''.'') (split_on CHR ''/'' (trim_start_matches CHR ''/'' path))) of
         [] \<Rightarrow> None
       | name # up \<Rightarrow> if name = ''..'' then None else resolve_up canon root up [name])"

definition best_match :: "(path_glob \<Rightarrow> bool) \<Rightarrow> path_glob list \<Rightarrow> nat option" where
  "best_match P gs =
     (case map pg_literal_components (filter P gs) of [] \<Rightarrow> None | ns \<Rightarrow> Some (Max (set ns)))"

definition outranks :: "nat option \<Rightarrow> nat option \<Rightarrow> bool" where
  "outranks readonly allow =
     (case readonly of None \<Rightarrow> False | Some score \<Rightarrow> (case allow of None \<Rightarrow> True | Some a \<Rightarrow> score > a))"

definition ro_protects :: "read_only_globs \<Rightarrow> string \<Rightarrow> bool" where
  "ro_protects ro path =
     outranks (best_match (\<lambda>g. glob_protects g path False) (ro_globs ro))
       (best_match (\<lambda>g. glob_protects g path False) (ro_allows ro))"

definition has_protected_parent :: "read_only_globs \<Rightarrow> string \<Rightarrow> bool" where
  "has_protected_parent ro path =
     (let p = trim_matches CHR ''/'' path in
      p \<noteq> [] \<and> ro_protects ro (case rsplit_once CHR ''/'' p of None \<Rightarrow> [] | Some (parent, _) \<Rightarrow> parent))"

definition denies_path :: "read_only_globs \<Rightarrow> string \<Rightarrow> bool \<Rightarrow> bool" where
  "denies_path ro path ancestors =
     (ancestors \<and> list_ex (\<lambda>g. glob_is_root g path) (ro_allows ro) \<and> has_protected_parent ro path
      \<or> outranks (best_match (\<lambda>g. glob_protects g path ancestors) (ro_globs ro))
          (best_match (\<lambda>g. glob_protects g path False) (ro_allows ro)))"

definition is_parent :: "string \<Rightarrow> string \<Rightarrow> bool" where
  "is_parent parent child =
     (parent = ''/''
      \<or> (case strip_prefix child parent of None \<Rightarrow> False | Some rest \<Rightarrow> starts_with rest ''/''))"

text \<open>A copy under way, of a path below the one being replaced. The reservations are visited in the order of the
  list, which stands for the order of the hash map.\<close>

definition copy_below :: "(string list \<Rightarrow> canon_result) \<Rightarrow> read_only_globs \<Rightarrow> string \<Rightarrow> string option \<Rightarrow> string option" where
  "copy_below canon ro path resolved =
     find (\<lambda>copying.
       list_ex (\<lambda>parent. is_parent parent copying
           \<or> (case resolved_parent_path canon ro copying of None \<Rightarrow> False | Some child \<Rightarrow> is_parent parent child))
         (path # (case resolved of None \<Rightarrow> [] | Some r \<Rightarrow> [r])))
       (map (\<lambda>((_, copying), _). copying) (cr_copies (ro_cow ro)))"

definition ancestor_op :: "overlay_mutation \<Rightarrow> bool" where
  "ancestor_op op = (op \<in> {Rename, Rmdir, Reset})"

definition replaces_name :: "overlay_mutation \<Rightarrow> bool" where
  "replaces_name op = (op \<in> {Unlink, Rmdir, Rename, Reset})"

fun ro_check_paths ::
  "(string list \<Rightarrow> canon_result) \<Rightarrow> overlay_mutation \<Rightarrow> string list \<Rightarrow> read_only_globs
    \<Rightarrow> (io_error + unit) \<times> read_only_globs" where
  "ro_check_paths canon op [] ro = (Inr (), ro)"
| "ro_check_paths canon op (path # paths) ro =
     (let resolved = resolved_parent_path canon ro path in
      if denies_path ro path (ancestor_op op)
         \<or> (case resolved of None \<Rightarrow> False | Some p \<Rightarrow> denies_path ro p (ancestor_op op)) then
        map_prod Inl id (deny path op (''protected overlay path: '' @ path) ro)
      else if ro_globs ro \<noteq> [] \<and> replaces_name op then
        (case copy_below canon ro path resolved of
           Some copying \<Rightarrow>
             map_prod Inl id
               (deny path op (''cannot replace COW parent '' @ path @ '' while copying '' @ copying) ro)
         | None \<Rightarrow> ro_check_paths canon op paths ro)
      else ro_check_paths canon op paths ro)"

definition ro_check_mutation ::
  "(string list \<Rightarrow> canon_result) \<Rightarrow> nat \<Rightarrow> overlay_mutation \<Rightarrow> string list \<Rightarrow> read_only_globs
    \<Rightarrow> (io_error + unit) \<times> read_only_globs" where
  "ro_check_mutation canon thread op paths ro =
     (case ro_check_paths canon op paths ro of
        (Inl e, ro') \<Rightarrow> (Inl e, ro')
      | (Inr _, ro') \<Rightarrow> (Inr (), ro'\<lparr>ro_cow := cow_mutation thread op paths (ro_cow ro')\<rparr>))"

definition ro_check_write ::
  "(string list \<Rightarrow> canon_result) \<Rightarrow> nat \<Rightarrow> string \<Rightarrow> read_only_globs \<Rightarrow> (io_error + unit) \<times> read_only_globs" where
  "ro_check_write canon thread path ro = ro_check_mutation canon thread Write [path] ro"

definition ro_bytes_changed :: "nat \<Rightarrow> string \<Rightarrow> u64 \<Rightarrow> u64 \<Rightarrow> read_only_globs \<Rightarrow> read_only_globs" where
  "ro_bytes_changed thread path added removed ro = ro\<lparr>ro_cow := cow_changed thread path added removed (ro_cow ro)\<rparr>"

definition ro_file_created :: "nat \<Rightarrow> string \<Rightarrow> read_only_globs \<Rightarrow> read_only_globs" where
  "ro_file_created thread path ro = ro\<lparr>ro_cow := cow_created thread path (ro_cow ro)\<rparr>"

section \<open>Quota\<close>

text \<open>\<open>exists\<close> is whether the overlay folder holds a name.\<close>

record overlay_quota =
  oq_byte_limit :: "u64 option"
  oq_file_limit :: "u64 option"
  oq_bytes :: u64
  oq_files :: u64
  oq_cow :: copy_reservations

record quota_usage =
  qu_bytes :: u64
  qu_files :: u64
  qu_byte_limit :: "u64 option"
  qu_file_limit :: "u64 option"
  qu_erofs_denied :: u64

definition limit_text :: "u64 option \<Rightarrow> string" where
  "limit_text v = (case v of None \<Rightarrow> ''unlimited'' | Some n \<Rightarrow> show_nat (unat n))"

definition status_text :: "quota_usage \<Rightarrow> string" where
  "status_text u =
     ''overlay_bytes '' @ show_nat (unat (qu_bytes u)) @ [CHR 10] @
     ''overlay_quota_bytes '' @ limit_text (qu_byte_limit u) @ [CHR 10] @
     ''overlay_files '' @ show_nat (unat (qu_files u)) @ [CHR 10] @
     ''overlay_quota_files '' @ limit_text (qu_file_limit u) @ [CHR 10] @
     ''erofs_denied '' @ show_nat (unat (qu_erofs_denied u)) @ [CHR 10]"

definition quota_new :: "(string \<times> host_node) list \<Rightarrow> u64 option \<Rightarrow> u64 option \<Rightarrow> io_error + overlay_quota" where
  "quota_new root byte_limit file_limit =
     map_sum (\<lambda>e. e) (\<lambda>u. \<lparr>oq_byte_limit = byte_limit, oq_file_limit = file_limit, oq_bytes = ou_bytes u,
       oq_files = ou_files u, oq_cow = cow_default\<rparr>) (usage_scan root)"

definition used_slots :: "overlay_quota \<Rightarrow> u64" where
  "used_slots q = oq_files q + of_nat (length (cr_copies (oq_cow q)))"

definition oq_usage :: "read_only_globs option \<Rightarrow> overlay_quota \<Rightarrow> quota_usage" where
  "oq_usage readonly q =
     \<lparr>qu_bytes = oq_bytes q, qu_files = used_slots q, qu_byte_limit = oq_byte_limit q,
      qu_file_limit = oq_file_limit q,
      qu_erofs_denied = (case readonly of None \<Rightarrow> 0 | Some rules \<Rightarrow> ro_erofs_denied rules)\<rparr>"

definition check_file_slot :: "(string \<Rightarrow> bool) \<Rightarrow> nat \<Rightarrow> string \<Rightarrow> overlay_quota \<Rightarrow> io_error + unit" where
  "check_file_slot exists thread path q =
     (if \<not> exists path \<and> map_of (cr_copies (oq_cow q)) (thread, path) = None
         \<and> (case oq_file_limit q of None \<Rightarrow> False | Some limit \<Rightarrow> used_slots q \<ge> limit)
      then Inl (IoError QuotaExceeded ''overlay file quota exceeded'') else Inr ())"

fun check_file_slots :: "(string \<Rightarrow> bool) \<Rightarrow> nat \<Rightarrow> string list \<Rightarrow> overlay_quota \<Rightarrow> io_error + unit" where
  "check_file_slots exists thread [] q = Inr ()"
| "check_file_slots exists thread (p # ps) q =
     (case check_file_slot exists thread p q of Inl e \<Rightarrow> Inl e | Inr _ \<Rightarrow> check_file_slots exists thread ps q)"

definition quota_check_mutation ::
  "(string \<Rightarrow> bool) \<Rightarrow> nat \<Rightarrow> overlay_mutation \<Rightarrow> string list \<Rightarrow> overlay_quota \<Rightarrow> (io_error + unit) \<times> overlay_quota" where
  "quota_check_mutation exists thread op paths q =
     (let q' = q\<lparr>oq_cow := cow_mutation thread op paths (oq_cow q)\<rparr>
      in (if op \<in> {Create, Symlink, OpenWrite} then check_file_slots exists thread paths q' else Inr (), q'))"

definition quota_check_write ::
  "(string \<Rightarrow> bool) \<Rightarrow> nat \<Rightarrow> string \<Rightarrow> u64 \<Rightarrow> u64 \<Rightarrow> u64 \<Rightarrow> overlay_quota \<Rightarrow> io_error + unit" where
  "quota_check_write exists thread path offset len current_size q =
     (case checked_add offset len of
        None \<Rightarrow> Inl (IoError QuotaExceeded ''overlay extent overflows u64'')
      | Some end_pos \<Rightarrow>
          let growth = saturating_sub end_pos current_size in
          if growth > 0 \<and> (case oq_byte_limit q of None \<Rightarrow> False
              | Some limit \<Rightarrow> (case checked_add (oq_bytes q) growth of None \<Rightarrow> True | Some n \<Rightarrow> n > limit)) then
            Inl (IoError QuotaExceeded ''overlay byte quota exceeded'')
          else if (thread, path) \<in> cr_checks (oq_cow q) then check_file_slot exists thread path q
          else Inr ())"

definition quota_bytes_changed :: "nat \<Rightarrow> string \<Rightarrow> u64 \<Rightarrow> u64 \<Rightarrow> overlay_quota \<Rightarrow> overlay_quota" where
  "quota_bytes_changed thread path added removed q =
     q\<lparr>oq_bytes := saturating_sub (saturating_add (oq_bytes q) added) removed,
       oq_cow := cow_changed thread path added removed (oq_cow q)\<rparr>"

definition quota_file_created :: "nat \<Rightarrow> string \<Rightarrow> overlay_quota \<Rightarrow> overlay_quota" where
  "quota_file_created thread path q = q\<lparr>oq_cow := cow_created thread path (oq_cow q), oq_files := oq_files q + 1\<rparr>"

definition quota_file_removed :: "overlay_quota \<Rightarrow> overlay_quota" where
  "quota_file_removed q = q\<lparr>oq_files := saturating_sub (oq_files q) 1\<rparr>"

section \<open>Installed policies\<close>

text \<open>A composite runs its checks in order and stops at the first refusal; accounting reaches every policy.\<close>

datatype overlay_policy =
    ReadOnlyPolicy read_only_globs | QuotaPolicy overlay_quota | CompositePolicy "overlay_policy list"

record host_view =
  hv_canon :: "string list \<Rightarrow> canon_result"
  hv_exists :: "string \<Rightarrow> bool"

fun check_mutation ::
    "host_view \<Rightarrow> nat \<Rightarrow> overlay_mutation \<Rightarrow> string list \<Rightarrow> overlay_policy \<Rightarrow> (io_error + unit) \<times> overlay_policy"
  and check_mutation_all ::
    "host_view \<Rightarrow> nat \<Rightarrow> overlay_mutation \<Rightarrow> string list \<Rightarrow> overlay_policy list
      \<Rightarrow> (io_error + unit) \<times> overlay_policy list" where
  "check_mutation h t op paths (ReadOnlyPolicy ro) =
     map_prod id ReadOnlyPolicy (ro_check_mutation (hv_canon h) t op paths ro)"
| "check_mutation h t op paths (QuotaPolicy q) =
     map_prod id QuotaPolicy (quota_check_mutation (hv_exists h) t op paths q)"
| "check_mutation h t op paths (CompositePolicy ps) =
     map_prod id CompositePolicy (check_mutation_all h t op paths ps)"
| "check_mutation_all h t op paths [] = (Inr (), [])"
| "check_mutation_all h t op paths (p # ps) =
     (case check_mutation h t op paths p of
        (Inl e, p') \<Rightarrow> (Inl e, p' # ps)
      | (Inr _, p') \<Rightarrow> map_prod id (\<lambda>ps'. p' # ps') (check_mutation_all h t op paths ps))"

fun check_write ::
    "host_view \<Rightarrow> nat \<Rightarrow> string \<Rightarrow> u64 \<Rightarrow> u64 \<Rightarrow> u64 \<Rightarrow> overlay_policy \<Rightarrow> (io_error + unit) \<times> overlay_policy"
  and check_write_all ::
    "host_view \<Rightarrow> nat \<Rightarrow> string \<Rightarrow> u64 \<Rightarrow> u64 \<Rightarrow> u64 \<Rightarrow> overlay_policy list
      \<Rightarrow> (io_error + unit) \<times> overlay_policy list" where
  "check_write h t path offset len sz (ReadOnlyPolicy ro) =
     map_prod id ReadOnlyPolicy (ro_check_write (hv_canon h) t path ro)"
| "check_write h t path offset len sz (QuotaPolicy q) =
     (quota_check_write (hv_exists h) t path offset len sz q, QuotaPolicy q)"
| "check_write h t path offset len sz (CompositePolicy ps) =
     map_prod id CompositePolicy (check_write_all h t path offset len sz ps)"
| "check_write_all h t path offset len sz [] = (Inr (), [])"
| "check_write_all h t path offset len sz (p # ps) =
     (case check_write h t path offset len sz p of
        (Inl e, p') \<Rightarrow> (Inl e, p' # ps)
      | (Inr _, p') \<Rightarrow> map_prod id (\<lambda>ps'. p' # ps') (check_write_all h t path offset len sz ps))"

fun bytes_changed :: "nat \<Rightarrow> string \<Rightarrow> u64 \<Rightarrow> u64 \<Rightarrow> overlay_policy \<Rightarrow> overlay_policy" where
  "bytes_changed t path added removed (ReadOnlyPolicy ro) = ReadOnlyPolicy (ro_bytes_changed t path added removed ro)"
| "bytes_changed t path added removed (QuotaPolicy q) = QuotaPolicy (quota_bytes_changed t path added removed q)"
| "bytes_changed t path added removed (CompositePolicy ps) =
     CompositePolicy (map (bytes_changed t path added removed) ps)"

fun file_created :: "nat \<Rightarrow> string \<Rightarrow> overlay_policy \<Rightarrow> overlay_policy" where
  "file_created t path (ReadOnlyPolicy ro) = ReadOnlyPolicy (ro_file_created t path ro)"
| "file_created t path (QuotaPolicy q) = QuotaPolicy (quota_file_created t path q)"
| "file_created t path (CompositePolicy ps) = CompositePolicy (map (file_created t path) ps)"

fun file_removed :: "overlay_policy \<Rightarrow> overlay_policy" where
  "file_removed (ReadOnlyPolicy ro) = ReadOnlyPolicy ro"
| "file_removed (QuotaPolicy q) = QuotaPolicy (quota_file_removed q)"
| "file_removed (CompositePolicy ps) = CompositePolicy (map file_removed ps)"

end
