(* ===== verification/Path_Rules.thy ===== *)
theory Path_Rules
  imports Overlay_Policy
begin

text \<open>
  What the read-only rules of \<^verbatim>\<open>overlay_policy.rs\<close> mean. A rule is read as a sequence of component patterns, with
  \<open>**\<close> standing for any number of components; the state sets of the matcher are shown to decide this reading, for
  the path itself, for its ancestors and for names below it, and a mutation that passes every installed policy is
  shown to touch no path that a rule protects.
\<close>

section \<open>Declarative reading of a rule\<close>

declare Option.is_none_def [simp]

inductive path_sem :: "('a \<Rightarrow> bool) option list \<Rightarrow> 'a list \<Rightarrow> bool" where
  sem_nil: "path_sem [] []"
| sem_skip: "path_sem ps cs \<Longrightarrow> path_sem (None # ps) cs"
| sem_more: "path_sem (None # ps) cs \<Longrightarrow> path_sem (None # ps) (c # cs)"
| sem_one: "m c \<Longrightarrow> path_sem ps cs \<Longrightarrow> path_sem (Some m # ps) (c # cs)"

inductive_cases path_sem_NilE [elim!]: "path_sem [] cs"
inductive_cases path_sem_SomeE [elim!]: "path_sem (Some m # ps) cs"
inductive_cases path_sem_emptyE: "path_sem (None # ps) []"

lemma sem_any: "path_sem ps b \<Longrightarrow> path_sem (None # ps) (a @ b)"
  by (induction a) (auto intro: path_sem.intros)

lemma sem_None_iff: "path_sem (None # ps) cs \<longleftrightarrow> (\<exists>a b. cs = a @ b \<and> path_sem ps b)"
proof
  have "path_sem qs cs \<Longrightarrow> qs = None # ps \<Longrightarrow> \<exists>a b. cs = a @ b \<and> path_sem ps b" for qs
  proof (induction rule: path_sem.induct)
    case (sem_skip qs cs)
    then show ?case by (intro exI [of _ "[]"] exI [of _ cs]) auto
  next
    case (sem_more qs cs c)
    then obtain a b where "cs = a @ b" "path_sem ps b" by auto
    then show ?case by (intro exI [of _ "c # a"] exI [of _ b]) auto
  qed auto
  then show "path_sem (None # ps) cs \<Longrightarrow> \<exists>a b. cs = a @ b \<and> path_sem ps b" by blast
qed (auto intro: sem_any)

lemma sem_Some_iff: "path_sem (Some m # ps) cs \<longleftrightarrow> (\<exists>c cs'. cs = c # cs' \<and> m c \<and> path_sem ps cs')"
  by (auto intro: sem_one)

lemma sem_Nil_iff [simp]: "path_sem [] cs \<longleftrightarrow> cs = []"
  by (auto intro: sem_nil)

lemma sem_append: "path_sem (ps @ qs) cs \<longleftrightarrow> (\<exists>a b. cs = a @ b \<and> path_sem ps a \<and> path_sem qs b)"
proof (induction ps arbitrary: cs)
  case (Cons p ps)
  show ?case
  proof (cases p)
    case None
    have "path_sem ((p # ps) @ qs) cs \<longleftrightarrow> (\<exists>x a b. cs = x @ a @ b \<and> path_sem ps a \<and> path_sem qs b)"
      unfolding None by (auto simp: sem_None_iff Cons.IH)
    also have "\<dots> \<longleftrightarrow> (\<exists>a b. cs = a @ b \<and> path_sem (p # ps) a \<and> path_sem qs b)"
      unfolding None sem_None_iff by (metis append.assoc)
    finally show ?thesis .
  next
    case (Some m)
    then show ?thesis
      by (auto simp: sem_Some_iff Cons.IH) (metis append_Cons)+
  qed
qed simp

lemma sem_last_any: "path_sem (ps @ [None]) cs \<longleftrightarrow> (\<exists>a b. cs = a @ b \<and> path_sem ps a)"
  by (auto simp: sem_append sem_None_iff)

lemma sem_last_one: "path_sem (ps @ [Some m]) cs \<longleftrightarrow> (\<exists>a c. cs = a @ [c] \<and> path_sem ps a \<and> m c)"
  by (auto simp: sem_append sem_Some_iff)

lemma sem_satisfiable:
  assumes "\<And>m. Some m \<in> set ps \<Longrightarrow> \<exists>c. m c"
  shows "\<exists>cs. path_sem ps cs"
  using assms
proof (induction ps)
  case (Cons p ps)
  then obtain cs where cs: "path_sem ps cs" by (metis list.set_intros(2))
  show ?case
  proof (cases p)
    case None
    with cs show ?thesis by (metis sem_skip)
  next
    case (Some m)
    with Cons.prems obtain c where "m c" by (metis list.set_intros(1))
    with Some cs show ?thesis by (metis sem_one)
  qed
qed auto

section \<open>The state sets\<close>

definition glob_reach :: "('a \<Rightarrow> bool) option list \<Rightarrow> 'a list \<Rightarrow> nat set" where
  "glob_reach parts cs =
     {i. i \<le> length parts \<and> (path_sem (take i parts) cs
        \<or> i < length parts \<and> parts ! i = None \<and> path_sem (take (Suc i) parts) cs)}"

lemma reach_whole: "length parts \<in> glob_reach parts cs \<longleftrightarrow> path_sem parts cs"
  by (simp add: glob_reach_def)

lemma take_Suc_sem:
  assumes "i < length parts"
  shows "parts ! i = None \<Longrightarrow> path_sem (take (Suc i) parts) cs \<longleftrightarrow> (\<exists>a b. cs = a @ b \<and> path_sem (take i parts) a)"
    and "parts ! i = Some m \<Longrightarrow>
      path_sem (take (Suc i) parts) cs \<longleftrightarrow> (\<exists>a c. cs = a @ [c] \<and> path_sem (take i parts) a \<and> m c)"
  using assms by (simp_all add: take_Suc_conv_app_nth sem_last_any sem_last_one)

definition eps_to :: "'m option list \<Rightarrow> nat \<Rightarrow> nat set \<Rightarrow> nat set" where
  "eps_to parts n S = fold (\<lambda>i S. if Option.is_none (parts ! i) \<and> i \<in> S then insert (i + 1) S else S) [0..<n] S"

lemma eps_to_Suc:
  "eps_to parts (Suc n) S =
     (if parts ! n = None \<and> n \<in> eps_to parts n S then insert (Suc n) (eps_to parts n S) else eps_to parts n S)"
  by (simp add: eps_to_def)

lemma epsilon_eps_to: "epsilon parts S = eps_to parts (length parts) S"
  by (simp add: epsilon_def eps_to_def)

lemma eps_to_closed_stage:
  "i \<in> eps_to parts n S \<longleftrightarrow> i \<in> S \<or> (\<exists>j. i = Suc j \<and> j < n \<and> parts ! j = None \<and> j \<in> eps_to parts n S)"
proof (induction n arbitrary: i)
  case (Suc n)
  have *: "j \<in> eps_to parts (Suc n) S \<longleftrightarrow> j \<in> eps_to parts n S" if "j \<le> n" for j
    using that by (auto simp: eps_to_Suc)
  show ?case
  proof (cases "i = Suc n")
    case True
    have "Suc n \<in> eps_to parts n S \<longleftrightarrow> Suc n \<in> S" using Suc.IH [of "Suc n"] by auto
    with True * show ?thesis by (auto simp: eps_to_Suc)
  next
    case False
    then have "i \<in> eps_to parts (Suc n) S \<longleftrightarrow> i \<in> eps_to parts n S" by (auto simp: eps_to_Suc)
    with Suc.IH [of i] * False show ?thesis
      by (metis Suc_inject less_Suc_eq less_Suc_eq_le)
  qed
qed (simp add: eps_to_def)

lemma epsilon_iff:
  "i \<in> epsilon parts S \<longleftrightarrow>
     i \<in> S \<or> (\<exists>j. i = Suc j \<and> j < length parts \<and> parts ! j = None \<and> j \<in> epsilon parts S)"
  unfolding epsilon_eps_to by (rule eps_to_closed_stage)

lemma epsilon_least:
  assumes "S \<subseteq> R" "\<And>j. j < length parts \<Longrightarrow> parts ! j = None \<Longrightarrow> j \<in> R \<Longrightarrow> Suc j \<in> R"
  shows "epsilon parts S \<subseteq> R"
proof
  fix i show "i \<in> epsilon parts S \<Longrightarrow> i \<in> R"
  proof (induction i)
    case 0
    then show ?case using epsilon_iff [of 0] assms(1) by auto
  next
    case (Suc i)
    then show ?case using epsilon_iff [of "Suc i"] assms by auto
  qed
qed

lemma reach_closed:
  assumes "j < length parts" "parts ! j = None" "j \<in> glob_reach parts cs"
  shows "Suc j \<in> glob_reach parts cs"
proof -
  have "path_sem (take (Suc j) parts) cs"
    using assms(3) take_Suc_sem(1) [OF assms(1,2), of cs] unfolding glob_reach_def by (metis (mono_tags, lifting) append.right_neutral mem_Collect_eq)
  with assms(1) show ?thesis by (simp add: glob_reach_def)
qed

lemma epsilon_start: "epsilon parts {0} = glob_reach parts []"
proof
  show "epsilon parts {0} \<subseteq> glob_reach parts []"
    by (rule epsilon_least) (auto simp: reach_closed, simp add: glob_reach_def)
  have "i \<le> length parts \<Longrightarrow> path_sem (take i parts) [] \<Longrightarrow> i \<in> epsilon parts {0}" for i
  proof (induction i)
    case (Suc i)
    then have "i < length parts" by simp
    show ?case
    proof (cases "parts ! i")
      case None
      with Suc \<open>i < length parts\<close> have "i \<in> epsilon parts {0}"
        by (simp add: take_Suc_sem(1))
      with None \<open>i < length parts\<close> show ?thesis by (subst epsilon_iff) blast
    next
      case (Some m)
      with Suc.prems \<open>i < length parts\<close> show ?thesis by (simp add: take_Suc_sem(2))
    qed
  qed (subst epsilon_iff, simp)
  moreover have "path_sem (take i parts) []"
    if "i < length parts" "parts ! i = None" "path_sem (take (Suc i) parts) []" for i
    using that take_Suc_sem(1) [OF that(1,2)] by simp
  ultimately show "glob_reach parts [] \<subseteq> epsilon parts {0}" by (auto simp: glob_reach_def)
qed
lemma reach_None_Suc:
  assumes "i < length parts" "parts ! i = None" "i \<in> glob_reach parts cs"
  shows "path_sem (take (Suc i) parts) cs"
  using assms(3) take_Suc_sem(1) [OF assms(1,2), of cs] unfolding glob_reach_def
  by (metis (mono_tags, lifting) append.right_neutral mem_Collect_eq)

lemma move_reach: "glob_move parts c (glob_reach parts pre) \<subseteq> glob_reach parts (pre @ [c])"
proof
  fix i assume "i \<in> glob_move parts c (glob_reach parts pre)"
  then consider (stay) "i \<in> glob_reach parts pre" "i < length parts" "parts ! i = None"
    | (eat) k m where "i = Suc k" "k \<in> glob_reach parts pre" "k < length parts" "parts ! k = Some m" "m c"
    unfolding glob_move_def by (auto split: option.splits)
  then show "i \<in> glob_reach parts (pre @ [c])"
  proof cases
    case stay
    then obtain a b where "pre = a @ b" "path_sem (take i parts) a"
      using reach_None_Suc [OF stay(2,3,1)] take_Suc_sem(1) [OF stay(2,3)] by blast
    then have "path_sem (take (Suc i) parts) (pre @ [c])"
      using take_Suc_sem(1) [OF stay(2,3)] by (metis append.assoc)
    with stay show ?thesis by (simp add: glob_reach_def)
  next
    case eat
    then have "path_sem (take k parts) pre" by (simp add: glob_reach_def)
    with eat have "path_sem (take (Suc k) parts) (pre @ [c])" by (auto simp: take_Suc_sem(2))
    with eat show ?thesis by (simp add: glob_reach_def)
  qed
qed

text \<open>A component taken by a \<open>**\<close> leaves the state in place.\<close>

lemma any_stays:
  assumes "i < length parts" "parts ! i = None" "path_sem (take (Suc i) parts) (pre @ [c])"
    "\<not> path_sem (take i parts) (pre @ [c])"
  shows "i \<in> glob_move parts c (glob_reach parts pre)"
proof -
  obtain a b where ab: "pre @ [c] = a @ b" "path_sem (take i parts) a"
    using assms take_Suc_sem(1) by blast
  with assms(4) have "b \<noteq> []" by auto
  with ab have "pre = a @ butlast b" by (metis butlast_append butlast_snoc)
  with ab(2) assms(1,2) have "path_sem (take (Suc i) parts) pre" using take_Suc_sem(1) by blast
  with assms(1,2) show ?thesis by (simp add: glob_move_def glob_reach_def)
qed

lemma whole_reached:
  "i \<le> length parts \<Longrightarrow> path_sem (take i parts) (pre @ [c]) \<Longrightarrow>
     i \<in> epsilon parts (glob_move parts c (glob_reach parts pre))"
proof (induction i)
  case (Suc i)
  then have i: "i < length parts" by simp
  show ?case
  proof (cases "parts ! i")
    case None
    have "i \<in> epsilon parts (glob_move parts c (glob_reach parts pre))"
    proof (cases "path_sem (take i parts) (pre @ [c])")
      case True
      with Suc.IH i show ?thesis by simp
    next
      case False
      with any_stays [OF i None Suc.prems(2)] show ?thesis by (subst epsilon_iff) blast
    qed
    with None i show ?thesis by (subst epsilon_iff) blast
  next
    case (Some m)
    then have "path_sem (take i parts) pre" "m c" using Suc.prems(2) i by (auto simp: take_Suc_sem(2))
    with Some i have "Suc i \<in> glob_move parts c (glob_reach parts pre)"
      by (force simp: glob_move_def glob_reach_def)
    then show ?thesis by (subst epsilon_iff) blast
  qed
qed simp

lemma epsilon_move: "epsilon parts (glob_move parts c (glob_reach parts pre)) = glob_reach parts (pre @ [c])"
proof
  show "epsilon parts (glob_move parts c (glob_reach parts pre)) \<subseteq> glob_reach parts (pre @ [c])"
    by (rule epsilon_least [OF move_reach]) (rule reach_closed)
  show "glob_reach parts (pre @ [c]) \<subseteq> epsilon parts (glob_move parts c (glob_reach parts pre))"
  proof
    fix i assume i: "i \<in> glob_reach parts (pre @ [c])"
    show "i \<in> epsilon parts (glob_move parts c (glob_reach parts pre))"
    proof (cases "path_sem (take i parts) (pre @ [c])")
      case True
      with i whole_reached show ?thesis by (auto simp: glob_reach_def)
    next
      case False
      with i any_stays have "i \<in> glob_move parts c (glob_reach parts pre)" by (auto simp: glob_reach_def)
      then show ?thesis by (subst epsilon_iff) blast
    qed
  qed
qed

lemma some_split_Cons: "(\<exists>a b. c # cs = a @ b \<and> P a) \<longleftrightarrow> P [] \<or> (\<exists>a b. cs = a @ b \<and> P (c # a))"
proof
  assume "\<exists>a b. c # cs = a @ b \<and> P a"
  then show "P [] \<or> (\<exists>a b. cs = a @ b \<and> P (c # a))" by (metis append_eq_Cons_conv)
next
  assume "P [] \<or> (\<exists>a b. cs = a @ b \<and> P (c # a))"
  then show "\<exists>a b. c # cs = a @ b \<and> P a" by (metis append_Cons append_Nil)
qed

lemma glob_run_reach:
  assumes "epsilon parts S = glob_reach parts pre"
  shows "glob_run parts ancestors subtree cs S \<longleftrightarrow>
    (subtree \<and> (\<exists>a b. cs = a @ b \<and> path_sem parts (pre @ a))) \<or> path_sem parts (pre @ cs)
      \<or> ancestors \<and> glob_reach parts (pre @ cs) \<noteq> {}"
  using assms
proof (induction cs arbitrary: pre S)
  case Nil
  then show ?case by (auto simp: Let_def reach_whole)
next
  case (Cons c cs)
  have IH: "glob_run parts ancestors subtree cs (glob_move parts c (glob_reach parts pre)) \<longleftrightarrow>
    (subtree \<and> (\<exists>a b. cs = a @ b \<and> path_sem parts ((pre @ [c]) @ a))) \<or> path_sem parts ((pre @ [c]) @ cs)
      \<or> ancestors \<and> glob_reach parts ((pre @ [c]) @ cs) \<noteq> {}"
    by (rule Cons.IH [OF epsilon_move])
  have split: "(\<exists>a b. c # cs = a @ b \<and> path_sem parts (pre @ a)) \<longleftrightarrow>
      path_sem parts pre \<or> (\<exists>a b. cs = a @ b \<and> path_sem parts ((pre @ [c]) @ a))"
    using some_split_Cons [of c cs "\<lambda>a. path_sem parts (pre @ a)"] by simp
  show ?case
  proof (cases "subtree \<and> path_sem parts pre")
    case True
    with Cons.prems split show ?thesis by (simp add: reach_whole)
  next
    case False
    with Cons.prems have run: "glob_run parts ancestors subtree (c # cs) S =
        glob_run parts ancestors subtree cs (glob_move parts c (glob_reach parts pre))"
      by (simp add: reach_whole) blast
    show ?thesis unfolding run IH split using False by (cases subtree) simp_all
  qed
qed

lemma reach_nonempty: "glob_reach parts cs \<noteq> {} \<longleftrightarrow> (\<exists>i \<le> length parts. path_sem (take i parts) cs)"
proof
  assume "glob_reach parts cs \<noteq> {}"
  then show "\<exists>i \<le> length parts. path_sem (take i parts) cs" unfolding glob_reach_def by (auto intro: Suc_leI)
qed (auto simp: glob_reach_def)

lemma sem_prefix_reach: "path_sem ps (a @ b) \<Longrightarrow> \<exists>i \<le> length ps. path_sem (take i ps) a"
proof (induction ps arbitrary: a)
  case (Cons p ps)
  show ?case
  proof (cases p)
    case None
    with Cons.prems obtain x y where xy: "a @ b = x @ y" "path_sem ps y" by (auto simp: sem_None_iff)
    then consider u where "a = x @ u" "y = u @ b" | u where "x = a @ u" by (auto simp: append_eq_append_conv2)
    then show ?thesis
    proof cases
      case (1 u)
      with xy(2) Cons.IH obtain i where "i \<le> length ps" "path_sem (take i ps) u" by blast
      with 1 None show ?thesis by (intro exI [of _ "Suc i"]) (simp add: sem_any)
    next
      case (2 u)
      from None show ?thesis by (intro exI [of _ 1]) (simp add: sem_None_iff)
    qed
  next
    case (Some m)
    with Cons.prems obtain c cs where c: "a @ b = c # cs" "m c" "path_sem ps cs" by (auto simp: sem_Some_iff)
    show ?thesis
    proof (cases a)
      case (Cons x a')
      with c have "path_sem ps (a' @ b)" by simp
      then obtain i where "i \<le> length ps" "path_sem (take i ps) a'" using Cons.IH by blast
      with Some Cons c show ?thesis by (intro exI [of _ "Suc i"]) (simp add: sem_Some_iff)
    qed (intro exI [of _ 0], simp)
  qed
qed simp

lemma reach_extends:
  assumes "\<And>m. Some m \<in> set parts \<Longrightarrow> \<exists>c. m c"
  shows "glob_reach parts cs \<noteq> {} \<longleftrightarrow> (\<exists>ext. path_sem parts (cs @ ext))"
proof
  assume "glob_reach parts cs \<noteq> {}"
  then obtain i where i: "path_sem (take i parts) cs" by (auto simp: reach_nonempty)
  obtain ext where "path_sem (drop i parts) ext"
    using sem_satisfiable [of "drop i parts"] assms by (metis in_set_dropD)
  with i have "path_sem (take i parts @ drop i parts) (cs @ ext)" unfolding sem_append by blast
  then show "\<exists>ext. path_sem parts (cs @ ext)" by auto
next
  assume "\<exists>ext. path_sem parts (cs @ ext)"
  then show "glob_reach parts cs \<noteq> {}" unfolding reach_nonempty using sem_prefix_reach by blast
qed

section \<open>Rules as written\<close>

text \<open>\<open>*\<close> stands for any characters of one component, \<open>?\<close> for one of them. \<open>regex_agrees\<close> is what the code relies on
  of the \<open>regex\<close> crate: the expression built for a component compiles and matches as these wildcards read.\<close>

fun wildcard :: "string list \<Rightarrow> string list \<Rightarrow> bool" where
  "wildcard [] ns = (ns = [])"
| "wildcard (p # ps) [] = (p = ''*'' \<and> wildcard ps [])"
| "wildcard (p # ps) (n # ns) =
     (if p = ''*'' then wildcard ps (n # ns) \<or> wildcard (p # ps) ns else (p = ''?'' \<or> p = n) \<and> wildcard ps ns)"

definition regex_agrees :: "regex_crate \<Rightarrow> string \<Rightarrow> bool" where
  "regex_agrees rx component =
     (rx_new rx (component_regex rx component)
        = Some (\<lambda>name. wildcard (char_strings component) (char_strings name)))"

definition rule_components :: "string \<Rightarrow> string list" where
  "rule_components pattern = split_on CHR ''/'' (trim_end_matches CHR ''/'' (trim_start_matches CHR ''/'' pattern))"

definition component_part :: "string \<Rightarrow> (string \<Rightarrow> bool) option" where
  "component_part component =
     (if component = ''**'' then None else Some (\<lambda>name. wildcard (char_strings component) (char_strings name)))"

definition rule_parts :: "string \<Rightarrow> (string \<Rightarrow> bool) option list" where
  "rule_parts pattern = map component_part (rule_components pattern)"

lemma wildcard_self: "wildcard ps ps"
proof (induction ps)
  case (Cons p ps)
  then show ?case
  proof (cases "p = ''*''")
    case True
    from Cons have "wildcard (''*'' # ps) ps" by (cases ps) auto
    with True show ?thesis by simp
  qed simp
qed simp

lemma rule_parts_satisfiable: "Some m \<in> set (rule_parts pattern) \<Longrightarrow> \<exists>name. m name"
  by (auto simp: rule_parts_def component_part_def split: if_splits) (metis wildcard_self)

lemma glob_parts_rule:
  "glob_parts rx comps = Inr ps \<Longrightarrow> (\<And>c. c \<in> set comps \<Longrightarrow> c \<noteq> ''**'' \<Longrightarrow> regex_agrees rx c)
    \<Longrightarrow> ps = map component_part comps"
proof (induction comps arbitrary: ps)
  case (Cons c comps)
  show ?case
  proof (cases "c = ''**''")
    case True
    with Cons show ?thesis by (cases "glob_parts rx comps") (simp_all add: component_part_def)
  next
    case False
    with Cons.prems(2) [of c] have "regex_agrees rx c" by simp
    with False Cons show ?thesis
      by (cases "glob_parts rx comps") (simp_all add: component_part_def regex_agrees_def split: if_splits)
  qed
qed simp

lemma path_glob_new_parts:
  assumes "path_glob_new rx pattern = Inr g"
    and "\<And>c. c \<in> set (rule_components pattern) \<Longrightarrow> c \<noteq> ''**'' \<Longrightarrow> regex_agrees rx c"
  shows "pg_parts g = rule_parts pattern"
proof -
  obtain ps where "glob_parts rx (rule_components pattern) = Inr ps" "pg_parts g = ps"
    using assms(1)
    by (cases "glob_parts rx (rule_components pattern)")
      (auto simp: path_glob_new_def Let_def rule_components_def split: if_splits)
  with glob_parts_rule assms(2) show ?thesis by (auto simp: rule_parts_def)
qed

definition covers :: "path_glob \<Rightarrow> string \<Rightarrow> bool" where
  "covers g path = (\<exists>a b. path_parts path = a @ b \<and> path_sem (pg_parts g) a)"

lemma protects_covers: "glob_protects g path False \<longleftrightarrow> covers g path"
  using glob_run_reach [OF epsilon_start, of "pg_parts g" False True "path_parts path"]
  by (auto simp: glob_protects_def glob_matches_def covers_def)

lemma protects_ancestors:
  "(\<And>m. Some m \<in> set (pg_parts g) \<Longrightarrow> \<exists>c. m c) \<Longrightarrow>
     glob_protects g path True \<longleftrightarrow> covers g path \<or> (\<exists>below. path_sem (pg_parts g) (path_parts path @ below))"
  using glob_run_reach [OF epsilon_start, of "pg_parts g" True True "path_parts path"]
    reach_extends [of "pg_parts g" "path_parts path"]
  by (simp add: glob_protects_def glob_matches_def covers_def) (metis append.right_neutral)

lemma is_root_sem:
  "glob_is_root g path \<longleftrightarrow> path_sem (take (glob_root_end (pg_parts g)) (pg_parts g)) (path_parts path)"
  using glob_run_reach [OF epsilon_start, of _ False False "path_parts path"]
  by (simp add: glob_is_root_def glob_matches_def)

text \<open>C8: A rule that parses protects a path exactly when the rule, read component by component with \<open>**\<close> for any
  number of components, matches the path or one of its ancestors. When ancestors are asked for, it also protects the
  paths above a possible match. The path is the root of the rule exactly when the rule without its trailing \<open>**\<close>
  components matches it.\<close>

theorem path_rule_decides:
  assumes "path_glob_new rx pattern = Inr g"
    and "\<forall>c \<in> set (rule_components pattern). c \<noteq> ''**'' \<longrightarrow> regex_agrees rx c"
  shows "(glob_protects g path False \<longleftrightarrow> (\<exists>a b. path_parts path = a @ b \<and> path_sem (rule_parts pattern) a))
    \<and> (glob_protects g path True \<longleftrightarrow>
         (\<exists>a b. path_parts path = a @ b \<and> path_sem (rule_parts pattern) a)
         \<or> (\<exists>below. path_sem (rule_parts pattern) (path_parts path @ below)))
    \<and> (glob_is_root g path \<longleftrightarrow>
         path_sem (rev (dropWhile Option.is_none (rev (rule_parts pattern)))) (path_parts path))"
proof -
  have parts: "pg_parts g = rule_parts pattern" using path_glob_new_parts assms by blast
  have "take (glob_root_end ps) ps = rev (dropWhile Option.is_none (rev ps))" for ps :: "(string \<Rightarrow> bool) option list"
    unfolding glob_root_end_def
    by (metis append_eq_conv_conj length_rev rev_append rev_rev_ident takeWhile_dropWhile_id)
  then show ?thesis
    using protects_covers [of g path] protects_ancestors [of g path] is_root_sem [of g path] rule_parts_satisfiable
    unfolding parts covers_def by simp
qed

definition sample_rx :: regex_crate where
  "sample_rx = \<lparr>rx_escape = (\<lambda>s. if s = ''.'' then [CHR 0x5C, CHR ''.''] else s),
     rx_new = (\<lambda>s. if s = ''(?s)^src$'' then Some (\<lambda>name. wildcard [''s'', ''r'', ''c''] (char_strings name))
       else if s = ''(?s)^.*'' @ [CHR 0x5C] @ ''.c$'' then Some (\<lambda>name. wildcard [''*'', ''.'', ''c''] (char_strings name)) else None)\<rparr>"

definition sample_rule :: path_glob where
  "sample_rule = \<lparr>pg_pattern = ''/src/**/*.c'', pg_parts = rule_parts ''/src/**/*.c'', pg_literal_components = 1\<rparr>"

lemma sample_rule_parsed: "path_glob_new sample_rx ''/src/**/*.c'' = Inr sample_rule"
  by (simp add: path_glob_new_def Let_def sample_rx_def component_regex_def sample_rule_def rule_parts_def
      rule_components_def component_part_def trim_start_matches_def trim_end_matches_def seq_width_def byte_val_def)

lemma sample_rx_agrees:
  "\<forall>c \<in> set (rule_components ''/src/**/*.c''). c \<noteq> ''**'' \<longrightarrow> regex_agrees sample_rx c"
  by (simp add: rule_components_def regex_agrees_def sample_rx_def component_regex_def trim_start_matches_def
      trim_end_matches_def seq_width_def byte_val_def)

theorem path_rule_decides_witness:
  "\<exists>a b. path_parts ''/src/lib/a.c/x'' = a @ b \<and> path_sem (rule_parts ''/src/**/*.c'') a"
proof -
  have "glob_protects sample_rule ''/src/lib/a.c/x'' False" by code_simp
  with path_rule_decides [OF sample_rule_parsed sample_rx_agrees, of "''/src/lib/a.c/x''"] show ?thesis by blast
qed

section \<open>Accepted mutations\<close>

fun read_only_rules :: "overlay_policy \<Rightarrow> read_only_globs list" where
  "read_only_rules (ReadOnlyPolicy ro) = [ro]"
| "read_only_rules (QuotaPolicy q) = []"
| "read_only_rules (CompositePolicy ps) = concat (map read_only_rules ps)"

lemma best_match_Max:
  "best_match P gs =
     (if {g \<in> set gs. P g} = {} then None else Some (Max (pg_literal_components ` {g \<in> set gs. P g})))"
proof (cases "filter P gs")
  case Nil
  then have "{g \<in> set gs. P g} = {}" by (metis set_filter list.set(1))
  with Nil show ?thesis by (simp add: best_match_def)
next
  case (Cons z zs)
  then have "{g \<in> set gs. P g} = insert z (set zs)" by (metis set_filter list.set(2))
  with Cons show ?thesis by (simp add: best_match_def)
qed

lemma best_match_None: "best_match P gs = None \<longleftrightarrow> (\<forall>g \<in> set gs. \<not> P g)"
  by (auto simp: best_match_Max)

lemma best_match_Some:
  assumes "best_match P gs = Some n"
  shows "(\<exists>g \<in> set gs. P g \<and> pg_literal_components g = n)
     \<and> (\<forall>g \<in> set gs. P g \<longrightarrow> pg_literal_components g \<le> n)"
proof -
  let ?ns = "pg_literal_components ` {g \<in> set gs. P g}"
  from assms have "?ns \<noteq> {}" "n = Max ?ns" by (auto simp: best_match_Max split: if_splits)
  then have "n \<in> ?ns" "\<And>k. k \<in> ?ns \<Longrightarrow> k \<le> n" by (auto intro: Max_in)
  then show ?thesis by auto
qed

lemma not_outranked:
  "\<not> outranks (best_match P gs) (best_match Q as) \<longleftrightarrow>
     (\<forall>g \<in> set gs. P g \<longrightarrow> (\<exists>a \<in> set as. Q a \<and> pg_literal_components g \<le> pg_literal_components a))"
proof (cases "best_match P gs")
  case None
  then show ?thesis by (simp add: outranks_def) (simp add: best_match_None)
next
  case (Some n)
  note gs = best_match_Some [OF Some]
  show ?thesis
  proof (cases "best_match Q as")
    case None
    then have "\<forall>a \<in> set as. \<not> Q a" by (simp add: best_match_None)
    with Some None gs show ?thesis by (auto simp: outranks_def)
  next
    case (Some k)
    note as = best_match_Some [OF Some]
    with gs \<open>best_match P gs = Some n\<close> Some show ?thesis
      by (simp add: outranks_def not_less) (metis order_trans)
  qed
qed

lemma protects_mono: "covers g path \<Longrightarrow> glob_protects g path ancestors"
  using glob_run_reach [OF epsilon_start, of "pg_parts g" ancestors True "path_parts path"]
  by (simp add: glob_protects_def glob_matches_def covers_def)

lemma not_denied_allowed:
  assumes "\<not> denies_path ro path ancestors" "g \<in> set (ro_globs ro)" "covers g path"
  shows "\<exists>a \<in> set (ro_allows ro). covers a path \<and> pg_literal_components g \<le> pg_literal_components a"
  using assms protects_mono [OF assms(3)] unfolding denies_path_def
  by (auto simp: not_outranked protects_covers)

lemma not_denied_below:
  assumes "\<not> denies_path ro path True" "g \<in> set (ro_globs ro)" "path_sem (pg_parts g) (path_parts path @ below)"
  shows "\<exists>a \<in> set (ro_allows ro). covers a path \<and> pg_literal_components g \<le> pg_literal_components a"
proof -
  have "glob_reach (pg_parts g) (path_parts path) \<noteq> {}"
    unfolding reach_nonempty by (rule sem_prefix_reach [OF assms(3)])
  then have "glob_protects g path True"
    using glob_run_reach [OF epsilon_start, of "pg_parts g" True True "path_parts path"]
    by (simp add: glob_protects_def glob_matches_def)
  with assms show ?thesis unfolding denies_path_def by (auto simp: not_outranked protects_covers)
qed

lemma ro_check_paths_ok:
  "ro_check_paths canon op paths ro = (Inr u, ro') \<Longrightarrow> path \<in> set paths \<Longrightarrow>
     \<not> denies_path ro path (ancestor_op op)
     \<and> (\<forall>r. resolved_parent_path canon ro path = Some r \<longrightarrow> \<not> denies_path ro r (ancestor_op op))
     \<and> (ro_globs ro \<noteq> [] \<and> replaces_name op \<longrightarrow>
          copy_below canon ro path (resolved_parent_path canon ro path) = None)"
proof (induction paths)
  case (Cons p paths)
  let ?r = "resolved_parent_path canon ro p"
  have clear: "\<not> denies_path ro p (ancestor_op op)" "\<not> (case ?r of None \<Rightarrow> False | Some r \<Rightarrow> denies_path ro r (ancestor_op op))"
    using Cons.prems(1) by (auto simp: deny_def Let_def split: if_splits)
  have rest: "ro_check_paths canon op paths ro = (Inr u, ro')"
    and free: "ro_globs ro \<noteq> [] \<and> replaces_name op \<longrightarrow> copy_below canon ro p ?r = None"
    using Cons.prems(1) clear by (auto simp: deny_def Let_def split: if_splits option.splits)
  show ?case
  proof (cases "path = p")
    case True
    with clear free show ?thesis by auto
  next
    case False
    with Cons rest show ?thesis by simp
  qed
qed simp

lemma copy_below_None:
  "copy_below canon ro path resolved = None \<Longrightarrow> ((t, copying), n) \<in> set (cr_copies (ro_cow ro)) \<Longrightarrow>
     \<not> is_parent path copying"
  by (auto simp: copy_below_def find_None_iff)

lemma check_mutation_each:
  "check_mutation h t op paths p = (Inr u, p') \<Longrightarrow> ro \<in> set (read_only_rules p) \<Longrightarrow>
     \<exists>v ro'. ro_check_paths (hv_canon h) op paths ro = (Inr v, ro')"
  "check_mutation_all h t op paths ps = (Inr u, ps') \<Longrightarrow> p \<in> set ps \<Longrightarrow> ro \<in> set (read_only_rules p) \<Longrightarrow>
     \<exists>v ro'. ro_check_paths (hv_canon h) op paths ro = (Inr v, ro')"
proof (induction h t op paths p and h t op paths ps arbitrary: u p' and u ps' p
    rule: check_mutation_check_mutation_all.induct)
  case (3 h t op paths ps)
  then show ?case by (cases "check_mutation_all h t op paths ps") auto
next
  case (5 h t op paths q ps)
  obtain q' where q: "check_mutation h t op paths q = (Inr (), q')"
    using 5(3) by (auto split: prod.splits sum.splits)
  obtain ps'' where ps: "check_mutation_all h t op paths ps = (Inr (), ps'')"
    using 5(3) q by (cases "check_mutation_all h t op paths ps") auto
  show ?case
  proof (cases "p = q")
    case True
    with 5(1) [OF q] 5(5) show ?thesis by blast
  next
    case False
    with 5(4) have "p \<in> set ps" by simp
    with 5(2) [OF q [symmetric] refl ps _ 5(5)] show ?thesis by blast
  qed
qed (auto simp: ro_check_mutation_def split: prod.splits sum.splits)

text \<open>C9: When a mutation passes the installed policies, no path it names, nor the path its host parent resolves to,
  is covered by a read-only rule, except below an allow rule with at least as many literal components. For a rename,
  a directory removal or a reset the same holds of every rule that could match below the path, and no copy-on-write of a path below one that is removed or replaced is under way.\<close>

theorem accepted_mutation_unprotected:
  assumes "check_mutation h t op paths p = (Inr (), p')"
    and "ro \<in> set (read_only_rules p)" and "path \<in> set paths" and "g \<in> set (ro_globs ro)"
    and "named = path \<or> resolved_parent_path (hv_canon h) ro path = Some named"
  shows "(covers g named \<or> ancestor_op op \<and> path_sem (pg_parts g) (path_parts named @ below) \<longrightarrow>
      (\<exists>a \<in> set (ro_allows ro). covers a named \<and> pg_literal_components g \<le> pg_literal_components a))
    \<and> (replaces_name op \<and> ((t', copying), n) \<in> set (cr_copies (ro_cow ro)) \<longrightarrow> \<not> is_parent path copying)"
proof -
  obtain v ro' where "ro_check_paths (hv_canon h) op paths ro = (Inr v, ro')"
    using check_mutation_each(1) [OF assms(1,2)] by blast
  note ok = ro_check_paths_ok [OF this assms(3)]
  with assms(5) have "\<not> denies_path ro named (ancestor_op op)" by auto
  then have "covers g named \<or> ancestor_op op \<and> path_sem (pg_parts g) (path_parts named @ below) \<longrightarrow>
      (\<exists>a \<in> set (ro_allows ro). covers a named \<and> pg_literal_components g \<le> pg_literal_components a)"
    using not_denied_allowed [OF _ assms(4)] not_denied_below [OF _ assms(4)] by (cases "ancestor_op op") auto
  moreover have "ro_globs ro \<noteq> []" using assms(4) by auto
  ultimately show ?thesis using ok copy_below_None by blast
qed

definition sample_rules :: read_only_globs where
  "sample_rules = \<lparr>ro_globs = [sample_rule], ro_allows = [], ro_overlay_root = None, ro_cow = cow_default,
     ro_erofs_denied = 0, ro_denial_observer = None\<rparr>"

definition sample_host :: host_view where
  "sample_host = \<lparr>hv_canon = (\<lambda>_. CanonFails), hv_exists = (\<lambda>_. False)\<rparr>"

definition sample_policy :: overlay_policy where
  "sample_policy = CompositePolicy [ReadOnlyPolicy sample_rules,
     QuotaPolicy \<lparr>oq_byte_limit = Some 10, oq_file_limit = Some 2, oq_bytes = 4, oq_files = 1, oq_cow = cow_default\<rparr>]"

theorem accepted_mutation_unprotected_witness:
  "check_mutation sample_host 0 Create [''/src/doc/x''] sample_policy
     = (Inr (), snd (check_mutation sample_host 0 Create [''/src/doc/x''] sample_policy))
   \<and> \<not> covers sample_rule ''/src/doc/x''"
proof -
  let ?r = "check_mutation sample_host 0 Create [''/src/doc/x''] sample_policy"
  have "fst ?r = Inr ()" by code_simp
  then have ok: "?r = (Inr (), snd ?r)" by (metis prod.collapse)
  show ?thesis
    using accepted_mutation_unprotected [OF ok, of sample_rules "''/src/doc/x''" sample_rule] ok
    by (auto simp: sample_policy_def sample_rules_def)
qed

end
