(* ===== verification/Overlay_Quota.thy ===== *)
theory Overlay_Quota
  imports Overlay_Policy
begin

text \<open>
  The write overlay as its quota sees it: the policy sections of \<^verbatim>\<open>write_overlay.rs\<close> (creation, positional writes,
  truncation, links, removal, renames, reset, copy-on-write with its reservation, unlinked open files) over the host
  names and lengths, interleaved between threads. The checks of a section run under the policy gate, so a section is
  one step; a copy-on-write is several. A host call that fails after the checks leaves what a refused section leaves.
\<close>

section \<open>State\<close>

text \<open>\<open>ow_files\<close> are the files and links of the overlay folder with their lengths, \<open>ow_copies\<close> the copies under way
  (\<open>CowReservation\<close> with the position read so far), \<open>ow_orphans\<close> the open files without a name, with the growth
  charged to them.\<close>

record cow_copy =
  cc_bytes :: u64
  cc_offset :: u64
  cc_size :: u64
  cc_truncate :: "u64 option"

record orphan =
  or_size :: u64
  or_growth :: "(string \<times> u64) option"

record overlay_world =
  ow_quota :: overlay_quota
  ow_files :: "(string \<times> u64) list"
  ow_dirs :: "string set"
  ow_copies :: "(cow_key \<times> cow_copy) list"
  ow_orphans :: "(nat \<times> orphan) list"

definition host_exists :: "overlay_world \<Rightarrow> string \<Rightarrow> bool" where
  "host_exists w p = (map_of (ow_files w) p \<noteq> None \<or> p \<in> ow_dirs w)"

definition policy_file_size :: "overlay_world \<Rightarrow> string \<Rightarrow> u64 option" where
  "policy_file_size w p = map_of (ow_files w) p"

definition idle :: "overlay_world \<Rightarrow> nat \<Rightarrow> bool" where
  "idle w t = list_all (\<lambda>((t', _), _). t' \<noteq> t) (ow_copies w)"

section \<open>Accounting\<close>

definition account_drop :: "nat \<Rightarrow> string \<Rightarrow> u64 option \<Rightarrow> u64 option \<Rightarrow> overlay_quota \<Rightarrow> overlay_quota" where
  "account_drop t path before after q =
     (let q1 = (if Option.is_none before \<and> \<not> Option.is_none after then quota_file_created t path q else q);
          old = (case before of None \<Rightarrow> 0 | Some n \<Rightarrow> n); new = (case after of None \<Rightarrow> 0 | Some n \<Rightarrow> n);
          q2 = (if old \<noteq> new then quota_bytes_changed t path (saturating_sub new old) (saturating_sub old new) q1 else q1)
      in if \<not> Option.is_none before \<and> Option.is_none after then quota_file_removed q2 else q2)"

definition set_file :: "nat \<Rightarrow> string \<Rightarrow> u64 option \<Rightarrow> overlay_world \<Rightarrow> overlay_world" where
  "set_file t p after w =
     w\<lparr>ow_quota := account_drop t p (policy_file_size w p) after (ow_quota w),
       ow_files := (case after of None \<Rightarrow> AList.delete p (ow_files w) | Some n \<Rightarrow> AList.update p n (ow_files w))\<rparr>"

definition account_orphan :: "nat \<Rightarrow> string \<Rightarrow> u64 \<Rightarrow> u64 \<Rightarrow> orphan \<Rightarrow> overlay_quota \<Rightarrow> orphan \<times> overlay_quota" where
  "account_orphan t path added removed o1 q =
     (let (p, g) = (case or_growth o1 of None \<Rightarrow> (path, 0) | Some entry \<Rightarrow> entry); freed = min removed g
      in (o1\<lparr>or_growth := Some (p, g + added - freed)\<rparr>, quota_bytes_changed t p added freed q))"

section \<open>Sections\<close>

type_synonym section_result = "(io_error + unit) \<times> overlay_world"

definition world_check :: "nat \<Rightarrow> overlay_mutation \<Rightarrow> string list \<Rightarrow> overlay_world \<Rightarrow> section_result" where
  "world_check t op paths w =
     (let (r, q) = quota_check_mutation (host_exists w) t op paths (ow_quota w) in (r, w\<lparr>ow_quota := q\<rparr>))"

definition world_check_write :: "nat \<Rightarrow> string \<Rightarrow> u64 \<Rightarrow> u64 \<Rightarrow> u64 \<Rightarrow> overlay_world \<Rightarrow> io_error + unit" where
  "world_check_write t path offset len sz w = quota_check_write (host_exists w) t path offset len sz (ow_quota w)"

definition then_do :: "section_result \<Rightarrow> (overlay_world \<Rightarrow> section_result) \<Rightarrow> section_result" where
  "then_do r f = (case r of (Inl e, w) \<Rightarrow> (Inl e, w) | (Inr _, w) \<Rightarrow> f w)"

definition if_writable ::
  "nat \<Rightarrow> string \<Rightarrow> u64 \<Rightarrow> u64 \<Rightarrow> u64 \<Rightarrow> (overlay_world \<Rightarrow> section_result) \<Rightarrow> overlay_world \<Rightarrow> section_result" where
  "if_writable t path offset len sz f w =
     (case world_check_write t path offset len sz w of Inl e \<Rightarrow> (Inl e, w) | Inr _ \<Rightarrow> f w)"

text \<open>The names of the overlay's own bookkeeping are refused before any check.\<close>

definition refuse_internal :: "string list \<Rightarrow> (overlay_world \<Rightarrow> section_result) \<Rightarrow> overlay_world \<Rightarrow> section_result" where
  "refuse_internal paths f w =
     (if list_ex is_overlay_internal_path paths then (Inl (IoError PermissionDenied ''overlay internal path''), w) else f w)"

definition create_file :: "nat \<Rightarrow> string \<Rightarrow> overlay_world \<Rightarrow> section_result" where
  "create_file t p w =
     then_do (world_check t Create [p] w) (\<lambda>w.
       if_writable t p 0 0 (case policy_file_size w p of None \<Rightarrow> 0 | Some n \<Rightarrow> n) (\<lambda>w.
         if p \<in> ow_dirs w then (Inl (IoError IsADirectory p), w) else (Inr (), set_file t p (Some 0) w)) w)"

definition create_symlink :: "nat \<Rightarrow> string \<Rightarrow> u64 \<Rightarrow> overlay_world \<Rightarrow> section_result" where
  "create_symlink t p target_len w =
     then_do (world_check t Symlink [p] w) (\<lambda>w.
       if target_len = 0 then (Inl (IoError InvalidInput ''empty symlink target''), w)
       else if host_exists w p then (Inl (IoError AlreadyExists ''symlink destination exists''), w)
       else if_writable t p 0 target_len 0 (\<lambda>w. (Inr (), set_file t p (Some target_len) w)) w)"

text \<open>A descriptor keeps the name \<open>label\<close> it was opened with; \<open>p\<close> is the name its file has now.\<close>

definition write_at :: "nat \<Rightarrow> string \<Rightarrow> string \<Rightarrow> u64 \<Rightarrow> u64 \<Rightarrow> u64 \<Rightarrow> overlay_world \<Rightarrow> section_result" where
  "write_at t label p offset len written w =
     then_do (world_check t Write [label] w) (\<lambda>w.
       case policy_file_size w p of
         None \<Rightarrow> (Inl (IoError NotFound p), w)
       | Some sz \<Rightarrow>
           if_writable t label offset len sz (\<lambda>w.
             let added = (if written = 0 then 0 else saturating_sub (saturating_add offset written) sz) in
             (Inr (), w\<lparr>ow_files := AList.update p (sz + added) (ow_files w),
               ow_quota := (if added \<noteq> 0 then quota_bytes_changed t label added 0 (ow_quota w) else ow_quota w)\<rparr>)) w)"

definition truncate_file :: "nat \<Rightarrow> string \<Rightarrow> string \<Rightarrow> u64 \<Rightarrow> overlay_world \<Rightarrow> section_result" where
  "truncate_file t label p sz w =
     then_do (world_check t Truncate [label] w) (\<lambda>w.
       case policy_file_size w p of
         None \<Rightarrow> (Inl (IoError NotFound p), w)
       | Some old \<Rightarrow>
           if_writable t label sz 0 old (\<lambda>w.
             (Inr (), w\<lparr>ow_files := AList.update p sz (ow_files w),
               ow_quota := quota_bytes_changed t label (saturating_sub sz old) (saturating_sub old sz) (ow_quota w)\<rparr>)) w)"

definition add_orphan :: "nat option \<Rightarrow> u64 option \<Rightarrow> overlay_world \<Rightarrow> overlay_world" where
  "add_orphan ino sz w =
     (case (ino, sz) of
        (Some i, Some n) \<Rightarrow> w\<lparr>ow_orphans := (i, \<lparr>or_size = n, or_growth = None\<rparr>) # ow_orphans w\<rparr>
      | _ \<Rightarrow> w)"

text \<open>\<open>ino\<close> is the inode that stays open without a name, when there is one.\<close>

definition unlink :: "nat \<Rightarrow> string \<Rightarrow> nat option \<Rightarrow> overlay_world \<Rightarrow> section_result" where
  "unlink t p ino w =
     then_do (world_check t Unlink [p] w) (\<lambda>w.
       (Inr (), add_orphan ino (policy_file_size w p) (set_file t p None w)))"

text \<open>The second section of a rename, after its check and after the copy of \<open>from\<close>: the account of the new name is
  dropped before that of the old one.\<close>

definition rename :: "nat \<Rightarrow> string \<Rightarrow> string \<Rightarrow> nat option \<Rightarrow> overlay_world \<Rightarrow> section_result" where
  "rename t from to ino w =
     (if from = to then (Inl (IoError InvalidInput ''invalid rename paths''), w)
      else case policy_file_size w from of
        None \<Rightarrow> (Inl (IoError NotFound from), w)
      | Some n \<Rightarrow>
          if to \<in> ow_dirs w then (Inl (IoError AlreadyExists ''rename destination is a directory''), w)
          else (Inr (), add_orphan ino (policy_file_size w to) (set_file t from None (set_file t to (Some n) w))))"

definition mkdir :: "nat \<Rightarrow> string \<Rightarrow> overlay_world \<Rightarrow> section_result" where
  "mkdir t p w =
     then_do (world_check t Mkdir [p] w) (\<lambda>w.
       if \<not> Option.is_none (policy_file_size w p) then (Inl (IoError AlreadyExists p), w)
       else (Inr (), w\<lparr>ow_dirs := insert p (ow_dirs w)\<rparr>))"

definition rmdir :: "nat \<Rightarrow> string \<Rightarrow> overlay_world \<Rightarrow> section_result" where
  "rmdir t p w = then_do (world_check t Rmdir [p] w) (\<lambda>w. (Inr (), w\<lparr>ow_dirs := ow_dirs w - {p}\<rparr>))"

fun remove_each :: "nat \<Rightarrow> string list \<Rightarrow> overlay_world \<Rightarrow> overlay_world" where
  "remove_each t [] w = w"
| "remove_each t (p # ps) w = remove_each t ps (set_file t p None w)"

fun check_each :: "nat \<Rightarrow> string list \<Rightarrow> overlay_world \<Rightarrow> section_result" where
  "check_each t [] w = (Inr (), w)"
| "check_each t (p # ps) w = then_do (world_check t Unlink [p] w) (check_each t ps)"

definition reset_overlay_contents :: "nat \<Rightarrow> overlay_world \<Rightarrow> section_result" where
  "reset_overlay_contents t w =
     then_do (world_check t Reset [''/''] w) (\<lambda>w.
       then_do (check_each t (map fst (ow_files w)) w) (\<lambda>w.
         (Inr (), (remove_each t (map fst (ow_files w)) w)\<lparr>ow_dirs := {}\<rparr>)))"

text \<open>Open files without a name: growth is charged until the last descriptor closes.\<close>

definition write_orphan :: "nat \<Rightarrow> string \<Rightarrow> nat \<Rightarrow> u64 \<Rightarrow> u64 \<Rightarrow> u64 \<Rightarrow> overlay_world \<Rightarrow> section_result" where
  "write_orphan t label ino offset len written w =
     then_do (world_check t Write [label] w) (\<lambda>w.
       case map_of (ow_orphans w) ino of
         None \<Rightarrow> (Inl (IoError NotFound label), w)
       | Some o1 \<Rightarrow>
           if_writable t label offset len (or_size o1) (\<lambda>w.
             let added = (if written = 0 then 0 else saturating_sub (saturating_add offset written) (or_size o1));
                 (o2, q) = account_orphan t label added 0 o1 (ow_quota w)
             in (Inr (), w\<lparr>ow_orphans := AList.update ino (o2\<lparr>or_size := or_size o1 + added\<rparr>) (ow_orphans w),
                           ow_quota := q\<rparr>)) w)"

definition truncate_orphan :: "nat \<Rightarrow> string \<Rightarrow> nat \<Rightarrow> u64 \<Rightarrow> overlay_world \<Rightarrow> section_result" where
  "truncate_orphan t label ino sz w =
     then_do (world_check t Truncate [label] w) (\<lambda>w.
       case map_of (ow_orphans w) ino of
         None \<Rightarrow> (Inl (IoError NotFound label), w)
       | Some o1 \<Rightarrow>
           if_writable t label sz 0 (or_size o1) (\<lambda>w.
             let (o2, q) = account_orphan t label (saturating_sub sz (or_size o1)) (saturating_sub (or_size o1) sz) o1
                   (ow_quota w)
             in (Inr (), w\<lparr>ow_orphans := AList.update ino (o2\<lparr>or_size := sz\<rparr>) (ow_orphans w), ow_quota := q\<rparr>)) w)"

definition release_orphan :: "nat \<Rightarrow> nat \<Rightarrow> overlay_world \<Rightarrow> overlay_world" where
  "release_orphan t ino w =
     (case map_of (ow_orphans w) ino of
        None \<Rightarrow> w
      | Some o1 \<Rightarrow>
          w\<lparr>ow_orphans := AList.delete ino (ow_orphans w),
            ow_quota := (case or_growth o1 of None \<Rightarrow> ow_quota w
              | Some (path, n) \<Rightarrow> quota_bytes_changed t path 0 n (ow_quota w))\<rparr>)"

section \<open>Copy-on-write\<close>

text \<open>\<open>cow_begin\<close> reserves, \<open>cow_read\<close> accounts one block of the copy, \<open>cow_publish\<close> settles and names the file, and
  \<open>cow_drop\<close> is the refund of a copy that fails. A link is copied within one section.\<close>

definition cow_begin :: "nat \<Rightarrow> string \<Rightarrow> u64 \<Rightarrow> u64 option \<Rightarrow> overlay_world \<Rightarrow> section_result" where
  "cow_begin t p sz limit w =
     (if host_exists w p then (Inr (), w)
      else then_do (world_check t CopyOnWrite [p] w) (\<lambda>w. then_do (world_check t Write [p] w) (\<lambda>w.
        let bytes = (case limit of None \<Rightarrow> sz | Some n \<Rightarrow> n) in
        if_writable t p 0 bytes 0 (\<lambda>w.
          (Inr (), w\<lparr>ow_quota := quota_bytes_changed t p bytes 0 (ow_quota w),
            ow_copies := ((t, p), \<lparr>cc_bytes = bytes, cc_offset = 0, cc_size = sz, cc_truncate = limit\<rparr>)
              # ow_copies w\<rparr>)) w)))"

definition cow_link :: "nat \<Rightarrow> string \<Rightarrow> u64 \<Rightarrow> overlay_world \<Rightarrow> section_result" where
  "cow_link t p len w =
     (if host_exists w p then (Inr (), w)
      else then_do (world_check t CopyOnWrite [p] w) (\<lambda>w.
        if_writable t p 0 len 0 (\<lambda>w. (Inr (), set_file t p (Some len) w)) w))"

definition within_limit :: "cow_copy \<Rightarrow> u64 \<Rightarrow> bool" where
  "within_limit c n = (case cc_truncate c of None \<Rightarrow> True | Some s \<Rightarrow> unat (cc_offset c) + unat n \<le> unat s)"

definition cow_read :: "nat \<Rightarrow> string \<Rightarrow> u64 \<Rightarrow> overlay_world \<Rightarrow> section_result" where
  "cow_read t p n w =
     (case map_of (ow_copies w) (t, p) of
        None \<Rightarrow> (Inr (), w)
      | Some c \<Rightarrow>
          let end_pos = cc_offset c + n in
          if end_pos > cc_bytes c then
            if_writable t p 0 end_pos (cc_bytes c) (\<lambda>w.
              (Inr (), w\<lparr>ow_quota := quota_bytes_changed t p (end_pos - cc_bytes c) 0 (ow_quota w),
                ow_copies := AList.update (t, p) (c\<lparr>cc_bytes := end_pos, cc_offset := end_pos\<rparr>) (ow_copies w)\<rparr>)) w
          else (Inr (), w\<lparr>ow_copies := AList.update (t, p) (c\<lparr>cc_offset := end_pos\<rparr>) (ow_copies w)\<rparr>))"

definition cow_drop :: "nat \<Rightarrow> string \<Rightarrow> overlay_world \<Rightarrow> overlay_world" where
  "cow_drop t p w =
     (case map_of (ow_copies w) (t, p) of
        None \<Rightarrow> w
      | Some c \<Rightarrow> w\<lparr>ow_quota := quota_bytes_changed t p 0 (cc_bytes c) (ow_quota w),
                    ow_copies := AList.delete (t, p) (ow_copies w)\<rparr>)"

definition cow_expected :: "cow_copy \<Rightarrow> u64" where
  "cow_expected c = (case cc_truncate c of None \<Rightarrow> cc_size c | Some limit \<Rightarrow> min (cc_size c) limit)"

definition cow_publish :: "nat \<Rightarrow> string \<Rightarrow> overlay_world \<Rightarrow> section_result" where
  "cow_publish t p w =
     (case map_of (ow_copies w) (t, p) of
        None \<Rightarrow> (Inr (), w)
      | Some c \<Rightarrow>
          if cc_offset c \<noteq> cow_expected c then (Inl (IoError InvalidData ''length''), cow_drop t p w)
          else if host_exists w p then (Inr (), cow_drop t p w)
          else
            let actual = (case cc_truncate c of None \<Rightarrow> cc_offset c | Some s \<Rightarrow> s);
                q = quota_file_created t p (quota_bytes_changed t p 0 (cc_bytes c - actual) (ow_quota w))
            in (Inr (), w\<lparr>ow_quota := quota_bytes_changed t p 0 0 q,
                  ow_files := AList.update p actual (ow_files w),
                  ow_copies := AList.delete (t, p) (ow_copies w)\<rparr>))"

section \<open>Interleavings\<close>

text \<open>A thread that copies does nothing else until the copy ends. With \<open>strict\<close>, no write is made by a thread that
  still holds a copy-on-write check for the name it writes through, nor a rename of such a name (the check of a rename
  clears them). \<open>step_parents\<close> is the creation of parent directories, which calls no policy. Conditions on the archive
  below only add refusals.\<close>

definition no_stale_check :: "bool \<Rightarrow> nat \<Rightarrow> string \<Rightarrow> overlay_world \<Rightarrow> bool" where
  "no_stale_check strict t label w = (strict \<longrightarrow> (t, label) \<notin> cr_checks (oq_cow (ow_quota w)))"

definition orphan_label :: "nat \<Rightarrow> string \<Rightarrow> overlay_world \<Rightarrow> string" where
  "orphan_label ino label w =
     (case map_of (ow_orphans w) ino of
        Some o1 \<Rightarrow> (case or_growth o1 of Some (p, _) \<Rightarrow> p | None \<Rightarrow> label) | None \<Rightarrow> label)"

definition fresh_ino :: "nat option \<Rightarrow> overlay_world \<Rightarrow> bool" where
  "fresh_ino ino w = (case ino of None \<Rightarrow> True | Some i \<Rightarrow> i \<notin> fst ` set (ow_orphans w))"

inductive overlay_step :: "bool \<Rightarrow> overlay_world \<Rightarrow> overlay_world \<Rightarrow> bool" for strict :: bool where
  step_refused: "idle w t \<Longrightarrow> overlay_step strict w (snd (world_check t op paths w))"
| step_create: "idle w t \<Longrightarrow> overlay_step strict w (snd (refuse_internal [p] (create_file t p) w))"
| step_symlink: "idle w t \<Longrightarrow> overlay_step strict w (snd (refuse_internal [p] (create_symlink t p n) w))"
| step_write: "idle w t \<Longrightarrow> written \<le> len \<Longrightarrow> no_stale_check strict t label w
    \<Longrightarrow> overlay_step strict w (snd (refuse_internal [label] (write_at t label p offset len written) w))"
| step_truncate: "idle w t \<Longrightarrow> overlay_step strict w (snd (refuse_internal [label] (truncate_file t label p sz) w))"
| step_unlink: "idle w t \<Longrightarrow> fresh_ino ino w \<Longrightarrow> overlay_step strict w (snd (refuse_internal [p] (unlink t p ino) w))"
| step_rename: "idle w t \<Longrightarrow> fresh_ino ino w \<Longrightarrow> no_stale_check strict t src w \<Longrightarrow> no_stale_check strict t dst w
    \<Longrightarrow> overlay_step strict w (snd (refuse_internal [src, dst] (rename t src dst ino) w))"
| step_mkdir: "idle w t \<Longrightarrow> overlay_step strict w (snd (refuse_internal [p] (mkdir t p) w))"
| step_parents: "\<forall>p \<in> dirs. map_of (ow_files w) p = None \<Longrightarrow> overlay_step strict w (w\<lparr>ow_dirs := dirs\<rparr>)"
| step_rmdir: "idle w t \<Longrightarrow> overlay_step strict w (snd (refuse_internal [p] (rmdir t p) w))"
| step_reset: "idle w t \<Longrightarrow> overlay_step strict w (snd (reset_overlay_contents t w))"
| step_write_orphan: "idle w t \<Longrightarrow> written \<le> len \<Longrightarrow> no_stale_check strict t (orphan_label ino label w) w
    \<Longrightarrow> overlay_step strict w (snd (refuse_internal [label] (write_orphan t label ino offset len written) w))"
| step_truncate_orphan: "idle w t
    \<Longrightarrow> overlay_step strict w (snd (refuse_internal [label] (truncate_orphan t label ino sz) w))"
| step_release: "idle w t \<Longrightarrow> no_stale_check strict t (orphan_label ino [] w) w
    \<Longrightarrow> overlay_step strict w (release_orphan t ino w)"
| step_cow_begin: "idle w t \<Longrightarrow> overlay_step strict w (snd (refuse_internal [p] (cow_begin t p sz limit) w))"
| step_cow_link: "idle w t \<Longrightarrow> overlay_step strict w (snd (refuse_internal [p] (cow_link t p len) w))"
| step_cow_read: "map_of (ow_copies w) (t, p) = Some c \<Longrightarrow> within_limit c n
    \<Longrightarrow> overlay_step strict w (snd (cow_read t p n w))"
| step_cow_publish: "overlay_step strict w (snd (cow_publish t p w))"
| step_cow_drop: "overlay_step strict w (cow_drop t p w)"

inductive overlay_reach :: "bool \<Rightarrow> overlay_world \<Rightarrow> overlay_world \<Rightarrow> bool" for strict :: bool and w0 :: overlay_world where
  reach_start: "overlay_reach strict w0 w0"
| reach_step: "overlay_reach strict w0 w \<Longrightarrow> overlay_step strict w w' \<Longrightarrow> overlay_reach strict w0 w'"

end
