(* ===== verification/Quota_Invariant.thy ===== *)
theory Quota_Invariant
  imports Overlay_Quota
begin

text \<open>
  What the quota guarantees over every interleaving of overlay sections: the accounted bytes are the lengths of the
  files in the folder, plus the running reservations, plus the growth of unlinked open files, and stay within the
  limit.
\<close>

declare Option.is_none_def [simp]

section \<open>Sums over association lists\<close>

definition asum :: "('v \<Rightarrow> nat) \<Rightarrow> ('k \<times> 'v) list \<Rightarrow> nat" where
  "asum f xs = sum_list (map (\<lambda>x. f (snd x)) xs)"

definition opt_val :: "('v \<Rightarrow> nat) \<Rightarrow> 'v option \<Rightarrow> nat" where
  "opt_val f v = (case v of None \<Rightarrow> 0 | Some x \<Rightarrow> f x)"

lemma opt_val_simps [simp]: "opt_val f None = 0" "opt_val f (Some x) = f x"
  by (simp_all add: opt_val_def)

lemma asum_Nil [simp]: "asum f [] = 0"
  by (simp add: asum_def)

lemma asum_Cons [simp]: "asum f ((k, v) # xs) = f v + asum f xs"
  by (simp add: asum_def)

lemma asum_update:
  "distinct (map fst xs) \<Longrightarrow> asum f (AList.update k v xs) + opt_val f (map_of xs k) = asum f xs + f v"
  by (induction xs) auto

lemma asum_absent: "map_of xs k = None \<Longrightarrow> AList.delete k xs = xs"
  by (simp add: delete_id map_of_eq_None_iff)

lemma asum_delete:
  "distinct (map fst xs) \<Longrightarrow> asum f (AList.delete k xs) + opt_val f (map_of xs k) = asum f xs"
proof (induction xs)
  case (Cons x xs)
  obtain k' v where x: "x = (k', v)" by (cases x)
  show ?case
  proof (cases "k' = k")
    case True
    with Cons.prems x have "map_of xs k = None" by (simp add: map_of_eq_None_iff)
    with True x show ?thesis by (simp add: asum_absent)
  qed (use Cons x in auto)
qed simp

lemma in_set_update: "x \<in> set (AList.update k v xs) \<Longrightarrow> x = (k, v) \<or> x \<in> set xs"
  by (induction xs) (auto split: if_splits)

lemma length_update:
  "distinct (map fst xs) \<Longrightarrow>
     length (AList.update k v xs) = (if map_of xs k = None then Suc (length xs) else length xs)"
  by (induction xs) auto

lemma length_delete:
  "distinct (map fst xs) \<Longrightarrow>
     length (AList.delete k xs) = (if map_of xs k = None then length xs else length xs - 1)"
proof (induction xs)
  case (Cons x xs)
  obtain k' v where x: "x = (k', v)" by (cases x)
  show ?case
  proof (cases "k' = k")
    case True
    with Cons.prems x have "map_of xs k = None" by (simp add: map_of_eq_None_iff)
    with True x show ?thesis by (simp add: asum_absent)
  next
    case False
    with Cons x show ?thesis by (cases xs) auto
  qed
qed simp

lemma opt_val_le_asum: "opt_val f (map_of xs k) \<le> asum f xs"
  by (induction xs) auto

lemma length_alist_dom: "distinct (map fst xs) \<Longrightarrow> length xs = card (dom (map_of xs))"
  by (metis distinct_card dom_map_of_conv_image_fst length_map list.set_map)

section \<open>Fields a call leaves alone\<close>

lemma quota_fields [simp]:
  "oq_byte_limit (quota_bytes_changed t p a r q) = oq_byte_limit q"
  "oq_file_limit (quota_bytes_changed t p a r q) = oq_file_limit q"
  "oq_files (quota_bytes_changed t p a r q) = oq_files q"
  "oq_byte_limit (quota_file_created t p q) = oq_byte_limit q"
  "oq_file_limit (quota_file_created t p q) = oq_file_limit q"
  "oq_bytes (quota_file_created t p q) = oq_bytes q"
  "oq_byte_limit (quota_file_removed q) = oq_byte_limit q"
  "oq_file_limit (quota_file_removed q) = oq_file_limit q"
  "oq_bytes (quota_file_removed q) = oq_bytes q"
  "oq_cow (quota_file_removed q) = oq_cow q"
  by (simp_all add: quota_bytes_changed_def quota_file_created_def quota_file_removed_def)

lemma account_drop_limits [simp]:
  "oq_byte_limit (account_drop t p b a q) = oq_byte_limit q"
  "oq_file_limit (account_drop t p b a q) = oq_file_limit q"
  by (simp_all add: account_drop_def Let_def)

lemma world_check_snd:
  "snd (world_check t op paths w) =
     w\<lparr>ow_quota := (ow_quota w)\<lparr>oq_cow := cow_mutation t op paths (oq_cow (ow_quota w))\<rparr>\<rparr>"
  by (simp add: world_check_def quota_check_mutation_def Let_def)

lemma world_check_result:
  "world_check t op paths w = (r, w1) \<Longrightarrow>
     w1 = w\<lparr>ow_quota := (ow_quota w)\<lparr>oq_cow := cow_mutation t op paths (oq_cow (ow_quota w))\<rparr>\<rparr>"
  using world_check_snd [of t op paths w] by simp

lemma world_check_other:
  "world_check t op paths w = (r, w1) \<Longrightarrow>
     ow_files w1 = ow_files w \<and> ow_dirs w1 = ow_dirs w \<and> ow_copies w1 = ow_copies w \<and> ow_orphans w1 = ow_orphans w"
  by (drule world_check_result) simp

lemma unat_bytes_changed:
  "unat (oq_bytes (quota_bytes_changed t p a r q)) = min (unat (oq_bytes q) + unat a) (2 ^ 64 - 1) - unat r"
  by (simp add: quota_bytes_changed_def unat_saturating_sub unat_saturating_add)

lemma account_drop_bytes:
  assumes "unat (oq_bytes q) = x + opt_val unat before" "x + opt_val unat before + opt_val unat after < 2 ^ 64"
  shows "unat (oq_bytes (account_drop t p before after q)) = x + opt_val unat after"
proof -
  define old new where "old = (case before of None \<Rightarrow> 0 | Some n \<Rightarrow> n)" and "new = (case after of None \<Rightarrow> 0 | Some n \<Rightarrow> n)"
  have vals: "opt_val unat before = unat old" "opt_val unat after = unat new"
    by (simp_all add: old_def new_def opt_val_def split: option.splits)
  have "unat (oq_bytes (account_drop t p before after q)) =
      (if old \<noteq> new then min (unat (oq_bytes q) + unat (saturating_sub new old)) (2 ^ 64 - 1) - unat (saturating_sub old new)
       else unat (oq_bytes q))"
    unfolding account_drop_def Let_def old_def [symmetric] new_def [symmetric] by (simp add: unat_bytes_changed)
  with assms show ?thesis unfolding vals by (auto simp: unat_saturating_sub)
qed

lemma check_write_ok:
  assumes "quota_check_write ex t p offset len sz q = Inr u" "oq_byte_limit q = Some B"
  shows "unat offset + unat len < 2 ^ 64
    \<and> (unat sz < unat offset + unat len \<longrightarrow> unat (oq_bytes q) + (unat offset + unat len - unat sz) \<le> unat B)"
proof -
  from assms(1) obtain e where e: "checked_add offset len = Some e"
    by (auto simp: quota_check_write_def split: option.splits)
  have ue: "unat e = unat offset + unat len" by (rule checked_add_Some [OF e])
  have "unat (oq_bytes q) + unat (saturating_sub e sz) \<le> unat B" if "unat sz < unat e"
  proof -
    from that have "saturating_sub e sz > 0" by (simp add: word_less_nat_alt unat_saturating_sub)
    with assms e obtain n where "checked_add (oq_bytes q) (saturating_sub e sz) = Some n" "\<not> n > B"
      by (auto simp: quota_check_write_def Let_def split: option.splits if_splits)
    with checked_add_Some show ?thesis by (force simp: word_less_nat_alt)
  qed
  with ue e show ?thesis by (auto simp: unat_saturating_sub checked_add_def split: if_splits)
qed

lemma check_write_slot:
  "quota_check_write ex t p offset len sz q = Inr u \<Longrightarrow> (t, p) \<in> cr_checks (oq_cow q)
    \<Longrightarrow> check_file_slot ex t p q = Inr ()"
  by (auto simp: quota_check_write_def Let_def split: option.splits if_splits)
section \<open>Invariants of sections\<close>

text \<open>An invariant that the check of a section keeps is kept by the section, once its effect after the checks keeps it.\<close>

locale section_invariant =
  fixes I :: "overlay_world \<Rightarrow> bool"
  assumes check_keeps: "I w \<Longrightarrow> I (snd (world_check t op paths w))"
begin

lemma then_check:
  assumes "I w"
    and "\<And>w1. world_check t op paths w = (Inr (), w1) \<Longrightarrow> I w1 \<Longrightarrow> I (snd (f w1))"
  shows "I (snd (then_do (world_check t op paths w) f))"
proof -
  obtain r w1 where r: "world_check t op paths w = (r, w1)" by (cases "world_check t op paths w")
  with check_keeps [OF assms(1), of t op paths] have "I w1" by simp
  with assms(2) [of w1] r show ?thesis by (cases r) (simp_all add: then_do_def)
qed

lemma writable:
  assumes "I w" and "world_check_write t p offset len sz w = Inr () \<Longrightarrow> I (snd (f w))"
  shows "I (snd (if_writable t p offset len sz f w))"
  using assms by (cases "world_check_write t p offset len sz w") (auto simp: if_writable_def)

lemma refused: "I w \<Longrightarrow> I (snd (f w)) \<Longrightarrow> I (snd (refuse_internal paths f w))"
  by (simp add: refuse_internal_def)

lemma check_each_keeps: "I w \<Longrightarrow> I (snd (check_each t ps w))"
proof (induction ps arbitrary: w)
  case (Cons p ps)
  show ?case unfolding check_each.simps by (rule then_check [OF Cons.prems]) (simp add: Cons.IH)
qed simp

end

section \<open>Bytes\<close>

definition growth_bytes :: "orphan \<Rightarrow> nat" where
  "growth_bytes o1 = opt_val (\<lambda>e. unat (snd e)) (or_growth o1)"

definition charged_bytes :: "overlay_world \<Rightarrow> nat" where
  "charged_bytes w =
     asum unat (ow_files w) + asum (\<lambda>c. unat (cc_bytes c)) (ow_copies w) + asum growth_bytes (ow_orphans w)"

definition copy_ok :: "cow_copy \<Rightarrow> bool" where
  "copy_ok c = (cc_offset c \<le> cc_bytes c \<and> (case cc_truncate c of None \<Rightarrow> True | Some s \<Rightarrow> s \<le> cc_bytes c))"

definition bytes_exact :: "u64 \<Rightarrow> overlay_world \<Rightarrow> bool" where
  "bytes_exact B w =
     (oq_byte_limit (ow_quota w) = Some B
      \<and> distinct (map fst (ow_files w)) \<and> distinct (map fst (ow_copies w)) \<and> distinct (map fst (ow_orphans w))
      \<and> (\<forall>c \<in> snd ` set (ow_copies w). copy_ok c)
      \<and> unat (oq_bytes (ow_quota w)) = charged_bytes w)"

definition bytes_inv :: "u64 \<Rightarrow> nat \<Rightarrow> overlay_world \<Rightarrow> bool" where
  "bytes_inv B M w = (bytes_exact B w \<and> charged_bytes w \<le> M \<and> unat B \<le> M \<and> M < 2 ^ 63)"

lemma bytes_inv_cow [simp]:
  "bytes_inv B M (w\<lparr>ow_quota := (ow_quota w)\<lparr>oq_cow := cow\<rparr>\<rparr>) = bytes_inv B M w"
  by (simp add: bytes_inv_def bytes_exact_def charged_bytes_def)

interpretation byte_sections: section_invariant "bytes_inv B M" for B M
  by unfold_locales (simp add: world_check_snd)

lemma charged_set_file:
  assumes "distinct (map fst (ow_files w))"
  shows "charged_bytes (set_file t p after w) + opt_val unat (map_of (ow_files w) p)
    = charged_bytes w + opt_val unat after"
  using asum_update [OF assms, of unat p] asum_delete [OF assms, of unat p]
  by (cases after) (fastforce simp: set_file_def charged_bytes_def)+

lemma set_file_exact:
  assumes "bytes_exact B w" "charged_bytes w + opt_val unat after < 2 ^ 64"
  shows "bytes_exact B (set_file t p after w)"
proof -
  let ?old = "opt_val unat (map_of (ow_files w) p)"
  from assms(1) have d: "distinct (map fst (ow_files w))" by (simp add: bytes_exact_def)
  have "?old \<le> charged_bytes w" using opt_val_le_asum [of unat "ow_files w" p] by (simp add: charged_bytes_def)
  then obtain x where x: "charged_bytes w = x + ?old" by (metis add.commute le_Suc_ex)
  with assms have "unat (oq_bytes (account_drop t p (map_of (ow_files w) p) after (ow_quota w))) = x + opt_val unat after"
    by (intro account_drop_bytes) (simp_all add: bytes_exact_def)
  moreover have "charged_bytes (set_file t p after w) = x + opt_val unat after"
    using charged_set_file [OF d, of t p after] x by simp
  ultimately show ?thesis using assms(1)
    by (cases after) (auto simp: bytes_exact_def set_file_def policy_file_size_def distinct_update distinct_delete)
qed

lemma set_file_bytes:
  assumes "bytes_inv B M w" "opt_val unat after \<le> opt_val unat (map_of (ow_files w) p)
    \<or> charged_bytes w + opt_val unat after \<le> unat B"
  shows "bytes_inv B M (set_file t p after w)"
proof -
  have d: "distinct (map fst (ow_files w))" using assms by (simp add: bytes_inv_def bytes_exact_def)
  have "opt_val unat (map_of (ow_files w) p) \<le> charged_bytes w"
    using opt_val_le_asum [of unat "ow_files w" p] by (simp add: charged_bytes_def)
  then have "charged_bytes w + opt_val unat after < 2 ^ 64" using assms by (auto simp: bytes_inv_def)
  then have "bytes_exact B (set_file t p after w)" using assms(1) by (intro set_file_exact) (simp_all add: bytes_inv_def)
  with charged_set_file [OF d, of t p after] assms show ?thesis by (auto simp: bytes_inv_def)
qed

lemma bytes_inv_writable:
  assumes "bytes_inv B M w" "world_check_write t p offset len sz w = Inr ()"
  shows "unat offset + unat len < 2 ^ 64
    \<and> (unat sz < unat offset + unat len \<longrightarrow> charged_bytes w + (unat offset + unat len - unat sz) \<le> unat B)"
  using check_write_ok [of _ t p offset len sz "ow_quota w"] assms
  by (simp add: world_check_write_def bytes_inv_def bytes_exact_def)

text \<open>Replacing one length in the folder together with its charge.\<close>

lemma update_file_bytes:
  assumes "bytes_inv B M w" "map_of (ow_files w) p = Some old"
    and "unat new \<le> unat old \<or> charged_bytes w + (unat new - unat old) \<le> unat B"
    and "unat (oq_bytes q) = charged_bytes w + unat new - unat old" "oq_byte_limit q = Some B"
  shows "bytes_inv B M (w\<lparr>ow_files := AList.update p new (ow_files w), ow_quota := q\<rparr>)"
proof -
  have d: "distinct (map fst (ow_files w))" using assms by (simp add: bytes_inv_def bytes_exact_def)
  have "unat old \<le> asum unat (ow_files w)" using opt_val_le_asum [of unat "ow_files w" p] assms(2) by simp
  with asum_update [OF d, of unat p new] assms show ?thesis
    by (auto simp: bytes_inv_def bytes_exact_def charged_bytes_def distinct_update)
qed

lemma create_file_bytes: "bytes_inv B M w \<Longrightarrow> bytes_inv B M (snd (create_file t p w))"
  unfolding create_file_def
  by (rule byte_sections.then_check, assumption, rule byte_sections.writable, assumption) (simp add: set_file_bytes)

lemma create_symlink_bytes: "bytes_inv B M w \<Longrightarrow> bytes_inv B M (snd (create_symlink t p n w))"
  unfolding create_symlink_def
proof (rule byte_sections.then_check, assumption, goal_cases)
  case (1 w1)
  have "bytes_inv B M (snd (if_writable t p 0 n 0 (\<lambda>w. (Inr (), set_file t p (Some n) w)) w1))"
  proof (rule byte_sections.writable [OF 1(3)])
    assume "world_check_write t p 0 n 0 w1 = Inr ()"
    with bytes_inv_writable [OF 1(3) this] 1(3) show "bytes_inv B M (snd (Inr (), set_file t p (Some n) w1))"
      by (cases "n = 0") (auto intro!: set_file_bytes simp: unat_gt_0)
  qed
  with 1 show ?case by simp
qed

text \<open>What a write adds stays within the extent that was checked.\<close>

lemma written_added:
  fixes offset len written sz :: u64
  assumes "unat offset + unat len < 2 ^ 64" "written \<le> len"
  defines "added \<equiv> if written = 0 then 0 else saturating_sub (saturating_add offset written) sz"
  shows "unat added \<le> unat offset + unat len - unat sz" "unat (sz + added) = unat sz + unat added"
proof -
  have le: "unat written \<le> unat len" using assms(2) by (simp add: word_le_nat_alt)
  have "unat (saturating_add offset written) = unat offset + unat written"
    using assms(1) le by (simp add: unat_saturating_add)
  then have add: "unat added = (if written = 0 then 0 else unat offset + unat written - unat sz)"
    by (simp add: added_def unat_saturating_sub)
  with le show "unat added \<le> unat offset + unat len - unat sz" by auto
  have "unat sz + unat added < 2 ^ 64"
    using add le assms(1) unsigned_less [of sz] by (cases "unat offset + unat written \<le> unat sz") auto
  then show "unat (sz + added) = unat sz + unat added" by (simp add: unat_word_ariths)
qed

lemma write_at_bytes:
  assumes "bytes_inv B M w" "written \<le> len"
  shows "bytes_inv B M (snd (write_at t label p offset len written w))"
  unfolding write_at_def
proof (rule byte_sections.then_check [OF assms(1)], goal_cases)
  case (1 w1)
  show ?case
  proof (cases "policy_file_size w1 p")
    case (Some sz)
    define added where "added = (if written = 0 then 0 else saturating_sub (saturating_add offset written) sz)"
    define q where "q = (if added \<noteq> 0 then quota_bytes_changed t label added 0 (ow_quota w1) else ow_quota w1)"
    have upd: "bytes_inv B M (w1\<lparr>ow_files := AList.update p (sz + added) (ow_files w1), ow_quota := q\<rparr>)"
      if ok: "world_check_write t label offset len sz w1 = Inr ()"
    proof -
      note lim = bytes_inv_writable [OF 1(2) ok]
      have new: "unat added \<le> unat offset + unat len - unat sz" "unat (sz + added) = unat sz + unat added"
        using written_added [of offset len written sz] lim assms(2) unfolding added_def by blast+
      from 1(2) have b: "unat (oq_bytes (ow_quota w1)) = charged_bytes w1" "charged_bytes w1 \<le> M" "unat B < 2 ^ 63"
        "M < 2 ^ 63" "oq_byte_limit (ow_quota w1) = Some B"
        by (auto simp: bytes_inv_def bytes_exact_def)
      have room: "added = 0 \<or> charged_bytes w1 + unat added \<le> unat B"
        using lim new by (cases "unat sz < unat offset + unat len") (auto simp: unat_eq_zero)
      then have "unat (oq_bytes q) = charged_bytes w1 + unat added"
        using b by (auto simp: q_def unat_bytes_changed)
      with room new b Some show ?thesis
        by (intro update_file_bytes [OF 1(2), of p sz]) (auto simp: policy_file_size_def q_def)
    qed
    show ?thesis unfolding Some option.case
      by (rule byte_sections.writable [OF 1(2)])
        (simp add: upd [unfolded q_def added_def] Let_def)
  qed (use 1 in simp)
qed

lemma truncate_file_bytes:
  assumes "bytes_inv B M w"
  shows "bytes_inv B M (snd (truncate_file t label p sz w))"
  unfolding truncate_file_def
proof (rule byte_sections.then_check [OF assms], goal_cases)
  case (1 w1)
  show ?case
  proof (cases "policy_file_size w1 p")
    case (Some old)
    let ?q = "quota_bytes_changed t label (saturating_sub sz old) (saturating_sub old sz) (ow_quota w1)"
    have upd: "bytes_inv B M (w1\<lparr>ow_files := AList.update p sz (ow_files w1), ow_quota := ?q\<rparr>)"
      if ok: "world_check_write t label sz 0 old w1 = Inr ()"
    proof -
      note lim = bytes_inv_writable [OF 1(2) ok]
      from 1(2) have b: "unat (oq_bytes (ow_quota w1)) = charged_bytes w1" "charged_bytes w1 \<le> M" "unat B \<le> M"
        "M < 2 ^ 63" "oq_byte_limit (ow_quota w1) = Some B"
        by (auto simp: bytes_inv_def bytes_exact_def)
      have "unat old \<le> charged_bytes w1"
        using opt_val_le_asum [of unat "ow_files w1" p] Some by (simp add: charged_bytes_def policy_file_size_def)
      then have "unat (oq_bytes ?q) = charged_bytes w1 + unat sz - unat old"
        using lim b by (cases "unat old < unat sz") (auto simp: unat_bytes_changed unat_saturating_sub)
      with lim b Some show ?thesis
        by (intro update_file_bytes [OF 1(2), of p old]) (auto simp: policy_file_size_def)
    qed
    show ?thesis unfolding Some option.case by (rule byte_sections.writable [OF 1(2)]) (simp add: upd)
  qed (use 1 in simp)
qed

lemma add_orphan_bytes:
  "bytes_inv B M w \<Longrightarrow> fresh_ino ino w \<Longrightarrow> bytes_inv B M (add_orphan ino sz w)"
  by (auto simp: add_orphan_def fresh_ino_def bytes_inv_def bytes_exact_def charged_bytes_def growth_bytes_def
      split: option.splits)

lemma set_file_other [simp]:
  "ow_orphans (set_file t p after w) = ow_orphans w" "ow_copies (set_file t p after w) = ow_copies w"
  "ow_dirs (set_file t p after w) = ow_dirs w"
  by (simp_all add: set_file_def)

lemma set_file_lookup:
  "map_of (ow_files (set_file t p after w)) = (map_of (ow_files w))(p := after)"
  by (cases after) (simp_all add: set_file_def update_conv' delete_conv')

lemma fresh_ino_cong: "ow_orphans w = ow_orphans w' \<Longrightarrow> fresh_ino ino w = fresh_ino ino w'"
  by (cases ino) (simp_all add: fresh_ino_def)

lemma unlink_bytes: "bytes_inv B M w \<Longrightarrow> fresh_ino ino w \<Longrightarrow> bytes_inv B M (snd (unlink t p ino w))"
  unfolding unlink_def
proof (rule byte_sections.then_check, assumption, goal_cases)
  case (1 w1)
  then have "fresh_ino ino (set_file t p None w1)"
    using fresh_ino_cong [of "set_file t p None w1" w ino] world_check_other [OF 1(3)] by simp
  with 1 show ?case by (simp add: add_orphan_bytes set_file_bytes)
qed

lemma rename_bytes:
  assumes "bytes_inv B M w" "fresh_ino ino w"
  shows "bytes_inv B M (snd (rename t from to ino w))"
proof (cases "from = to \<or> to \<in> ow_dirs w \<or> policy_file_size w from = None")
  case False
  then obtain n where n: "map_of (ow_files w) from = Some n" and ne: "from \<noteq> to"
    by (auto simp: policy_file_size_def)
  let ?w2 = "set_file t to (Some n) w"
  let ?w3 = "set_file t from None ?w2"
  have inv: "bytes_exact B w" "charged_bytes w \<le> M" "unat B \<le> M" "M < 2 ^ 63" "distinct (map fst (ow_files w))"
    using assms(1) by (auto simp: bytes_inv_def bytes_exact_def)
  have "unat n \<le> charged_bytes w"
    using opt_val_le_asum [of unat "ow_files w" "from"] n by (simp add: charged_bytes_def)
  with inv have e2: "bytes_exact B ?w2" by (intro set_file_exact) simp_all
  then have d2: "distinct (map fst (ow_files ?w2))" by (simp add: bytes_exact_def)
  have c2: "charged_bytes ?w2 \<le> charged_bytes w + unat n" using charged_set_file [OF inv(5), of t to "Some n"] by simp
  then have e3: "bytes_exact B ?w3" using \<open>unat n \<le> charged_bytes w\<close> inv by (intro set_file_exact [OF e2]) simp
  have "charged_bytes ?w3 + unat n = charged_bytes ?w2"
    using charged_set_file [OF d2, of t "from" None] n ne by (simp add: set_file_lookup)
  with c2 e3 inv have "bytes_inv B M ?w3" by (simp add: bytes_inv_def)
  moreover have "fresh_ino ino ?w3" using assms(2) fresh_ino_cong [of ?w3 w ino] by simp
  ultimately show ?thesis using False n by (auto simp: rename_def policy_file_size_def add_orphan_bytes)
qed (use assms in \<open>auto simp: rename_def split: option.splits\<close>)

lemma mkdir_bytes: "bytes_inv B M w \<Longrightarrow> bytes_inv B M (snd (mkdir t p w))"
  unfolding mkdir_def
  by (rule byte_sections.then_check, assumption) (simp add: bytes_inv_def bytes_exact_def charged_bytes_def)

lemma dirs_bytes: "bytes_inv B M w \<Longrightarrow> bytes_inv B M (w\<lparr>ow_dirs := dirs\<rparr>)"
  by (simp add: bytes_inv_def bytes_exact_def charged_bytes_def)

lemma rmdir_bytes: "bytes_inv B M w \<Longrightarrow> bytes_inv B M (snd (rmdir t p w))"
  unfolding rmdir_def
  by (rule byte_sections.then_check, assumption) (simp add: bytes_inv_def bytes_exact_def charged_bytes_def)

lemma remove_each_bytes: "bytes_inv B M w \<Longrightarrow> bytes_inv B M (remove_each t ps w)"
  by (induction t ps w rule: remove_each.induct) (simp_all add: set_file_bytes)

lemma then_do_each:
  "section_invariant I \<Longrightarrow> I w \<Longrightarrow> (\<And>w1. I w1 \<Longrightarrow> I (snd (f w1))) \<Longrightarrow> I (snd (then_do (check_each t ps w) f))"
  using section_invariant.check_each_keeps [of I w t ps]
  by (auto simp: then_do_def split: prod.splits sum.splits)

lemma reset_bytes: "bytes_inv B M w \<Longrightarrow> bytes_inv B M (snd (reset_overlay_contents t w))"
  unfolding reset_overlay_contents_def
proof (rule byte_sections.then_check, assumption, rule then_do_each [OF byte_sections.section_invariant_axioms], assumption)
  fix w2 assume "bytes_inv B M w2"
  then have "bytes_inv B M (remove_each t (map fst (ow_files w2)) w2)" by (rule remove_each_bytes)
  then show "bytes_inv B M (snd (Inr (), (remove_each t (map fst (ow_files w2)) w2)\<lparr>ow_dirs := {}\<rparr>))"
    by (simp add: bytes_inv_def bytes_exact_def charged_bytes_def)
qed

text \<open>Unlinked files: the growth entry and its charge move together.\<close>

lemma account_orphan_bytes:
  assumes "bytes_inv B M w" "map_of (ow_orphans w) ino = Some o1"
    and "added = 0 \<or> charged_bytes w + unat added \<le> unat B"
    and "account_orphan t path added removed o1 (ow_quota w) = (o2, q)"
  shows "bytes_inv B M (w\<lparr>ow_orphans := AList.update ino (o2\<lparr>or_size := n\<rparr>) (ow_orphans w), ow_quota := q\<rparr>)"
proof -
  obtain p g where pg: "(case or_growth o1 of None \<Rightarrow> (path, 0) | Some entry \<Rightarrow> entry) = (p, g)" by fastforce
  then have g: "growth_bytes o1 = unat g" by (auto simp: growth_bytes_def split: option.splits)
  let ?freed = "min removed g"
  have f: "unat ?freed \<le> unat g" by (simp add: word_le_nat_alt [symmetric])
  from assms(4) pg have o2: "or_growth o2 = Some (p, g + added - ?freed)" and q: "q = quota_bytes_changed t p added ?freed (ow_quota w)"
    by (auto simp: account_orphan_def Let_def)
  have inv: "unat (oq_bytes (ow_quota w)) = charged_bytes w" "charged_bytes w \<le> M" "unat B \<le> M" "M < 2 ^ 63"
    "distinct (map fst (ow_orphans w))" using assms(1) by (auto simp: bytes_inv_def bytes_exact_def)
  have "unat g \<le> asum growth_bytes (ow_orphans w)"
    using opt_val_le_asum [of growth_bytes "ow_orphans w" ino] assms(2) g by simp
  then have gc: "unat g \<le> charged_bytes w" by (simp add: charged_bytes_def)
  have "unat (g + added) = unat g + unat added"
    using assms(3) inv gc by (auto simp: unat_word_ariths)
  then have new: "growth_bytes (o2\<lparr>or_size := n\<rparr>) = unat g + unat added - unat ?freed"
    using o2 f by (simp add: growth_bytes_def unat_sub_if' word_le_nat_alt)
  have bq: "unat (oq_bytes q) = charged_bytes w + unat added - unat ?freed"
    using assms(3) inv by (auto simp: q unat_bytes_changed)
  have sum: "asum growth_bytes (AList.update ino (o2\<lparr>or_size := n\<rparr>) (ow_orphans w)) + unat g
      = asum growth_bytes (ow_orphans w) + (unat g + unat added - unat ?freed)"
    using asum_update [OF inv(5), of growth_bytes ino "o2\<lparr>or_size := n\<rparr>"] assms(2) g new by simp
  with f gc have "charged_bytes (w\<lparr>ow_orphans := AList.update ino (o2\<lparr>or_size := n\<rparr>) (ow_orphans w), ow_quota := q\<rparr>)
      = charged_bytes w + unat added - unat ?freed"
    by (simp add: charged_bytes_def)
  with bq assms(1,3) inv show ?thesis
    by (auto simp: bytes_inv_def bytes_exact_def q distinct_update)
qed

lemma write_orphan_bytes:
  assumes "bytes_inv B M w" "written \<le> len"
  shows "bytes_inv B M (snd (write_orphan t label ino offset len written w))"
  unfolding write_orphan_def
proof (rule byte_sections.then_check [OF assms(1)], goal_cases)
  case (1 w1)
  show ?case
  proof (cases "map_of (ow_orphans w1) ino")
    case (Some o1)
    let ?added = "if written = 0 then 0 else saturating_sub (saturating_add offset written) (or_size o1)"
    show ?thesis unfolding Some option.case
    proof (rule byte_sections.writable [OF 1(2)], goal_cases)
      case ok: 1
      note lim = bytes_inv_writable [OF 1(2) ok]
      have "unat ?added \<le> unat offset + unat len - unat (or_size o1)"
        using written_added(1) lim assms(2) by blast
      with lim have "?added = 0 \<or> charged_bytes w1 + unat ?added \<le> unat B"
        by (cases "unat (or_size o1) < unat offset + unat len") (auto simp: unat_eq_zero simp del: unat_saturating_sub)
      from account_orphan_bytes [OF 1(2) Some this] show ?case
        unfolding Let_def by (cases "account_orphan t label ?added 0 o1 (ow_quota w1)") simp
    qed
  qed (use 1 in simp)
qed

lemma truncate_orphan_bytes:
  assumes "bytes_inv B M w"
  shows "bytes_inv B M (snd (truncate_orphan t label ino sz w))"
  unfolding truncate_orphan_def
proof (rule byte_sections.then_check [OF assms(1)], goal_cases)
  case (1 w1)
  show ?case
  proof (cases "map_of (ow_orphans w1) ino")
    case (Some o1)
    let ?added = "saturating_sub sz (or_size o1)"
    show ?thesis unfolding Some option.case
    proof (rule byte_sections.writable [OF 1(2)], goal_cases)
      case ok: 1
      note lim = bytes_inv_writable [OF 1(2) ok]
      have "?added = 0 \<or> charged_bytes w1 + unat ?added \<le> unat B"
        using lim by (cases "unat (or_size o1) < unat sz") (simp_all add: unat_saturating_sub unat_eq_zero [symmetric])
      from account_orphan_bytes [OF 1(2) Some this] show ?case
        by (cases "account_orphan t label ?added (saturating_sub (or_size o1) sz) o1 (ow_quota w1)") simp
    qed
  qed (use 1 in simp)
qed

lemma release_orphan_bytes:
  assumes "bytes_inv B M w"
  shows "bytes_inv B M (release_orphan t ino w)"
proof (cases "map_of (ow_orphans w) ino")
  case (Some o1)
  have inv: "unat (oq_bytes (ow_quota w)) = charged_bytes w" "charged_bytes w \<le> M" "M < 2 ^ 63"
    "distinct (map fst (ow_orphans w))" using assms by (auto simp: bytes_inv_def bytes_exact_def)
  have sum: "asum growth_bytes (AList.delete ino (ow_orphans w)) + growth_bytes o1 = asum growth_bytes (ow_orphans w)"
    using asum_delete [OF inv(4), of growth_bytes ino] Some by simp
  show ?thesis
  proof (cases "or_growth o1")
    case None
    then have "growth_bytes o1 = 0" by (simp add: growth_bytes_def)
    with sum None Some assms show ?thesis
      by (simp add: release_orphan_def bytes_inv_def bytes_exact_def charged_bytes_def distinct_delete)
  next
    case (Some e)
    obtain path n where e: "e = (path, n)" by (cases e)
    with Some have g: "growth_bytes o1 = unat n" by (simp add: growth_bytes_def)
    have "unat (oq_bytes (quota_bytes_changed t path 0 n (ow_quota w))) = charged_bytes w - unat n"
      using inv by (simp add: unat_bytes_changed)
    with sum g Some e \<open>map_of (ow_orphans w) ino = Some o1\<close> assms show ?thesis
      by (auto simp: release_orphan_def bytes_inv_def bytes_exact_def charged_bytes_def distinct_delete)
  qed
qed (use assms in \<open>simp add: release_orphan_def\<close>)

lemma cow_begin_bytes:
  assumes "bytes_inv B M w" "idle w t"
  shows "bytes_inv B M (snd (cow_begin t p sz limit w))"
proof (cases "host_exists w p")
  case False
  let ?bytes = "case limit of None \<Rightarrow> sz | Some n \<Rightarrow> n"
  show ?thesis unfolding cow_begin_def Let_def if_not_P [OF False]
  proof (rule byte_sections.then_check [OF assms(1)], rule byte_sections.then_check, assumption,
      rule byte_sections.writable, assumption, goal_cases)
    case (1 w1 w2)
    have same: "ow_copies w2 = ow_copies w"
      using world_check_other [OF 1(1)] world_check_other [OF 1(3)] by simp
    have inv: "unat (oq_bytes (ow_quota w2)) = charged_bytes w2" "charged_bytes w2 \<le> M" "unat B \<le> M" "M < 2 ^ 63"
      using 1(4) by (auto simp: bytes_inv_def bytes_exact_def)
    from assms(2) have fresh: "(t, p) \<notin> fst ` set (ow_copies w)"
      by (auto simp: idle_def list_all_iff)
    have room: "?bytes = 0 \<or> charged_bytes w2 + unat ?bytes \<le> unat B"
      using bytes_inv_writable [OF 1(4,5)] by (cases "?bytes = 0") (simp_all add: unat_gt_0)
    then have "unat (oq_bytes (quota_bytes_changed t p ?bytes 0 (ow_quota w2))) = charged_bytes w2 + unat ?bytes"
      using inv by (auto simp: unat_bytes_changed)
    with room 1(4) inv fresh same show ?case
      by (auto simp: bytes_inv_def bytes_exact_def charged_bytes_def copy_ok_def split: option.splits)
  qed
qed (use assms in \<open>simp add: cow_begin_def\<close>)

lemma cow_link_bytes:
  assumes "bytes_inv B M w"
  shows "bytes_inv B M (snd (cow_link t p n w))"
proof (cases "host_exists w p")
  case False
  show ?thesis unfolding cow_link_def if_not_P [OF False]
  proof (rule byte_sections.then_check [OF assms(1)], rule byte_sections.writable, assumption, goal_cases)
    case (1 w1)
    with bytes_inv_writable [OF 1(2,3)] show ?case
      by (cases "n = 0") (auto intro!: set_file_bytes simp: unat_gt_0)
  qed
qed (use assms in \<open>simp add: cow_link_def\<close>)

text \<open>Replacing the record of a running copy together with its charge.\<close>

lemma update_copy_bytes:
  assumes "bytes_inv B M w" "map_of (ow_copies w) k = Some c" "copy_ok c'" "cc_bytes c \<le> cc_bytes c'"
    and "cc_bytes c' = cc_bytes c \<or> charged_bytes w + (unat (cc_bytes c') - unat (cc_bytes c)) \<le> unat B"
    and "unat (oq_bytes q) = charged_bytes w + (unat (cc_bytes c') - unat (cc_bytes c))" "oq_byte_limit q = Some B"
  shows "bytes_inv B M (w\<lparr>ow_quota := q, ow_copies := AList.update k c' (ow_copies w)\<rparr>)"
proof -
  have d: "distinct (map fst (ow_copies w))" using assms(1) by (simp add: bytes_inv_def bytes_exact_def)
  have "unat (cc_bytes c) \<le> unat (cc_bytes c')" using assms(4) by (simp add: word_le_nat_alt)
  with asum_update [OF d, of "\<lambda>c. unat (cc_bytes c)" k c'] assms(2)
  have sum: "asum (\<lambda>c. unat (cc_bytes c)) (AList.update k c' (ow_copies w))
      = asum (\<lambda>c. unat (cc_bytes c)) (ow_copies w) + (unat (cc_bytes c') - unat (cc_bytes c))" by simp
  have "\<forall>x \<in> snd ` set (AList.update k c' (ow_copies w)). copy_ok x"
    using assms(1,3) in_set_update [of _ k c' "ow_copies w"] by (fastforce simp: bytes_inv_def bytes_exact_def)
  with sum assms d show ?thesis
    by (auto simp: bytes_inv_def bytes_exact_def charged_bytes_def distinct_update)
qed

lemma copy_found_ok: "bytes_inv B M w \<Longrightarrow> map_of (ow_copies w) k = Some c \<Longrightarrow> copy_ok c"
  by (auto simp: bytes_inv_def bytes_exact_def dest!: map_of_SomeD)

lemma cow_read_bytes:
  assumes "bytes_inv B M w" "map_of (ow_copies w) (t, p) = Some c" "within_limit c n"
  shows "bytes_inv B M (snd (cow_read t p n w))"
proof -
  let ?e = "cc_offset c + n"
  have ok: "copy_ok c" by (rule copy_found_ok [OF assms(1,2)])
  have inv: "unat (oq_bytes (ow_quota w)) = charged_bytes w" "charged_bytes w \<le> M" "unat B \<le> M" "M < 2 ^ 63"
    "oq_byte_limit (ow_quota w) = Some B"
    using assms(1) by (auto simp: bytes_inv_def bytes_exact_def)
  show ?thesis
  proof (cases "?e > cc_bytes c")
    case True
    let ?q = "quota_bytes_changed t p (?e - cc_bytes c) 0 (ow_quota w)"
    have sub: "unat (?e - cc_bytes c) = unat ?e - unat (cc_bytes c)" "unat (cc_bytes c) < unat ?e"
      using True by (simp_all add: unat_sub_if' word_less_nat_alt)
    have grown: "copy_ok (c\<lparr>cc_bytes := ?e, cc_offset := ?e\<rparr>)"
      using ok True by (auto simp: copy_ok_def split: option.splits)
    have "bytes_inv B M (snd (if_writable t p 0 ?e (cc_bytes c) (\<lambda>w. (Inr (), w\<lparr>ow_quota :=
        quota_bytes_changed t p (?e - cc_bytes c) 0 (ow_quota w),
        ow_copies := AList.update (t, p) (c\<lparr>cc_bytes := ?e, cc_offset := ?e\<rparr>) (ow_copies w)\<rparr>)) w))"
    proof (rule byte_sections.writable [OF assms(1)])
      assume chk: "world_check_write t p 0 ?e (cc_bytes c) w = Inr ()"
      with bytes_inv_writable [OF assms(1) chk] sub
      have room: "charged_bytes w + (unat ?e - unat (cc_bytes c)) \<le> unat B" by simp
      have "unat (oq_bytes ?q) = charged_bytes w + (unat ?e - unat (cc_bytes c))"
        using room inv sub by (simp add: unat_bytes_changed)
      then have "bytes_inv B M (w\<lparr>ow_quota := ?q,
          ow_copies := AList.update (t, p) (c\<lparr>cc_bytes := ?e, cc_offset := ?e\<rparr>) (ow_copies w)\<rparr>)"
        using room inv True grown by (intro update_copy_bytes [OF assms(1,2)]) simp_all
      then show "bytes_inv B M (snd (Inr (), w\<lparr>ow_quota := ?q,
          ow_copies := AList.update (t, p) (c\<lparr>cc_bytes := ?e, cc_offset := ?e\<rparr>) (ow_copies w)\<rparr>))" by simp
    qed
    with True assms(2) show ?thesis by (simp add: cow_read_def Let_def)
  next
    case False
    then have "copy_ok (c\<lparr>cc_offset := ?e\<rparr>)" using ok by (simp add: copy_ok_def not_less split: option.splits)
    then have "bytes_inv B M (w\<lparr>ow_quota := ow_quota w,
        ow_copies := AList.update (t, p) (c\<lparr>cc_offset := ?e\<rparr>) (ow_copies w)\<rparr>)"
      using inv by (intro update_copy_bytes [OF assms(1,2)]) simp_all
    with False assms(2) show ?thesis by (simp add: cow_read_def Let_def)
  qed
qed

lemma drop_copy_bytes:
  assumes "bytes_inv B M w" "map_of (ow_copies w) k = Some c"
  shows "asum (\<lambda>c. unat (cc_bytes c)) (AList.delete k (ow_copies w)) + unat (cc_bytes c)
      = asum (\<lambda>c. unat (cc_bytes c)) (ow_copies w)"
    and "\<forall>x \<in> snd ` set (AList.delete k (ow_copies w)). copy_ok x"
  using asum_delete [of "ow_copies w" "\<lambda>c. unat (cc_bytes c)" k] assms
  by (auto simp: bytes_inv_def bytes_exact_def AList.delete_eq)

lemma cow_drop_bytes:
  assumes "bytes_inv B M w"
  shows "bytes_inv B M (cow_drop t p w)"
proof (cases "map_of (ow_copies w) (t, p)")
  case (Some c)
  note drop = drop_copy_bytes [OF assms Some]
  have "unat (oq_bytes (quota_bytes_changed t p 0 (cc_bytes c) (ow_quota w))) = charged_bytes w - unat (cc_bytes c)"
    using assms by (simp add: unat_bytes_changed bytes_inv_def bytes_exact_def)
  with drop Some assms show ?thesis
    by (auto simp: cow_drop_def bytes_inv_def bytes_exact_def charged_bytes_def distinct_delete)
qed (use assms in \<open>simp add: cow_drop_def\<close>)

lemma cow_publish_bytes:
  assumes "bytes_inv B M w"
  shows "bytes_inv B M (snd (cow_publish t p w))"
proof (cases "map_of (ow_copies w) (t, p)")
  case (Some c)
  show ?thesis
  proof (cases "cc_offset c \<noteq> cow_expected c \<or> host_exists w p")
    case True
    with Some cow_drop_bytes [OF assms] show ?thesis by (auto simp: cow_publish_def)
  next
    case False
    let ?actual = "case cc_truncate c of None \<Rightarrow> cc_offset c | Some s \<Rightarrow> s"
    let ?q = "quota_bytes_changed t p 0 0 (quota_file_created t p (quota_bytes_changed t p 0 (cc_bytes c - ?actual) (ow_quota w)))"
    note drop = drop_copy_bytes [OF assms Some]
    have inv: "unat (oq_bytes (ow_quota w)) = charged_bytes w" "charged_bytes w \<le> M" "M < 2 ^ 63"
      "distinct (map fst (ow_files w))" using assms by (auto simp: bytes_inv_def bytes_exact_def)
    have absent: "map_of (ow_files w) p = None" using False by (simp add: host_exists_def)
    have le: "?actual \<le> cc_bytes c"
      using copy_found_ok [OF assms Some] by (simp add: copy_ok_def split: option.splits)
    then have sub: "unat (cc_bytes c - ?actual) = unat (cc_bytes c) - unat ?actual" "unat ?actual \<le> unat (cc_bytes c)"
      by (simp_all add: unat_sub word_le_nat_alt)
    have "unat (oq_bytes ?q) = charged_bytes w - (unat (cc_bytes c) - unat ?actual)"
      using inv sub by (simp add: unat_bytes_changed)
    moreover have "asum unat (AList.update p ?actual (ow_files w)) = asum unat (ow_files w) + unat ?actual"
      using asum_update [OF inv(4), of unat p ?actual] absent by simp
    ultimately have "bytes_inv B M (w\<lparr>ow_quota := ?q, ow_files := AList.update p ?actual (ow_files w),
        ow_copies := AList.delete (t, p) (ow_copies w)\<rparr>)"
      using drop sub assms
      by (auto simp: bytes_inv_def bytes_exact_def charged_bytes_def distinct_delete distinct_update)
    with False Some show ?thesis by (simp add: cow_publish_def Let_def)
  qed
qed (use assms in \<open>simp add: cow_publish_def\<close>)

lemma overlay_step_bytes: "overlay_step strict w w' \<Longrightarrow> bytes_inv B M w \<Longrightarrow> bytes_inv B M w'"
  by (induction rule: overlay_step.induct)
    (simp_all add: byte_sections.check_keeps byte_sections.refused create_file_bytes create_symlink_bytes write_at_bytes truncate_file_bytes
      unlink_bytes rename_bytes mkdir_bytes dirs_bytes rmdir_bytes reset_bytes write_orphan_bytes truncate_orphan_bytes
      release_orphan_bytes cow_begin_bytes cow_link_bytes cow_read_bytes cow_publish_bytes cow_drop_bytes)

lemma overlay_reach_bytes: "overlay_reach strict w0 w \<Longrightarrow> bytes_inv B M w0 \<Longrightarrow> bytes_inv B M w"
  by (induction rule: overlay_reach.induct) (auto intro: overlay_step_bytes)

section \<open>The folder at the start\<close>

fun node_files :: "string \<Rightarrow> host_node \<Rightarrow> (string \<times> u64) list"
  and host_files :: "string \<Rightarrow> (string \<times> host_node) list \<Rightarrow> (string \<times> u64) list" where
  "node_files path (HostDir entries) = host_files path entries"
| "node_files path (HostFile len) = [(path, len)]"
| "node_files path (HostSymlink len) = [(path, len)]"
| "node_files path HostOther = []"
| "node_files path (HostFails e) = []"
| "host_files path [] = []"
| "host_files path ((name, node) # entries) =
     (if is_overlay_internal_path name then [] else node_files (path @ ''/'' @ name) node) @ host_files path entries"

definition initial_world :: "(string \<times> host_node) list \<Rightarrow> string set \<Rightarrow> overlay_quota \<Rightarrow> overlay_world" where
  "initial_world root dirs q =
     \<lparr>ow_quota = q, ow_files = host_files [] root, ow_dirs = dirs, ow_copies = [], ow_orphans = []\<rparr>"

lemma asum_append [simp]: "asum f (xs @ ys) = asum f xs + asum f ys"
  by (simp add: asum_def)

lemma count_file_ok:
  "count_file len l u = Inr u' \<Longrightarrow> unat (ou_bytes u') = unat (ou_bytes u) + unat len \<and> ou_files u' = ou_files u + 1"
  by (auto simp: count_file_def dest: checked_add_Some split: option.splits)

lemma usage_counts:
  "usage_node node u = Inr u' \<Longrightarrow>
     unat (ou_bytes u') = unat (ou_bytes u) + asum unat (node_files path node)
     \<and> ou_files u' = ou_files u + of_nat (length (node_files path node))"
  "usage_walk entries u = Inr u' \<Longrightarrow>
     unat (ou_bytes u') = unat (ou_bytes u) + asum unat (host_files path entries)
     \<and> ou_files u' = ou_files u + of_nat (length (host_files path entries))"
proof (induction node u and entries u arbitrary: u' path and u' path rule: usage_node_usage_walk.induct)
  case (7 name node entries u)
  show ?case
  proof (cases "is_overlay_internal_path name")
    case False
    with 7(4) obtain u1 where u1: "usage_node node u = Inr u1" "usage_walk entries u1 = Inr u'"
      by (auto split: sum.splits)
    with False 7(2) [OF False u1(1), of "path @ ''/'' @ name"] 7(3) [OF False u1(1) u1(2), of path] show ?thesis by simp
  qed (use 7 in auto)
qed (fastforce dest: count_file_ok)+

lemma quota_new_counts:
  assumes "quota_new root b f = Inr q"
  shows "unat (oq_bytes q) = asum unat (host_files [] root)" "oq_files q = of_nat (length (host_files [] root))"
    "oq_byte_limit q = b" "oq_file_limit q = f" "oq_cow q = cow_default"
proof -
  obtain u where "usage_scan root = Inr u" "q = \<lparr>oq_byte_limit = b, oq_file_limit = f, oq_bytes = ou_bytes u,
       oq_files = ou_files u, oq_cow = cow_default\<rparr>"
    using assms by (cases "usage_scan root") (auto simp: quota_new_def)
  then show "unat (oq_bytes q) = asum unat (host_files [] root)" "oq_files q = of_nat (length (host_files [] root))"
    "oq_byte_limit q = b" "oq_file_limit q = f" "oq_cow q = cow_default"
    using usage_counts(2) [of root _ u "[]"] by (simp_all add: usage_scan_def)
qed

text \<open>C4: Start a quota on an existing folder with a byte limit. After any interleaving of overlay sections, stale
  checks included, the accounted bytes are exactly the lengths of the files and links in the folder, plus the
  reservations of the copies under way, plus the growth of unlinked open files, and they do not exceed the limit, or
  what the folder held at the start when that was more. Limit and initial content are below two to the 63, since a
  rename charges the new name before it releases the old one.\<close>

theorem quota_bytes_exact:
  assumes "quota_new root (Some B) file_limit = Inr q" and "distinct (map fst (host_files [] root))"
    and "unat B < 2 ^ 63" and "unat (oq_bytes q) < 2 ^ 63"
    and "overlay_reach strict (initial_world root dirs q) w"
  shows "unat (oq_bytes (ow_quota w)) = charged_bytes w \<and> charged_bytes w \<le> max (unat B) (unat (oq_bytes q))"
proof -
  have "bytes_inv B (max (unat B) (unat (oq_bytes q))) (initial_world root dirs q)"
    using assms quota_new_counts [OF assms(1)]
    by (simp add: bytes_inv_def bytes_exact_def initial_world_def charged_bytes_def)
  then have "bytes_inv B (max (unat B) (unat (oq_bytes q))) w" by (rule overlay_reach_bytes [OF assms(5)])
  then show ?thesis by (simp add: bytes_inv_def bytes_exact_def)
qed

end
