(* ===== verification/Quota_Files.thy ===== *)
theory Quota_Files
  imports Quota_Invariant
begin

text \<open>
  The file quota over interleavings of overlay sections: the accounted files are the files in the folder, a slot is
  held for every copy under way, and the limit holds as long as no write is made under a stale copy-on-write check.
  Such a check does let the limit be passed.
\<close>

section \<open>Files\<close>

definition files_exact :: "u64 \<Rightarrow> overlay_world \<Rightarrow> bool" where
  "files_exact F w =
     (oq_file_limit (ow_quota w) = Some F
      \<and> distinct (map fst (ow_files w)) \<and> distinct (map fst (ow_copies w))
      \<and> unat (oq_files (ow_quota w)) = length (ow_files w)
      \<and> distinct (map fst (cr_copies (oq_cow (ow_quota w))))
      \<and> map_of (cr_copies (oq_cow (ow_quota w))) = map_option cc_bytes \<circ> map_of (ow_copies w))"

definition files_inv :: "u64 \<Rightarrow> nat \<Rightarrow> overlay_world \<Rightarrow> bool" where
  "files_inv F M w =
     (files_exact F w \<and> length (ow_files w) + length (ow_copies w) \<le> M \<and> unat F \<le> M \<and> M < 2 ^ 64 - 1)"

lemma cow_mutation_copies [simp]: "cr_copies (cow_mutation t op paths cow) = cr_copies cow"
  by (simp add: cow_mutation_def Let_def)

lemma cow_mutation_clears:
  "op \<noteq> Write \<Longrightarrow> op \<noteq> CopyOnWrite \<Longrightarrow> (t, p) \<notin> cr_checks (cow_mutation t op paths cow)"
  by (simp add: cow_mutation_def Let_def)

lemma cow_changed_none:
  "map_of (cr_copies cow) (t, p) = None \<Longrightarrow> (t, p) \<notin> cr_checks cow \<or> removed \<noteq> 0 \<Longrightarrow>
     cow_changed t p added removed cow = cow"
  by (auto simp: cow_changed_def)

interpretation file_sections: section_invariant "files_inv F M" for F M
  by unfold_locales (simp add: world_check_snd files_inv_def files_exact_def)

lemma idle_lookup: "idle w t \<Longrightarrow> map_of (ow_copies w) (t, p) = None"
  by (fastforce simp: idle_def list_all_iff map_of_eq_None_iff)

lemma copies_length:
  assumes "files_exact F w"
  shows "length (cr_copies (oq_cow (ow_quota w))) = length (ow_copies w)"
proof -
  have "dom (map_of (cr_copies (oq_cow (ow_quota w)))) = dom (map_of (ow_copies w))"
    using assms by (auto simp: files_exact_def dom_def)
  with assms show ?thesis by (simp add: files_exact_def length_alist_dom)
qed

lemma used_slots_exact: "files_inv F M w \<Longrightarrow> unat (used_slots (ow_quota w)) = length (ow_files w) + length (ow_copies w)"
  using copies_length [of F w]
  by (simp add: files_inv_def files_exact_def used_slots_def unat_word_ariths unat_of_nat)

lemma slot_free:
  assumes "files_inv F M w" "check_file_slot (host_exists w) t p (ow_quota w) = Inr u"
    "\<not> host_exists w p" "map_of (ow_copies w) (t, p) = None"
  shows "length (ow_files w) + length (ow_copies w) < M"
  using assms used_slots_exact [OF assms(1)]
  by (auto simp: check_file_slot_def files_inv_def files_exact_def word_le_nat_alt split: if_splits)

lemma created_files:
  assumes "files_exact F w" "map_of (ow_copies w) (t, p) = None"
  shows "cr_copies (cow_created t p (oq_cow (ow_quota w))) = cr_copies (oq_cow (ow_quota w))"
  using assms by (auto simp: files_exact_def cow_created_def asum_absent)

lemma account_drop_cow:
  assumes "map_of (cr_copies (oq_cow q)) (t, p) = None"
    "(t, p) \<notin> cr_checks (oq_cow q) \<or> before = None \<and> after \<noteq> None"
  shows "cr_copies (oq_cow (account_drop t p before after q)) = cr_copies (oq_cow q)"
proof -
  define q1 where "q1 = (if before = None \<and> after \<noteq> None then quota_file_created t p q else q)"
  have q1: "cr_copies (oq_cow q1) = cr_copies (oq_cow q)" "(t, p) \<notin> cr_checks (oq_cow q1)"
    using assms by (auto simp: q1_def quota_file_created_def cow_created_def asum_absent)
  then have "oq_cow (quota_bytes_changed t p a r q1) = oq_cow q1" for a r
    using assms(1) by (simp add: quota_bytes_changed_def cow_changed_none)
  with q1 show ?thesis
    unfolding account_drop_def Let_def Option.is_none_def q1_def [symmetric] by simp
qed

lemma account_drop_files:
  "oq_files (account_drop t p before after q) =
     (if before = None \<and> after \<noteq> None then oq_files q + 1
      else if before \<noteq> None \<and> after = None then saturating_sub (oq_files q) 1 else oq_files q)"
  by (auto simp: account_drop_def Let_def quota_file_created_def quota_file_removed_def quota_bytes_changed_def)

lemma set_file_length:
  assumes "distinct (map fst (ow_files w))"
  shows "length (ow_files (set_file t p after w)) =
    (if map_of (ow_files w) p = None \<and> after \<noteq> None then Suc (length (ow_files w))
     else if map_of (ow_files w) p \<noteq> None \<and> after = None then length (ow_files w) - 1 else length (ow_files w))"
  by (cases after) (simp_all add: set_file_def length_update [OF assms] length_delete [OF assms])

lemma set_file_files_exact:
  assumes "files_exact F w" "map_of (ow_copies w) (t, p) = None"
    "(t, p) \<notin> cr_checks (oq_cow (ow_quota w)) \<or> map_of (ow_files w) p = None \<and> after \<noteq> None"
    "map_of (ow_files w) p = None \<and> after \<noteq> None \<Longrightarrow> Suc (length (ow_files w)) < 2 ^ 64"
  shows "files_exact F (set_file t p after w)"
proof -
  have d: "distinct (map fst (ow_files w))" and n: "unat (oq_files (ow_quota w)) = length (ow_files w)"
    and none: "map_of (cr_copies (oq_cow (ow_quota w))) (t, p) = None"
    using assms(1,2) by (auto simp: files_exact_def)
  have "unat (oq_files (account_drop t p (map_of (ow_files w) p) after (ow_quota w)))
      = length (ow_files (set_file t p after w))"
    using n assms(4) by (auto simp: account_drop_files set_file_length [OF d] unat_saturating_sub unat_word_ariths)
  with account_drop_cow [OF none assms(3)] assms(1) show ?thesis
    by (cases after) (simp_all add: files_exact_def set_file_def policy_file_size_def distinct_update distinct_delete)
qed

lemma set_file_files:
  assumes "files_inv F M w" "map_of (ow_copies w) (t, p) = None"
    "(t, p) \<notin> cr_checks (oq_cow (ow_quota w)) \<or> map_of (ow_files w) p = None \<and> after \<noteq> None"
    "map_of (ow_files w) p = None \<and> after \<noteq> None \<Longrightarrow> length (ow_files w) + length (ow_copies w) < M"
  shows "files_inv F M (set_file t p after w)"
proof -
  have "files_exact F (set_file t p after w)"
    using assms by (intro set_file_files_exact) (auto simp: files_inv_def)
  moreover have "length (ow_files (set_file t p after w)) + length (ow_copies w) \<le> M"
    using assms by (auto simp: files_inv_def files_exact_def set_file_length)
  ultimately show ?thesis using assms(1) by (simp add: files_inv_def)
qed

section \<open>Sections and the file limit\<close>

lemma world_check_facts:
  assumes "world_check t op paths w = (r, w1)"
  shows "host_exists w1 = host_exists w" "map_of (ow_copies w1) = map_of (ow_copies w)" "ow_dirs w1 = ow_dirs w"
    "op \<noteq> Write \<Longrightarrow> op \<noteq> CopyOnWrite \<Longrightarrow> (t, p) \<notin> cr_checks (oq_cow (ow_quota w1))"
    "op = Write \<Longrightarrow> cr_checks (oq_cow (ow_quota w1)) = cr_checks (oq_cow (ow_quota w))"
    "op = CopyOnWrite \<Longrightarrow> p \<in> set paths \<Longrightarrow> (t, p) \<in> cr_checks (oq_cow (ow_quota w1))"
  using world_check_other [OF assms] world_check_result [OF assms] cow_mutation_clears [of op t p paths]
  by (auto simp: host_exists_def fun_eq_iff cow_mutation_def Let_def)

lemma world_check_slot:
  assumes "world_check t op [p] w = (Inr u, w1)" "op \<in> {Create, Symlink, OpenWrite}"
  shows "check_file_slot (host_exists w1) t p (ow_quota w1) = Inr ()"
  using assms world_check_facts(1) [OF assms(1)]
  by (auto simp: world_check_def quota_check_mutation_def Let_def split: sum.splits)

lemma create_file_files:
  assumes "files_inv F M w" "idle w t"
  shows "files_inv F M (snd (create_file t p w))"
  unfolding create_file_def
proof (rule file_sections.then_check [OF assms(1)], rule file_sections.writable, assumption, goal_cases)
  case (1 w1)
  note facts = world_check_facts [OF 1(1)] idle_lookup [OF assms(2)]
  have "length (ow_files w1) + length (ow_copies w1) < M" if "map_of (ow_files w1) p = None" "p \<notin> ow_dirs w1"
    using that facts(2) idle_lookup [OF assms(2)]
    by (intro slot_free [OF 1(2) world_check_slot [OF 1(1)]]) (auto simp: host_exists_def [of w1])
  with 1 facts show ?case by (auto intro!: set_file_files)
qed

lemma create_symlink_files:
  assumes "files_inv F M w" "idle w t"
  shows "files_inv F M (snd (create_symlink t p n w))"
  unfolding create_symlink_def
proof (rule file_sections.then_check [OF assms(1)], goal_cases)
  case (1 w1)
  note facts = world_check_facts [OF 1(1)] idle_lookup [OF assms(2)]
  have "files_inv F M (set_file t p (Some n) w1)" if "\<not> host_exists w1 p"
    using that 1 facts world_check_slot [OF 1(1)]
    by (intro set_file_files) (auto intro!: slot_free [OF 1(2), where t = t and p = p])
  then have "\<not> host_exists w1 p \<Longrightarrow>
      files_inv F M (snd (if_writable t p 0 n 0 (\<lambda>w. (Inr (), set_file t p (Some n) w)) w1))"
    by (intro file_sections.writable [OF 1(2)]) simp
  with 1(2) show ?case by simp
qed

text \<open>A change of bytes through a name that the thread neither copies nor has checked leaves the slots alone.\<close>

lemma bytes_only_files:
  assumes "files_inv F M w" "map_of (ow_copies w) (t, label) = None"
    "(t, label) \<notin> cr_checks (oq_cow (ow_quota w)) \<or> removed \<noteq> 0"
    "map fst fs = map fst (ow_files w)"
  shows "files_inv F M (w\<lparr>ow_files := fs, ow_quota := quota_bytes_changed t label added removed (ow_quota w)\<rparr>)"
    "files_inv F M (w\<lparr>ow_files := fs\<rparr>)"
    "files_inv F M (w\<lparr>ow_orphans := os, ow_quota := quota_bytes_changed t label added removed (ow_quota w)\<rparr>)"
proof -
  have "map_of (cr_copies (oq_cow (ow_quota w))) (t, label) = None"
    using assms(1,2) by (simp add: files_inv_def files_exact_def)
  then have cow: "oq_cow (quota_bytes_changed t label added removed (ow_quota w)) = oq_cow (ow_quota w)"
    using assms(3) by (simp add: quota_bytes_changed_def cow_changed_none)
  have "length fs = length (ow_files w)" using assms(4) by (metis length_map)
  with cow assms(1,4) show "files_inv F M (w\<lparr>ow_files := fs, ow_quota := quota_bytes_changed t label added removed (ow_quota w)\<rparr>)"
    "files_inv F M (w\<lparr>ow_files := fs\<rparr>)"
    "files_inv F M (w\<lparr>ow_orphans := os, ow_quota := quota_bytes_changed t label added removed (ow_quota w)\<rparr>)"
    by (simp_all add: files_inv_def files_exact_def)
qed

lemma update_keys_same: "map_of xs k = Some old \<Longrightarrow> map fst (AList.update k v xs) = map fst xs"
  by (induction xs) auto

lemma write_at_files:
  assumes "files_inv F M w" "idle w t" "no_stale_check True t label w"
  shows "files_inv F M (snd (write_at t label p offset len written w))"
  unfolding write_at_def
proof (rule file_sections.then_check [OF assms(1)], goal_cases)
  case (1 w1)
  note facts = world_check_facts [OF 1(1)] idle_lookup [OF assms(2)]
  show ?case
  proof (cases "policy_file_size w1 p")
    case (Some sz)
    then have keys: "map fst (AList.update p v (ow_files w1)) = map fst (ow_files w1)" for v
      by (simp add: policy_file_size_def update_keys_same)
    have clean: "map_of (ow_copies w1) (t, label) = None" "(t, label) \<notin> cr_checks (oq_cow (ow_quota w1))"
      using facts assms(3) by (simp_all add: no_stale_check_def)
    show ?thesis unfolding Some option.case
      by (rule file_sections.writable [OF 1(2)])
        (simp add: Let_def bytes_only_files(1) [OF 1(2) clean(1) _ keys] bytes_only_files(2) [OF 1(2) clean(1) _ keys] clean(2))
  qed (use 1 in simp)
qed

lemma truncate_file_files:
  assumes "files_inv F M w" "idle w t"
  shows "files_inv F M (snd (truncate_file t label p sz w))"
  unfolding truncate_file_def
proof (rule file_sections.then_check [OF assms(1)], goal_cases)
  case (1 w1)
  note facts = world_check_facts [OF 1(1)] idle_lookup [OF assms(2)]
  show ?case
  proof (cases "policy_file_size w1 p")
    case (Some old)
    then have keys: "map fst (AList.update p sz (ow_files w1)) = map fst (ow_files w1)"
      by (simp add: policy_file_size_def update_keys_same)
    show ?thesis unfolding Some option.case
      by (rule file_sections.writable [OF 1(2)])
        (simp add: bytes_only_files(1) [OF 1(2) _ _ keys] facts)
  qed (use 1 in simp)
qed

lemma account_drop_checks: "cr_checks (oq_cow (account_drop t p before after q)) \<subseteq> cr_checks (oq_cow q)"
  by (auto simp: account_drop_def Let_def quota_file_created_def quota_bytes_changed_def quota_file_removed_def
      cow_created_def cow_changed_def split: option.splits if_splits)

lemma add_orphan_other [simp]:
  "ow_files (add_orphan ino sz w) = ow_files w" "ow_copies (add_orphan ino sz w) = ow_copies w"
  "ow_quota (add_orphan ino sz w) = ow_quota w"
  by (simp_all add: add_orphan_def split: option.splits)

lemma add_orphan_files [simp]: "files_inv F M (add_orphan ino sz w) = files_inv F M w"
  by (simp add: files_inv_def files_exact_def)

lemma unlink_files:
  assumes "files_inv F M w" "idle w t"
  shows "files_inv F M (snd (unlink t p ino w))"
  unfolding unlink_def
proof (rule file_sections.then_check [OF assms(1)], goal_cases)
  case (1 w1)
  with world_check_facts [OF 1(1)] idle_lookup [OF assms(2)] show ?case by (auto intro!: set_file_files)
qed

lemma rename_files:
  assumes "files_inv F M w" "idle w t" "no_stale_check True t from w" "no_stale_check True t to w"
  shows "files_inv F M (snd (rename t from to ino w))"
proof (cases "from = to \<or> to \<in> ow_dirs w \<or> policy_file_size w from = None")
  case False
  then obtain n where n: "map_of (ow_files w) from = Some n" and ne: "from \<noteq> to"
    by (auto simp: policy_file_size_def)
  let ?w2 = "set_file t to (Some n) w"
  let ?w3 = "set_file t from None ?w2"
  have inv: "files_exact F w" "length (ow_files w) + length (ow_copies w) \<le> M" "unat F \<le> M" "M < 2 ^ 64 - 1"
    "distinct (map fst (ow_files w))"
    using assms(1) by (auto simp: files_inv_def files_exact_def)
  have none: "map_of (ow_copies w) (t, to) = None" "map_of (ow_copies w) (t, from) = None"
    "(t, to) \<notin> cr_checks (oq_cow (ow_quota w))" "(t, from) \<notin> cr_checks (oq_cow (ow_quota w))"
    using idle_lookup [OF assms(2)] assms(3,4) by (simp_all add: no_stale_check_def)
  have e2: "files_exact F ?w2" using inv none by (intro set_file_files_exact) simp_all
  have chk: "(t, from) \<notin> cr_checks (oq_cow (ow_quota ?w2))"
    using none(4) by (auto simp: set_file_def dest: subsetD [OF account_drop_checks])
  have len2: "length (ow_files ?w2) \<le> Suc (length (ow_files w))"
    by (simp add: set_file_length [OF inv(5)])
  have gone: "map_of (ow_files ?w2) from = Some n" using n ne by (simp add: set_file_lookup)
  have e3: "files_exact F ?w3" using none chk by (intro set_file_files_exact [OF e2]) simp_all
  have "length (ow_files ?w3) = length (ow_files ?w2) - 1"
    using e2 by (simp add: set_file_length files_exact_def gone)
  with len2 e3 inv have "files_inv F M ?w3" by (simp add: files_inv_def)
  with False n show ?thesis by (auto simp: rename_def policy_file_size_def)
qed (use assms in \<open>auto simp: rename_def split: option.splits\<close>)

lemma mkdir_files: "files_inv F M w \<Longrightarrow> files_inv F M (snd (mkdir t p w))"
  unfolding mkdir_def
  by (rule file_sections.then_check, assumption) (simp add: files_inv_def files_exact_def)

lemma dirs_files: "files_inv F M w \<Longrightarrow> files_inv F M (w\<lparr>ow_dirs := dirs\<rparr>)"
  by (simp add: files_inv_def files_exact_def)

lemma rmdir_files: "files_inv F M w \<Longrightarrow> files_inv F M (snd (rmdir t p w))"
  unfolding rmdir_def
  by (rule file_sections.then_check, assumption) (simp add: files_inv_def files_exact_def)

definition no_checks_by :: "nat \<Rightarrow> overlay_world \<Rightarrow> bool" where
  "no_checks_by t w = (\<forall>p. (t, p) \<notin> cr_checks (oq_cow (ow_quota w)) \<and> map_of (ow_copies w) (t, p) = None)"

lemma set_file_no_checks: "no_checks_by t w \<Longrightarrow> no_checks_by t (set_file t p after w)"
  by (auto simp: no_checks_by_def set_file_def dest: subsetD [OF account_drop_checks])

lemma remove_each_files: "files_inv F M w \<Longrightarrow> no_checks_by t w \<Longrightarrow> files_inv F M (remove_each t ps w)"
proof (induction t ps w rule: remove_each.induct)
  case (2 t p ps w)
  then have "files_inv F M (set_file t p None w)" by (intro set_file_files) (auto simp: no_checks_by_def)
  with 2 set_file_no_checks show ?case by simp
qed simp

lemma check_each_no_checks: "no_checks_by t w \<Longrightarrow> no_checks_by t (snd (check_each t ps w))"
proof (induction ps arbitrary: w)
  case (Cons p ps)
  obtain r w1 where r: "world_check t Unlink [p] w = (r, w1)" by (cases "world_check t Unlink [p] w")
  have "no_checks_by t w1"
    using Cons.prems world_check_facts [OF r] by (auto simp: no_checks_by_def)
  with Cons.IH [of w1] r show ?case by (cases r) (simp_all add: then_do_def)
qed simp

lemma reset_files:
  assumes "files_inv F M w" "idle w t"
  shows "files_inv F M (snd (reset_overlay_contents t w))"
  unfolding reset_overlay_contents_def
proof (rule file_sections.then_check [OF assms(1)], goal_cases)
  case (1 w1)
  obtain r w2 where r: "check_each t (map fst (ow_files w1)) w1 = (r, w2)"
    by (cases "check_each t (map fst (ow_files w1)) w1")
  have clean: "no_checks_by t w1"
    using world_check_facts [OF 1(1)] idle_lookup [OF assms(2)] by (auto simp: no_checks_by_def)
  have "files_inv F M w2" "no_checks_by t w2"
    using file_sections.check_each_keeps [OF 1(2), of t "map fst (ow_files w1)"]
      check_each_no_checks [OF clean, of "map fst (ow_files w1)"] r by simp_all
  then have "files_inv F M (remove_each t (map fst (ow_files w2)) w2)" by (rule remove_each_files)
  with r \<open>files_inv F M w2\<close> show ?case
    by (cases r) (simp_all add: then_do_def files_inv_def files_exact_def)
qed

lemma account_orphan_label:
  "map_of (ow_orphans w) ino = Some o1 \<Longrightarrow> account_orphan t label added removed o1 q = (o2, q') \<Longrightarrow>
     \<exists>freed. q' = quota_bytes_changed t (orphan_label ino label w) added freed q"
  by (auto simp: account_orphan_def orphan_label_def Let_def split: option.splits)

lemma orphan_files:
  assumes "files_inv F M w" "map_of (ow_orphans w) ino = Some o1"
    "map_of (ow_copies w) (t, orphan_label ino label w) = None"
    "(t, orphan_label ino label w) \<notin> cr_checks (oq_cow (ow_quota w))"
    "account_orphan t label added removed o1 (ow_quota w) = (o2, q)"
  shows "files_inv F M (w\<lparr>ow_orphans := os, ow_quota := q\<rparr>)"
proof -
  obtain freed where "q = quota_bytes_changed t (orphan_label ino label w) added freed (ow_quota w)"
    using account_orphan_label [OF assms(2,5)] by blast
  with bytes_only_files(3) [OF assms(1,3), of freed "ow_files w"] assms(4) show ?thesis by simp
qed

lemma orphan_label_cong: "ow_orphans w1 = ow_orphans w \<Longrightarrow> orphan_label ino label w1 = orphan_label ino label w"
  by (simp add: orphan_label_def)

lemma write_orphan_files:
  assumes "files_inv F M w" "idle w t" "no_stale_check True t (orphan_label ino label w) w"
  shows "files_inv F M (snd (write_orphan t label ino offset len written w))"
  unfolding write_orphan_def
proof (rule file_sections.then_check [OF assms(1)], goal_cases)
  case (1 w1)
  note facts = world_check_facts [OF 1(1)] idle_lookup [OF assms(2)]
  have lab: "orphan_label ino label w1 = orphan_label ino label w"
    using world_check_other [OF 1(1)] by (intro orphan_label_cong) simp
  show ?case
  proof (cases "map_of (ow_orphans w1) ino")
    case (Some o1)
    let ?added = "if written = 0 then 0 else saturating_sub (saturating_add offset written) (or_size o1)"
    obtain o2 q where oq: "account_orphan t label ?added 0 o1 (ow_quota w1) = (o2, q)" by fastforce
    have "files_inv F M (w1\<lparr>ow_orphans := os, ow_quota := q\<rparr>)" for os
      using facts assms(3) by (intro orphan_files [OF 1(2) Some _ _ oq]) (simp_all add: lab no_stale_check_def)
    then show ?thesis unfolding Some option.case
      by (intro file_sections.writable [OF 1(2)]) (simp add: Let_def oq del: if_split)
  qed (use 1 in simp)
qed

lemma truncate_orphan_files:
  assumes "files_inv F M w" "idle w t"
  shows "files_inv F M (snd (truncate_orphan t label ino sz w))"
  unfolding truncate_orphan_def
proof (rule file_sections.then_check [OF assms(1)], goal_cases)
  case (1 w1)
  note facts = world_check_facts [OF 1(1)] idle_lookup [OF assms(2)]
  show ?case
  proof (cases "map_of (ow_orphans w1) ino")
    case (Some o1)
    obtain o2 q where oq: "account_orphan t label (saturating_sub sz (or_size o1)) (saturating_sub (or_size o1) sz) o1
        (ow_quota w1) = (o2, q)" by fastforce
    have "files_inv F M (w1\<lparr>ow_orphans := os, ow_quota := q\<rparr>)" for os
      using facts by (intro orphan_files [OF 1(2) Some _ _ oq]) simp_all
    then show ?thesis unfolding Some option.case
      by (intro file_sections.writable [OF 1(2)]) (simp add: oq)
  qed (use 1 in simp)
qed

lemma release_orphan_files:
  assumes "files_inv F M w" "idle w t" "no_stale_check True t (orphan_label ino [] w) w"
  shows "files_inv F M (release_orphan t ino w)"
proof (cases "map_of (ow_orphans w) ino")
  case (Some o1)
  show ?thesis
  proof (cases "or_growth o1")
    case None
    with Some assms(1) show ?thesis by (simp add: release_orphan_def files_inv_def files_exact_def)
  next
    case g: (Some e)
    obtain path n where e: "e = (path, n)" by (cases e)
    with g Some have "orphan_label ino [] w = path" by (simp add: orphan_label_def)
    with assms(3) have "(t, path) \<notin> cr_checks (oq_cow (ow_quota w))" by (simp add: no_stale_check_def)
    with bytes_only_files(3) [OF assms(1) idle_lookup [OF assms(2)], of path n "ow_files w"] g Some e show ?thesis
      by (simp add: release_orphan_def)
  qed
qed (use assms in \<open>simp add: release_orphan_def\<close>)

text \<open>Copies: the reservation map follows the copies under way.\<close>

lemma cow_checked_slot:
  assumes "files_inv F M w1" "map_of (ow_copies w1) (t, p) = None" "\<not> host_exists w1 p"
    "(t, p) \<in> cr_checks (oq_cow (ow_quota w1))" "world_check_write t p 0 n 0 w1 = Inr ()"
  shows "length (ow_files w1) + length (ow_copies w1) < M"
  using assms check_write_slot [of "host_exists w1" t p 0 n 0 "ow_quota w1" "()"]
  by (intro slot_free [OF assms(1)]) (auto simp: world_check_write_def)

lemma reserve_files:
  assumes "files_inv F M w" "map_of (ow_copies w) (t, p) = None" "(t, p) \<in> cr_checks (oq_cow (ow_quota w))"
    "length (ow_files w) + length (ow_copies w) < M"
  shows "files_inv F M (w\<lparr>ow_quota := quota_bytes_changed t p (cc_bytes c) 0 (ow_quota w),
    ow_copies := ((t, p), c) # ow_copies w\<rparr>)"
proof -
  have none: "map_of (cr_copies (oq_cow (ow_quota w))) (t, p) = None" and fresh: "(t, p) \<notin> fst ` set (ow_copies w)"
    using assms(1,2) by (auto simp: files_inv_def files_exact_def map_of_eq_None_iff)
  then have "cr_copies (oq_cow (quota_bytes_changed t p (cc_bytes c) 0 (ow_quota w)))
      = AList.update (t, p) (cc_bytes c) (cr_copies (oq_cow (ow_quota w)))"
    using assms(3) by (simp add: quota_bytes_changed_def cow_changed_def)
  with assms(1,4) fresh show ?thesis
    by (simp add: files_inv_def files_exact_def distinct_update update_conv' fun_eq_iff)
qed

lemma cow_begin_files:
  assumes "files_inv F M w" "idle w t"
  shows "files_inv F M (snd (cow_begin t p sz limit w))"
proof (cases "host_exists w p")
  case False
  let ?bytes = "case limit of None \<Rightarrow> sz | Some n \<Rightarrow> n"
  let ?c = "\<lparr>cc_bytes = ?bytes, cc_offset = 0, cc_size = sz, cc_truncate = limit\<rparr>"
  show ?thesis unfolding cow_begin_def Let_def if_not_P [OF False]
  proof (rule file_sections.then_check [OF assms(1)], rule file_sections.then_check, assumption,
      rule file_sections.writable, assumption, goal_cases)
    case (1 w1 w2)
    have facts: "map_of (ow_copies w2) (t, p) = None" "\<not> host_exists w2 p" "(t, p) \<in> cr_checks (oq_cow (ow_quota w2))"
      using False idle_lookup [OF assms(2)] world_check_facts(1,2,6) [OF 1(1)] world_check_facts(1,2,5) [OF 1(3)]
      by simp_all
    have "files_inv F M (w2\<lparr>ow_quota := quota_bytes_changed t p (cc_bytes ?c) 0 (ow_quota w2),
        ow_copies := ((t, p), ?c) # ow_copies w2\<rparr>)"
      using cow_checked_slot [OF 1(4) facts 1(5)] by (intro reserve_files [OF 1(4) facts(1,3)])
    then show ?case by simp
  qed
qed (use assms in \<open>simp add: cow_begin_def\<close>)

lemma cow_link_files:
  assumes "files_inv F M w" "idle w t"
  shows "files_inv F M (snd (cow_link t p n w))"
proof (cases "host_exists w p")
  case False
  show ?thesis unfolding cow_link_def if_not_P [OF False]
  proof (rule file_sections.then_check [OF assms(1)], rule file_sections.writable, assumption, goal_cases)
    case (1 w1)
    have facts: "map_of (ow_copies w1) (t, p) = None" "\<not> host_exists w1 p" "(t, p) \<in> cr_checks (oq_cow (ow_quota w1))"
      using False idle_lookup [OF assms(2)] world_check_facts(1,2,6) [OF 1(1)] by simp_all
    with cow_checked_slot [OF 1(2) facts 1(3)] show ?case
      by (auto intro!: set_file_files [OF 1(2)] simp: host_exists_def [of w1])
  qed
qed (use assms in \<open>simp add: cow_link_def\<close>)

lemma cow_read_files:
  assumes "files_inv F M w" "map_of (ow_copies w) (t, p) = Some c"
  shows "files_inv F M (snd (cow_read t p n w))"
proof -
  let ?e = "cc_offset c + n"
  have same: "map fst (AList.update (t, p) v (ow_copies w)) = map fst (ow_copies w)" for v
    by (rule update_keys_same [OF assms(2)])
  then have len: "length (AList.update (t, p) v (ow_copies w)) = length (ow_copies w)" for v by (metis length_map)
  have key: "map_of (cr_copies (oq_cow (ow_quota w))) (t, p) = Some (cc_bytes c)"
    using assms by (simp add: files_inv_def files_exact_def)
  show ?thesis
  proof (cases "?e > cc_bytes c")
    case True
    then have "saturating_sub (saturating_add (cc_bytes c) (?e - cc_bytes c)) 0 = ?e" "?e - cc_bytes c \<noteq> 0"
      using unsigned_less [of ?e, where 'a = nat]
      by (auto simp: word_less_nat_alt saturating_add_def saturating_sub_def unat_sub_if')
    then have copies: "cr_copies (oq_cow (quota_bytes_changed t p (?e - cc_bytes c) 0 (ow_quota w)))
        = AList.update (t, p) ?e (cr_copies (oq_cow (ow_quota w)))"
      using key by (simp add: quota_bytes_changed_def cow_changed_def)
    have "files_inv F M (w\<lparr>ow_quota := quota_bytes_changed t p (?e - cc_bytes c) 0 (ow_quota w),
        ow_copies := AList.update (t, p) (c\<lparr>cc_bytes := ?e, cc_offset := ?e\<rparr>) (ow_copies w)\<rparr>)"
      using assms(1) by (auto simp: files_inv_def files_exact_def copies same len distinct_update update_conv' fun_eq_iff)
    with True assms show ?thesis
      by (auto simp: cow_read_def Let_def intro!: file_sections.writable)
  next
    case False
    have "files_inv F M (w\<lparr>ow_copies := AList.update (t, p) (c\<lparr>cc_offset := ?e\<rparr>) (ow_copies w)\<rparr>)"
      using assms by (auto simp: files_inv_def files_exact_def same len update_conv' fun_eq_iff)
    with False assms(2) show ?thesis by (simp add: cow_read_def Let_def)
  qed
qed

lemma cow_drop_files:
  assumes "files_inv F M w"
  shows "files_inv F M (cow_drop t p w)"
proof (cases "map_of (ow_copies w) (t, p)")
  case (Some c)
  then have "map_of (cr_copies (oq_cow (ow_quota w))) (t, p) = Some (cc_bytes c)"
    using assms by (simp add: files_inv_def files_exact_def)
  then have "cr_copies (oq_cow (quota_bytes_changed t p 0 (cc_bytes c) (ow_quota w)))
      = AList.delete (t, p) (cr_copies (oq_cow (ow_quota w)))"
    by (simp add: quota_bytes_changed_def cow_changed_def Let_def)
  with Some assms show ?thesis
    by (auto simp: cow_drop_def files_inv_def files_exact_def distinct_delete delete_conv' fun_eq_iff length_delete)
qed (use assms in \<open>simp add: cow_drop_def\<close>)

lemma publish_cow:
  "cr_copies (cow_changed t p 0 0 (cow_created t p (cow_changed t p 0 r cow))) = AList.delete (t, p) (cr_copies cow)"
proof -
  have created: "cow_changed t p 0 0 (cow_created t p x) = cow_created t p x" for x
    by (rule cow_changed_none) (simp_all add: cow_created_def delete_conv')
  show ?thesis unfolding created
    by (auto simp: cow_created_def cow_changed_def Let_def delete_idem delete_update_same split: option.splits)
qed

lemma cow_publish_files:
  assumes "files_inv F M w"
  shows "files_inv F M (snd (cow_publish t p w))"
proof (cases "map_of (ow_copies w) (t, p)")
  case (Some c)
  show ?thesis
  proof (cases "cc_offset c \<noteq> cow_expected c \<or> host_exists w p")
    case True
    with Some cow_drop_files [OF assms] show ?thesis by (auto simp: cow_publish_def)
  next
    case False
    then have absent: "map_of (ow_files w) p = None" by (simp add: host_exists_def)
    have d: "distinct (map fst (ow_files w))" "distinct (map fst (ow_copies w))"
      and n: "unat (oq_files (ow_quota w)) = length (ow_files w)" "length (ow_files w) + length (ow_copies w) \<le> M" "M < 2 ^ 64 - 1"
      using assms by (auto simp: files_inv_def files_exact_def)
    have "length (ow_copies w) \<noteq> 0" using Some by auto
    then have sum: "Suc (length (ow_files w)) + (length (ow_copies w) - 1) \<le> M" using n(2) by arith
    have "unat (oq_files (ow_quota w) + 1) = Suc (length (ow_files w))" using n by (simp add: unat_word_ariths)
    with False Some assms sum show ?thesis
      by (auto simp: cow_publish_def Let_def files_inv_def files_exact_def quota_bytes_changed_def quota_file_created_def
          publish_cow length_update [OF d(1)] length_delete [OF d(2)] absent distinct_update distinct_delete delete_conv'
          fun_eq_iff)
  qed
qed (use assms in \<open>simp add: cow_publish_def\<close>)

lemma overlay_step_files: "overlay_step True w w' \<Longrightarrow> files_inv F M w \<Longrightarrow> files_inv F M w'"
  by (induction rule: overlay_step.induct)
    (simp_all add: file_sections.check_keeps file_sections.refused create_file_files create_symlink_files write_at_files truncate_file_files
      unlink_files rename_files mkdir_files dirs_files rmdir_files reset_files write_orphan_files truncate_orphan_files
      release_orphan_files cow_begin_files cow_link_files cow_read_files cow_publish_files cow_drop_files)

lemma overlay_reach_files: "overlay_reach True w0 w \<Longrightarrow> files_inv F M w0 \<Longrightarrow> files_inv F M w"
  by (induction rule: overlay_reach.induct) (auto intro: overlay_step_files)

text \<open>C6: Start a quota on an existing folder with a file limit. After any interleaving of overlay sections in which
  no thread writes through, or renames, a name it still holds a copy-on-write check for, the accounted files are the files and
  links in the folder, the reported usage adds one for every copy under way, and that sum does not exceed the limit,
  or what the folder held at the start when that was more.\<close>

theorem quota_files_bounded:
  assumes "quota_new root byte_limit (Some F) = Inr q" and "distinct (map fst (host_files [] root))"
    and "length (host_files [] root) < 2 ^ 64 - 1" and "unat F < 2 ^ 64 - 1"
    and "overlay_reach True (initial_world root dirs q) w"
  shows "unat (oq_files (ow_quota w)) = length (ow_files w)
    \<and> unat (qu_files (oq_usage readonly (ow_quota w))) = length (ow_files w) + length (ow_copies w)
    \<and> length (ow_files w) + length (ow_copies w) \<le> max (unat F) (length (host_files [] root))"
proof -
  let ?M = "max (unat F) (length (host_files [] root))"
  have "files_inv F ?M (initial_world root dirs q)"
    using assms quota_new_counts [OF assms(1)]
    by (simp add: files_inv_def files_exact_def initial_world_def cow_default_def unat_of_nat fun_eq_iff)
  then have inv: "files_inv F ?M w" by (rule overlay_reach_files [OF assms(5)])
  with used_slots_exact [OF inv] show ?thesis by (simp add: files_inv_def files_exact_def oq_usage_def)
qed

end
