(* ===== verification/Quota_Runs.thy ===== *)
theory Quota_Runs
  imports Quota_Files
begin

text \<open>
  Runs of the overlay sections under a quota: a copy interleaved with a rename, on which the byte and file properties
  are instantiated, and the sequence by which a stale copy-on-write check defeats the file limit.
\<close>

lemmas run_defs =
  world_check_def quota_check_mutation_def check_file_slot_def used_slots_def world_check_write_def quota_check_write_def
  then_do_def if_writable_def host_exists_def policy_file_size_def cow_mutation_def cow_changed_def cow_created_def
  quota_bytes_changed_def quota_file_created_def quota_file_removed_def account_drop_def set_file_def add_orphan_def
  saturating_add_def saturating_sub_def checked_add_def cow_begin_def cow_publish_def cow_read_def cow_drop_def
  cow_expected_def write_at_def rename_def create_file_def Let_def

lemma filter_checks:
  "{a. a = x \<and> P a} = (if P x then {x} else {})"
  "{a. (a = x \<or> a = y) \<and> P a} = (if P x then {x} else {}) \<union> (if P y then {y} else {})"
  by auto

lemmas internal_defs =
  is_overlay_internal_path_def is_overlay_internal_name_def has_ascii_prefix_def eq_ignore_ascii_case_def
  HIDDEN_DB_def COW_STAGING_PREFIX_def SEAL_COMMIT_LOCK_def OVERLAY_MARKER_def to_ascii_lowercase_def

lemma sample_names:
  "\<not> is_overlay_internal_path ''/a''" "\<not> is_overlay_internal_path ''/c''" "\<not> is_overlay_internal_path ''/m''"
  "\<not> is_overlay_internal_path ''/p''" "\<not> is_overlay_internal_path ''/r''"
  by (simp_all add: internal_defs)

lemma sample_allowed:
  "refuse_internal [''/m''] f w = f w" "refuse_internal [''/p''] f w = f w"
  "refuse_internal [''/a'', ''/c''] f w = f w" "refuse_internal [''/p'', ''/r''] f w = f w"
  by (simp_all add: refuse_internal_def sample_names)

definition world :: "u64 \<Rightarrow> u64 \<Rightarrow> u64 \<Rightarrow> u64 \<Rightarrow> copy_reservations \<Rightarrow> (string \<times> u64) list
    \<Rightarrow> (cow_key \<times> cow_copy) list \<Rightarrow> overlay_world" where
  "world byte_limit file_limit bytes files cow fs copies =
     \<lparr>ow_quota = \<lparr>oq_byte_limit = Some byte_limit, oq_file_limit = Some file_limit, oq_bytes = bytes, oq_files = files,
        oq_cow = cow\<rparr>, ow_files = fs, ow_dirs = {}, ow_copies = copies, ow_orphans = []\<rparr>"

definition reserved :: "(cow_key \<times> u64) list \<Rightarrow> cow_key set \<Rightarrow> copy_reservations" where
  "reserved copies checks = \<lparr>cr_copies = copies, cr_checks = checks\<rparr>"

definition running :: "u64 \<Rightarrow> u64 \<Rightarrow> u64 \<Rightarrow> u64 option \<Rightarrow> cow_copy" where
  "running bytes offset sz limit = \<lparr>cc_bytes = bytes, cc_offset = offset, cc_size = sz, cc_truncate = limit\<rparr>"

lemmas world_defs = world_def reserved_def running_def idle_def no_stale_check_def within_limit_def fresh_ino_def

text \<open>Thread 3 copies a member of eight bytes while thread 2 renames a file.\<close>

definition sample_root :: "(string \<times> host_node) list" where
  "sample_root = [(''a'', HostFile 3), (''b'', HostSymlink 2)]"

definition sample_quota :: overlay_quota where
  "sample_quota = \<lparr>oq_byte_limit = Some 20, oq_file_limit = Some 3, oq_bytes = 5, oq_files = 2, oq_cow = cow_default\<rparr>"

definition sample_end :: overlay_world where
  "sample_end = world 20 3 13 3 (reserved [] {}) [(''/b'', 2), (''/c'', 3), (''/m'', 8)] []"

lemma sample_new: "quota_new sample_root (Some 20) (Some 3) = Inr sample_quota"
  by (simp add: sample_root_def sample_quota_def quota_new_def usage_scan_def count_file_def checked_add_def internal_defs)

lemma sample_files: "host_files [] sample_root = [(''/a'', 3), (''/b'', 2)]"
  by (simp add: sample_root_def internal_defs)

lemma sample_steps:
  "snd (cow_begin 3 ''/m'' 8 None (initial_world sample_root {} sample_quota)) =
     world 20 3 13 2 (reserved [((3, ''/m''), 8)] {(3, ''/m'')}) [(''/a'', 3), (''/b'', 2)] [((3, ''/m''), running 8 0 8 None)]"
  "snd (rename 2 ''/a'' ''/c'' None
       (world 20 3 13 2 (reserved [((3, ''/m''), 8)] {(3, ''/m'')}) [(''/a'', 3), (''/b'', 2)] [((3, ''/m''), running 8 0 8 None)])) =
     world 20 3 13 2 (reserved [((3, ''/m''), 8)] {(3, ''/m'')}) [(''/b'', 2), (''/c'', 3)] [((3, ''/m''), running 8 0 8 None)]"
  "snd (cow_read 3 ''/m'' 8
       (world 20 3 13 2 (reserved [((3, ''/m''), 8)] {(3, ''/m'')}) [(''/b'', 2), (''/c'', 3)] [((3, ''/m''), running 8 0 8 None)])) =
     world 20 3 13 2 (reserved [((3, ''/m''), 8)] {(3, ''/m'')}) [(''/b'', 2), (''/c'', 3)] [((3, ''/m''), running 8 8 8 None)]"
  "snd (cow_publish 3 ''/m''
       (world 20 3 13 2 (reserved [((3, ''/m''), 8)] {(3, ''/m'')}) [(''/b'', 2), (''/c'', 3)] [((3, ''/m''), running 8 8 8 None)])) =
     sample_end"
  by (simp_all add: initial_world_def sample_files sample_quota_def cow_default_def sample_end_def world_defs run_defs filter_checks)

lemma sample_reached: "overlay_reach strict (initial_world sample_root {} sample_quota) sample_end"
proof -
  let ?w0 = "initial_world sample_root {} sample_quota"
  let ?w1 = "snd (cow_begin 3 ''/m'' 8 None ?w0)"
  let ?w2 = "snd (rename 2 ''/a'' ''/c'' None ?w1)"
  let ?w3 = "snd (cow_read 3 ''/m'' 8 ?w2)"
  have "overlay_step strict ?w0 ?w1"
    by (rule step_cow_begin [where p = "''/m''", unfolded sample_allowed]) (simp add: initial_world_def idle_def)
  moreover have "overlay_step strict ?w1 ?w2"
    by (rule step_rename [where src = "''/a''" and dst = "''/c''", unfolded sample_allowed]) (unfold sample_steps, simp_all add: world_defs)
  moreover have "overlay_step strict ?w2 ?w3"
    by (rule step_cow_read [where c = "running 8 0 8 None"]) (unfold sample_steps, simp_all add: world_defs)
  moreover have "overlay_step strict ?w3 (snd (cow_publish 3 ''/m'' ?w3))" by (rule step_cow_publish)
  ultimately have "overlay_reach strict ?w0 (snd (cow_publish 3 ''/m'' ?w3))" by (meson reach_start reach_step)
  then show ?thesis by (simp only: sample_steps)
qed

theorem quota_bytes_exact_witness:
  "unat (oq_bytes (ow_quota sample_end)) = charged_bytes sample_end \<and> charged_bytes sample_end \<le> 20"
  using quota_bytes_exact [OF sample_new _ _ _ sample_reached] by (simp add: sample_files sample_quota_def)

theorem quota_files_bounded_witness:
  "unat (oq_files (ow_quota sample_end)) = length (ow_files sample_end)
   \<and> unat (qu_files (oq_usage None (ow_quota sample_end))) = length (ow_files sample_end) + length (ow_copies sample_end)
   \<and> length (ow_files sample_end) + length (ow_copies sample_end) \<le> 3"
  using quota_files_bounded [OF sample_new _ _ _ sample_reached, of None] by (simp add: sample_files)

text \<open>The steps of that sequence. Thread 3 is refused the copy of \<open>/p\<close> and keeps its check; thread 2
  copies it truncated, which takes the only slot. A write of thread 3 to that file then reserves a slot that stands
  for no file. Once thread 2 has renamed the file away, thread 3 creates \<open>/p\<close> without a slot check.\<close>

lemma stale_steps:
  "snd (cow_begin 3 ''/p'' 10 None (world 4 1 0 0 (reserved [] {}) [] [])) =
     world 4 1 0 0 (reserved [] {(3, ''/p'')}) [] []"
  "snd (cow_begin 2 ''/p'' 10 (Some 0) (world 4 1 0 0 (reserved [] {(3, ''/p'')}) [] [])) =
     world 4 1 0 0 (reserved [((2, ''/p''), 0)] {(2, ''/p''), (3, ''/p'')}) [] [((2, ''/p''), running 0 0 10 (Some 0))]"
  "snd (cow_publish 2 ''/p''
       (world 4 1 0 0 (reserved [((2, ''/p''), 0)] {(2, ''/p''), (3, ''/p'')}) [] [((2, ''/p''), running 0 0 10 (Some 0))])) =
     world 4 1 0 1 (reserved [] {(3, ''/p'')}) [(''/p'', 0)] []"
  "snd (write_at 3 ''/p'' ''/p'' 0 1 1 (world 4 1 0 1 (reserved [] {(3, ''/p'')}) [(''/p'', 0)] [])) =
     world 4 1 1 1 (reserved [((3, ''/p''), 1)] {(3, ''/p'')}) [(''/p'', 1)] []"
  "snd (rename 2 ''/p'' ''/r'' None (world 4 1 1 1 (reserved [((3, ''/p''), 1)] {(3, ''/p'')}) [(''/p'', 1)] [])) =
     world 4 1 1 1 (reserved [((3, ''/p''), 1)] {(3, ''/p'')}) [(''/r'', 1)] []"
  "snd (create_file 3 ''/p'' (world 4 1 1 1 (reserved [((3, ''/p''), 1)] {(3, ''/p'')}) [(''/r'', 1)] [])) =
     world 4 1 1 2 (reserved [] {}) [(''/r'', 1), (''/p'', 0)] []"
  by (simp_all add: world_defs run_defs filter_checks)

text \<open>C16: A stale copy-on-write check defeats the file limit: on an empty folder with a limit of one file there is a
  sequence of six sections of two threads after which the quota accounts two files and the folder holds two.\<close>

theorem file_quota_bypassed:
  "\<exists>q w. quota_new [] (Some 4) (Some 1) = Inr q \<and> overlay_reach False (initial_world [] {} q) w
     \<and> oq_file_limit (ow_quota w) = Some 1 \<and> oq_files (ow_quota w) = 2 \<and> length (ow_files w) = 2"
proof -
  let ?q = "\<lparr>oq_byte_limit = Some 4, oq_file_limit = Some 1, oq_bytes = 0, oq_files = 0, oq_cow = cow_default\<rparr>"
  let ?w0 = "world 4 1 0 0 (reserved [] {}) [] []"
  let ?w1 = "snd (cow_begin 3 ''/p'' 10 None ?w0)"
  let ?w2 = "snd (cow_begin 2 ''/p'' 10 (Some 0) ?w1)"
  let ?w3 = "snd (cow_publish 2 ''/p'' ?w2)"
  let ?w4 = "snd (write_at 3 ''/p'' ''/p'' 0 1 1 ?w3)"
  let ?w5 = "snd (rename 2 ''/p'' ''/r'' None ?w4)"
  let ?w6 = "snd (create_file 3 ''/p'' ?w5)"
  have "overlay_step False ?w0 ?w1"
    by (rule step_cow_begin [where p = "''/p''", unfolded sample_allowed]) (simp add: world_defs)
  moreover have "overlay_step False ?w1 ?w2"
    by (rule step_cow_begin [where p = "''/p''", unfolded sample_allowed]) (unfold stale_steps, simp add: world_defs)
  moreover have "overlay_step False ?w2 ?w3"
    by (rule step_cow_publish)
  moreover have "overlay_step False ?w3 ?w4"
    by (rule step_write [where label = "''/p''", unfolded sample_allowed]) (unfold stale_steps, simp_all add: world_defs)
  moreover have "overlay_step False ?w4 ?w5"
    by (rule step_rename [where src = "''/p''" and dst = "''/r''", unfolded sample_allowed]) (unfold stale_steps, simp_all add: world_defs)
  moreover have "overlay_step False ?w5 ?w6"
    by (rule step_create [where p = "''/p''", unfolded sample_allowed]) (unfold stale_steps, simp add: world_defs)
  ultimately have "overlay_reach False ?w0 ?w6" by (meson reach_start reach_step)
  moreover have "?w0 = initial_world [] {} ?q" by (simp add: world_defs initial_world_def cow_default_def)
  moreover have "oq_file_limit (ow_quota ?w6) = Some 1 \<and> oq_files (ow_quota ?w6) = 2 \<and> length (ow_files ?w6) = 2"
    unfolding stale_steps by (simp add: world_defs)
  moreover have "quota_new [] (Some 4) (Some 1) = Inr ?q" by (simp add: quota_new_def usage_scan_def)
  ultimately show ?thesis by metis
qed

end
