(* ===== verification/Spec2Isabelle.thy ===== *)
theory Spec2Isabelle
  imports Row_Window Path_Intern Catalog_Search Tar_Source Union_Listing Prefix_Mount Version_Layer Tar_Roundtrip Path_Rules Quota_Runs
begin

text \<open>
  Verification development for ratarmount-rs.
\<close>

end
